(* ===== verification/Prelude.thy ===== *)
theory Prelude
  imports Main "HOL-Library.Word"
begin

text \<open>
  Shared vocabulary of the development: the C integer types as words of their width, the limits
  of \<^verbatim>\<open>stdint.h\<close>, and the generic facts on words and lists that the components use.
\<close>

unbundle bit_operations_syntax

type_synonym u8 = "8 word"
type_synonym u16 = "16 word"
type_synonym u32 = "32 word"
type_synonym u64 = "64 word"
type_synonym u128 = "128 word"
type_synonym byte = "8 word"

text \<open>The limits \<^verbatim>\<open>UINT8_MAX\<close> .. \<^verbatim>\<open>UINT64_MAX\<close> are the words with every bit set.\<close>

abbreviation UINT8_MAX :: u8 where "UINT8_MAX \<equiv> - 1"
abbreviation UINT16_MAX :: u16 where "UINT16_MAX \<equiv> - 1"
abbreviation UINT32_MAX :: u32 where "UINT32_MAX \<equiv> - 1"
abbreviation UINT64_MAX :: u64 where "UINT64_MAX \<equiv> - 1"

named_theorems word_nat \<open>transfer of word comparisons and arithmetic to natural numbers\<close>

declare word_less_nat_alt [word_nat] word_le_nat_alt [word_nat]

lemma unat_UINT32_MAX [word_nat]: "unat UINT32_MAX = 4294967295"
  by (simp add: unsigned_minus_1_eq_mask mask_eq_exp_minus_1)

lemma unat_UINT64_MAX [word_nat]: "unat UINT64_MAX = 18446744073709551615"
  by (simp add: unsigned_minus_1_eq_mask mask_eq_exp_minus_1)

lemma zero_iff_unat: "w = 0 \<longleftrightarrow> unat w = 0"
  by (simp add: unat_0_iff)

lemma unat_u32_lt: "unat (x :: u32) < 4294967296"
  using unsigned_less [of x, where 'a = nat] by simp

lemma unat_u32_le: "unat (x :: u32) \<le> 4294967295"
  using unat_u32_lt [of x] by simp

lemma unat_u64_lt: "unat (x :: u64) < 18446744073709551616"
  using unsigned_less [of x, where 'a = nat] by simp

lemma unat_u16_lt: "unat (x :: u16) < 65536"
  using unsigned_less [of x, where 'a = nat] by simp

lemma unat_u8_lt: "unat (x :: u8) < 256"
  using unsigned_less [of x, where 'a = nat] by simp

lemma unat_add_u32: "unat (x + y :: u32) = (unat x + unat y) mod 4294967296"
  by (simp add: unat_word_ariths)

lemma unat_add_u64: "unat (x + y :: u64) = (unat x + unat y) mod 18446744073709551616"
  by (simp add: unat_word_ariths)

lemma unat_mult_u32: "unat (x * y :: u32) = (unat x * unat y) mod 4294967296"
  by (simp add: unat_word_ariths)

lemma unat_mult_u64: "unat (x * y :: u64) = (unat x * unat y) mod 18446744073709551616"
  by (simp add: unat_word_ariths)

lemma unat_diff [word_nat]: "y \<le> x \<Longrightarrow> unat (x - y :: 'a::len word) = unat x - unat y"
  by (rule unat_sub)

lemma unat_neg_u32: "x \<noteq> 0 \<Longrightarrow> unat (- x :: u32) = 4294967296 - unat x"
  using unat_sub_if_size [of 0 x] by (simp add: word_size unat_eq_0)

lemma unat_ucast_u32_u64: "unat (ucast (x :: u32) :: u64) = unat x"
  using unat_u32_lt [of x] by (simp add: unsigned_ucast_eq take_bit_nat_eq_self)

lemma unat_ucast_u64_u32: "unat (ucast (x :: u64) :: u32) = unat x mod 4294967296"
  by (simp add: unsigned_ucast_eq take_bit_eq_mod)

lemma bit_31_iff: "bit (w :: u32) 31 \<longleftrightarrow> 2147483648 \<le> unat w"
proof -
  have "bit (unat w) 31 \<longleftrightarrow> bit w 31"
    by (simp add: bit_unsigned_iff)
  moreover have "bit (unat w) 31 \<longleftrightarrow> odd (unat w div 2147483648)"
    by (simp add: bit_iff_odd)
  moreover have "odd (unat w div 2147483648) \<longleftrightarrow> 2147483648 \<le> unat w"
  proof (cases "unat w < 2147483648")
    case False
    then have "unat w div 2147483648 = 1"
      using unat_u32_lt [of w] by (intro div_nat_eqI) auto
    with False show ?thesis by simp
  qed simp
  ultimately show ?thesis by blast
qed

lemma sint_u32:
  "sint (w :: u32) = (if unat w < 2147483648 then int (unat w) else int (unat w) - 4294967296)"
proof -
  have "sint w = take_bit 32 (uint w) - 4294967296 * of_bool (bit (uint w) 31)"
    by (simp add: sint_uint signed_take_bit_eq_take_bit_minus)
  moreover have "take_bit 32 (uint w) = uint w"
    using uint_bounded [of w] by (simp add: take_bit_int_eq_self)
  moreover have "bit (uint w) 31 \<longleftrightarrow> 2147483648 \<le> unat w"
    by (simp add: bit_unsigned_iff bit_31_iff)
  ultimately show ?thesis by simp
qed

lemma sint_neg_iff: "sint (w :: 'a::len word) < 0 \<longleftrightarrow> 2 ^ (LENGTH('a) - 1) \<le> unat w"
proof -
  obtain n where n: "LENGTH('a) = Suc n" by (cases "LENGTH('a)") auto
  have lt: "unat w < 2 * 2 ^ n"
    using unsigned_less [of w, where 'a = nat] by (simp add: n)
  have "sint w < 0 \<longleftrightarrow> bit (unat w) n"
    using bit_last_iff [of w] by (simp add: bit_unsigned_iff n)
  also have "\<dots> \<longleftrightarrow> odd (unat w div 2 ^ n)"
    by (simp add: bit_iff_odd)
  also have "\<dots> \<longleftrightarrow> 2 ^ n \<le> unat w"
  proof (cases "unat w < 2 ^ n")
    case False
    then have "unat w div 2 ^ n = 1"
      using lt by (intro div_nat_eqI) auto
    with False show ?thesis by simp
  qed simp
  finally show ?thesis by (simp add: n)
qed

end
