(* ===== verification/Serial.thy ===== *)
theory Serial
  imports Prelude
begin

text \<open>
  Serial-number arithmetic modulo \<open>2\<^sup>3\<^sup>2\<close>. Four source files compare TCP sequence numbers by the
  sign of a 32-bit difference, each with its own inline helpers. What they rely on is stated once,
  in the locale \<open>serial_order\<close>: inside any window of half the sequence space the helper orders
  sequence numbers by their distance from the window's base. The components interpret the locale
  on their own helpers.
\<close>

definition seq_off :: "u32 \<Rightarrow> u32 \<Rightarrow> nat" where
  "seq_off base x = unat (x - base)"

abbreviation HALF :: nat where "HALF \<equiv> 2147483648"

definition in_half :: "u32 \<Rightarrow> u32 \<Rightarrow> bool" where
  "in_half base x \<longleftrightarrow> seq_off base x < HALF"

lemma seq_off_self [simp]: "seq_off b b = 0"
  by (simp add: seq_off_def)

lemma in_half_self [simp]: "in_half b b"
  by (simp add: in_half_def)

lemma seq_off_lt: "seq_off b x < 4294967296"
  by (simp add: seq_off_def unat_u32_lt)

lemma seq_off_inj: "seq_off b x = seq_off b y \<longleftrightarrow> x = y"
  by (auto simp: seq_off_def dest: unsigned_word_eqI)

lemma seq_off_diff:
  "seq_off b y \<le> seq_off b x \<Longrightarrow> unat (x - y) = seq_off b x - seq_off b y"
proof -
  assume le: "seq_off b y \<le> seq_off b x"
  have "x - y = (x - b) - (y - b)" by simp
  also have "unat \<dots> = unat (x - b) - unat (y - b)"
    using le by (intro unat_sub) (simp add: seq_off_def word_le_nat_alt)
  finally show ?thesis by (simp add: seq_off_def)
qed

lemma seq_off_add:
  "seq_off b x + unat n < 4294967296 \<Longrightarrow> seq_off b (x + n) = seq_off b x + unat n"
proof -
  assume "seq_off b x + unat n < 4294967296"
  moreover have "x + n - b = (x - b) + n" by simp
  ultimately show ?thesis
    by (simp only: seq_off_def unat_add_u32 mod_less)
qed

lemma sint_diff_neg_iff:
  assumes "in_half base a" "in_half base b"
  shows "sint (a - b) < 0 \<longleftrightarrow> seq_off base a < seq_off base b"
proof (cases "seq_off base b \<le> seq_off base a")
  case True
  from seq_off_diff [OF True] assms show ?thesis
    using True by (auto simp: sint_u32 in_half_def)
next
  case False
  then have "unat (b - a) = seq_off base b - seq_off base a"
    by (intro seq_off_diff) simp
  moreover have "a - b = - (b - a)" by simp
  moreover have "b - a \<noteq> 0" using False by auto
  ultimately have "unat (a - b) = 4294967296 - (seq_off base b - seq_off base a)"
    using unat_neg_u32 [of "b - a"] by simp
  then show ?thesis
    using False assms by (auto simp: sint_u32 in_half_def)
qed

locale serial_order =
  fixes lt :: "u32 \<Rightarrow> u32 \<Rightarrow> bool"
  assumes lt_window:
    "\<lbrakk>in_half base a; in_half base b\<rbrakk> \<Longrightarrow> lt a b \<longleftrightarrow> seq_off base a < seq_off base b"
begin

lemma lt_irrefl: "\<not> lt a a"
  using lt_window [of a a a] by simp

lemma lt_asym: "\<lbrakk>in_half base a; in_half base b; lt a b\<rbrakk> \<Longrightarrow> \<not> lt b a"
  by (simp add: lt_window)

lemma lt_trans:
  "\<lbrakk>in_half base a; in_half base b; in_half base c; lt a b; lt b c\<rbrakk> \<Longrightarrow> lt a c"
  using lt_window by fastforce

lemma lt_total: "\<lbrakk>in_half base a; in_half base b\<rbrakk> \<Longrightarrow> lt a b \<or> a = b \<or> lt b a"
  using lt_window [of base a b] lt_window [of base b a] seq_off_inj [of base a b] by linarith

lemma lt_add: "\<lbrakk>0 < unat n; unat n < HALF\<rbrakk> \<Longrightarrow> lt a (a + n)"
  using lt_window [of a a "a + n"] by (simp add: in_half_def seq_off_def)

end

end
