(* ===== verification/Rbtree.thy ===== *)
theory Rbtree
  imports Prelude
begin

text \<open>
  The intrusive red-black tree of \<^verbatim>\<open>pro-stack/rbtree.c\<close>. A tree of linked nodes is a tree value, and a
  node with its chain of parent pointers is a rb_cursor: the subtree rb_at the node and the path to the
  root, parent first. Rotations and recolourings happen rb_at the rb_cursor, as the code does them
  through the parent pointers. Elements stand for the embedding objects; they are distinct, so that
  an element names its node.
\<close>

subsection \<open>Nodes, roots and cursors\<close>

datatype rb_color = RB_RED | RB_BLACK

datatype 'a rb_node = RbNil | RbNode rb_color "'a rb_node" 'a "'a rb_node"

datatype 'a rb_parent = IsLeft rb_color 'a "'a rb_node" | IsRight rb_color 'a "'a rb_node"

text \<open>The parent step holds the parent's colour and element and the sibling.\<close>

fun rb_up1 :: "'a rb_node \<Rightarrow> 'a rb_parent \<Rightarrow> 'a rb_node" where
  "rb_up1 t (IsLeft c k s) = RbNode c t k s"
| "rb_up1 t (IsRight c k s) = RbNode c s k t"

fun rb_up :: "'a rb_node \<Rightarrow> 'a rb_parent list \<Rightarrow> 'a rb_node" where
  "rb_up t [] = t"
| "rb_up t (p # ps) = rb_up (rb_up1 t p) ps"

fun parent_color :: "'a rb_parent \<Rightarrow> rb_color" where
  "parent_color (IsLeft c k s) = c"
| "parent_color (IsRight c k s) = c"

fun rb_color_of :: "'a rb_node \<Rightarrow> rb_color" where
  "rb_color_of RbNil = RB_BLACK"
| "rb_color_of (RbNode c l k r) = c"

fun rb_set_color :: "rb_color \<Rightarrow> 'a rb_node \<Rightarrow> 'a rb_node" where
  "rb_set_color c RbNil = RbNil"
| "rb_set_color c (RbNode c' l k r) = RbNode c l k r"

fun rb_minimum :: "'a rb_node \<Rightarrow> 'a option" where
  "rb_minimum RbNil = None"
| "rb_minimum (RbNode c RbNil k r) = Some k"
| "rb_minimum (RbNode c l k r) = rb_minimum l"

fun rb_maximum :: "'a rb_node \<Rightarrow> 'a option" where
  "rb_maximum RbNil = None"
| "rb_maximum (RbNode c l k RbNil) = Some k"
| "rb_maximum (RbNode c l k r) = rb_maximum r"

text \<open>A rotation needs the child it promotes; the code dereferences it unconditionally.\<close>

fun rb_rotate_left :: "'a rb_node \<Rightarrow> 'a rb_node" where
  "rb_rotate_left (RbNode c l k (RbNode rc rl rk rr)) = RbNode rc (RbNode c l k rl) rk rr"
| "rb_rotate_left t = t"

fun rb_rotate_right :: "'a rb_node \<Rightarrow> 'a rb_node" where
  "rb_rotate_right (RbNode c (RbNode lc ll lk lr) k r) = RbNode lc ll lk (RbNode c lr k r)"
| "rb_rotate_right t = t"

subsection \<open>Insertion\<close>

definition rb_link_node :: "'a \<Rightarrow> 'a rb_node" where
  "rb_link_node k = RbNode RB_RED RbNil k RbNil"

text \<open>\<open>None\<close> stands for the dereference of a missing grandparent.\<close>

fun rb_insert_color :: "'a rb_node \<Rightarrow> 'a rb_parent list \<Rightarrow> 'a rb_node option" where
  "rb_insert_color t [] = Some (rb_set_color RB_BLACK t)"
| "rb_insert_color t [p] =
     (if parent_color p = RB_RED then None else Some (rb_set_color RB_BLACK (rb_up1 t p)))"
| "rb_insert_color t (p # g # ps) =
     (if parent_color p \<noteq> RB_RED then Some (rb_set_color RB_BLACK (rb_up t (p # g # ps)))
      else case g of
        IsLeft gc gk uncle \<Rightarrow>
          if rb_color_of uncle = RB_RED then
            rb_insert_color (RbNode RB_RED (rb_set_color RB_BLACK (rb_up1 t p)) gk (rb_set_color RB_BLACK uncle)) ps
          else let parent = rb_up1 t p;
                   parent = (case p of IsRight _ _ _ \<Rightarrow> rb_rotate_left parent | IsLeft _ _ _ \<Rightarrow> parent);
                   grandparent = RbNode RB_RED (rb_set_color RB_BLACK parent) gk uncle
               in Some (rb_set_color RB_BLACK (rb_up (rb_rotate_right grandparent) ps))
      | IsRight gc gk uncle \<Rightarrow>
          if rb_color_of uncle = RB_RED then
            rb_insert_color (RbNode RB_RED (rb_set_color RB_BLACK uncle) gk (rb_set_color RB_BLACK (rb_up1 t p))) ps
          else let parent = rb_up1 t p;
                   parent = (case p of IsLeft _ _ _ \<Rightarrow> rb_rotate_right parent | IsRight _ _ _ \<Rightarrow> parent);
                   grandparent = RbNode RB_RED uncle gk (rb_set_color RB_BLACK parent)
               in Some (rb_set_color RB_BLACK (rb_up (rb_rotate_left grandparent) ps)))"

subsection \<open>Removal\<close>

text \<open>
  One round of the fix-up loop below a left and below a right child: the rotated-away red sibling
  adds a parent step. \<open>Inl\<close> is the next rb_cursor, \<open>Inr\<close> the finished tree.
\<close>

definition erase_case_left ::
  "'a rb_node \<Rightarrow> rb_color \<Rightarrow> 'a \<Rightarrow> 'a rb_node \<Rightarrow> 'a rb_parent list \<Rightarrow> ('a rb_node \<times> 'a rb_parent list) + 'a rb_node" where
  "erase_case_left t pc pk sibling ps =
     (case sibling of RbNil \<Rightarrow> Inl (RbNode pc t pk RbNil, ps)
      | RbNode sc sl sk sr \<Rightarrow>
          if rb_color_of sl = RB_BLACK \<and> rb_color_of sr = RB_BLACK
          then Inl (RbNode pc t pk (RbNode RB_RED sl sk sr), ps)
          else let sibling = (if rb_color_of sr = RB_BLACK
                     then rb_rotate_right (RbNode RB_RED (rb_set_color RB_BLACK sl) sk sr) else sibling)
               in (case sibling of RbNil \<Rightarrow> Inl (RbNode pc t pk RbNil, ps)
                   | RbNode _ sl sk sr \<Rightarrow>
                       Inr (rb_set_color RB_BLACK (rb_up (rb_rotate_left
                         (RbNode RB_BLACK t pk (RbNode pc sl sk (rb_set_color RB_BLACK sr)))) ps))))"

definition erase_case_right ::
  "'a rb_node \<Rightarrow> rb_color \<Rightarrow> 'a \<Rightarrow> 'a rb_node \<Rightarrow> 'a rb_parent list \<Rightarrow> ('a rb_node \<times> 'a rb_parent list) + 'a rb_node" where
  "erase_case_right t pc pk sibling ps =
     (case sibling of RbNil \<Rightarrow> Inl (RbNode pc RbNil pk t, ps)
      | RbNode sc sl sk sr \<Rightarrow>
          if rb_color_of sr = RB_BLACK \<and> rb_color_of sl = RB_BLACK
          then Inl (RbNode pc (RbNode RB_RED sl sk sr) pk t, ps)
          else let sibling = (if rb_color_of sl = RB_BLACK
                     then rb_rotate_left (RbNode RB_RED sl sk (rb_set_color RB_BLACK sr)) else sibling)
               in (case sibling of RbNil \<Rightarrow> Inl (RbNode pc RbNil pk t, ps)
                   | RbNode _ sl sk sr \<Rightarrow>
                       Inr (rb_set_color RB_BLACK (rb_up (rb_rotate_right
                         (RbNode RB_BLACK (RbNode pc (rb_set_color RB_BLACK sl) sk sr) pk t)) ps))))"

definition erase_round ::
  "'a rb_node \<Rightarrow> 'a rb_parent \<Rightarrow> 'a rb_parent list \<Rightarrow> ('a rb_node \<times> 'a rb_parent list) + 'a rb_node" where
  "erase_round t p ps =
     (case p of
        IsLeft pc pk sibling \<Rightarrow>
          (case sibling of
             RbNode RB_RED sl sk sr \<Rightarrow> erase_case_left t RB_RED pk sl (IsLeft RB_BLACK sk sr # ps)
           | _ \<Rightarrow> erase_case_left t pc pk sibling ps)
      | IsRight pc pk sibling \<Rightarrow>
          (case sibling of
             RbNode RB_RED sl sk sr \<Rightarrow> erase_case_right t RB_RED pk sr (IsRight RB_BLACK sk sl # ps)
           | _ \<Rightarrow> erase_case_right t pc pk sibling ps))"

lemma erase_round_decreases:
  "erase_round t p ps = Inl (t', ps') \<Longrightarrow>
     2 * length ps' + (if rb_color_of t' = RB_BLACK then 1 else 0) < 2 * length (p # ps) + 1"
  by (auto simp: erase_round_def erase_case_left_def erase_case_right_def Let_def
        split: rb_parent.splits rb_node.splits rb_color.splits if_splits)

function rb_erase_fixup :: "'a rb_node \<Rightarrow> 'a rb_parent list \<Rightarrow> 'a rb_node" where
  "rb_erase_fixup t [] = rb_set_color RB_BLACK t"
| "rb_erase_fixup t (p # ps) =
     (if rb_color_of t = RB_BLACK then
        (case erase_round t p ps of Inl (t', ps') \<Rightarrow> rb_erase_fixup t' ps' | Inr root \<Rightarrow> root)
      else rb_up (rb_set_color RB_BLACK t) (p # ps))"
  by pat_completeness auto
termination
  by (relation "measure (\<lambda>(t, ps). 2 * length ps + (if rb_color_of t = RB_BLACK then 1 else 0))")
     (use erase_round_decreases in fastforce)+

text \<open>The removed leftmost node of the right subtree, with its path below the right child.\<close>

fun min_cursor :: "'a rb_node \<Rightarrow> 'a rb_parent list \<Rightarrow> 'a rb_node \<times> 'a rb_parent list" where
  "min_cursor (RbNode c (RbNode lc ll lk lr) k r) ps = min_cursor (RbNode lc ll lk lr) (IsLeft c k r # ps)"
| "min_cursor t ps = (t, ps)"

definition erase_at :: "'a rb_node \<Rightarrow> 'a rb_parent list \<Rightarrow> 'a rb_node" where
  "erase_at t ps =
     (case t of RbNil \<Rightarrow> rb_up t ps
      | RbNode c l k r \<Rightarrow>
          if l = RbNil then (if c = RB_BLACK then rb_erase_fixup r ps else rb_up r ps)
          else if r = RbNil then (if c = RB_BLACK then rb_erase_fixup l ps else rb_up l ps)
          else (case min_cursor r [] of
                  (RbNil, mps) \<Rightarrow> rb_up t ps
                | (RbNode mc ml mk mr, mps) \<Rightarrow>
                    let ps' = mps @ IsRight c mk l # ps
                    in if mc = RB_BLACK then rb_erase_fixup mr ps' else rb_up mr ps'))"

text \<open>The cursor at the node of an element: what following its node pointer gives.\<close>

fun rb_cursor :: "'a \<Rightarrow> 'a rb_node \<Rightarrow> 'a rb_parent list \<Rightarrow> ('a rb_node \<times> 'a rb_parent list) option" where
  "rb_cursor x RbNil ps = None"
| "rb_cursor x (RbNode c l k r) ps =
     (if k = x then Some (RbNode c l k r, ps)
      else case rb_cursor x l (IsLeft c k r # ps) of Some z \<Rightarrow> Some z
           | None \<Rightarrow> rb_cursor x r (IsRight c k l # ps))"

definition rb_erase :: "'a \<Rightarrow> 'a rb_node \<Rightarrow> 'a rb_node" where
  "rb_erase x root = (case rb_cursor x root [] of None \<Rightarrow> root | Some (t, ps) \<Rightarrow> erase_at t ps)"

subsection \<open>Traversal\<close>

definition rb_first :: "'a rb_node \<Rightarrow> 'a option" where
  "rb_first root = rb_minimum root"

definition rb_last :: "'a rb_node \<Rightarrow> 'a option" where
  "rb_last root = rb_maximum root"

fun climb_next :: "'a rb_parent list \<Rightarrow> 'a option" where
  "climb_next [] = None"
| "climb_next (IsRight c k s # ps) = climb_next ps"
| "climb_next (IsLeft c k s # ps) = Some k"

fun climb_prev :: "'a rb_parent list \<Rightarrow> 'a option" where
  "climb_prev [] = None"
| "climb_prev (IsLeft c k s # ps) = climb_prev ps"
| "climb_prev (IsRight c k s # ps) = Some k"

definition rb_next :: "'a \<Rightarrow> 'a rb_node \<Rightarrow> 'a option" where
  "rb_next x root =
     (case rb_cursor x root [] of
        Some (RbNode c l k r, ps) \<Rightarrow> if r \<noteq> RbNil then rb_minimum r else climb_next ps
      | _ \<Rightarrow> None)"

definition rb_prev :: "'a \<Rightarrow> 'a rb_node \<Rightarrow> 'a option" where
  "rb_prev x root =
     (case rb_cursor x root [] of
        Some (RbNode c l k r, ps) \<Rightarrow> if l \<noteq> RbNil then rb_maximum l else climb_prev ps
      | _ \<Rightarrow> None)"

end
