(* ===== verification/Tcp_Stream.thy ===== *)
theory Tcp_Stream
  imports Serial Rbtree
begin

text \<open>
  The TCP control block: \<^verbatim>\<open>struct tcp_stream\<close> of \<^verbatim>\<open>pro-stack/tcp.h\<close> with the records it embeds
  (scoreboard, congestion control, CUBIC private state, send-side fragment). Intrusive lists are
  lists, owner-local pointers to optional objects are options, integers keep their width. Every
  TCP component is a set of functions on this record.
\<close>

subsection \<open>Configuration constants (config.h, tcp.h)\<close>

definition TCP_DEFAULT_MSS :: u16 where [simp]: "TCP_DEFAULT_MSS = 1460"
definition TCP_RTO_INITIAL_MS :: u32 where [simp]: "TCP_RTO_INITIAL_MS = 1000"
definition TCP_RTO_MIN_MS :: u64 where [simp]: "TCP_RTO_MIN_MS = 200"
definition TCP_RTO_MAX_MS :: u64 where [simp]: "TCP_RTO_MAX_MS = 60000"
definition TCP_MEMORY_CHUNK_SIZE :: u32 where [simp]: "TCP_MEMORY_CHUNK_SIZE = 2048"
definition TCP_WSCALE_MAX :: u8 where [simp]: "TCP_WSCALE_MAX = 14"
definition TCP_SACK_MAX_BLOCKS :: nat where [simp]: "TCP_SACK_MAX_BLOCKS = 4"
definition TCP_SACK_SCORE_MAX_RANGES :: u16 where [simp]: "TCP_SACK_SCORE_MAX_RANGES = 128"
definition TCP_OFO_MAX_SEGS :: nat where [simp]: "TCP_OFO_MAX_SEGS = 32"
definition TCP_SACK_DUP_THRESH :: u32 where [simp]: "TCP_SACK_DUP_THRESH = 3"

subsection \<open>Enumerations\<close>

datatype TCP_STATUS =
    TCP_STATUS_CLOSED | TCP_STATUS_LISTEN | TCP_STATUS_SYN_SENT | TCP_STATUS_SYN_RECV
  | TCP_STATUS_ESTABLISHED | TCP_STATUS_CLOSE_WAIT | TCP_STATUS_LAST_ACK | TCP_STATUS_TIME_WAIT
  | TCP_STATUS_CLOSING | TCP_STATUS_FIN_WAIT_1 | TCP_STATUS_FIN_WAIT_2

datatype tcp_recovery_mode =
    TCP_RECOVERY_NORMAL | TCP_RECOVERY_SACK | TCP_RECOVERY_RTO | TCP_RECOVERY_NEWRENO

datatype tcp_recovery_tx_kind =
    TCP_RECOVERY_TX_NONE | TCP_RECOVERY_TX_RETRANSMIT | TCP_RECOVERY_TX_NEW_DATA

datatype tcp_cc_loss_reason = TCP_CC_LOSS_SACK | TCP_CC_LOSS_DUPACK | TCP_CC_LOSS_RTO

datatype cubic_phase = CUBIC_PHASE_SLOW_START | CUBIC_PHASE_CSS | CUBIC_PHASE_AVOIDANCE

text \<open>
  The two callback tables of the build; the dispatch layer selects by table, as the code selects
  by the table's address.
\<close>

datatype tcp_cc_ops = tcp_newreno_ops | tcp_cubic_ops

subsection \<open>Scoreboard and recovery state (tcp_sack.h)\<close>

record tcp_sack_block =
  blk_left :: u32
  blk_right :: u32

record tcp_sack_range =
  rng_left :: u32
  rng_right :: u32
  rng_flags :: u8

record tcp_recovery_candidate =
  kind :: tcp_recovery_tx_kind
  nextseg_rule :: u8
  rescue :: bool
  cand_seq :: u32
  cand_end :: u32

record tcp_sack_state =
  sacked :: "tcp_sack_range list"
  retransmitted :: "tcp_sack_range list"
  range_count :: u16
  degraded :: bool
  degraded_until :: u32
  mode :: tcp_recovery_mode
  high_data :: u32
  high_rxt :: u32
  rescue_rxt :: u32
  recovery_point :: u32
  pipe :: u32
  dup_acks :: u8
  limited_transmit :: bool
  pending :: tcp_recovery_candidate

subsection \<open>Congestion control state (tcp_cc.h, tcp_cc/cubic.c)\<close>

text \<open>
  The bits \<^verbatim>\<open>CUBIC_F_*\<close> of \<^verbatim>\<open>cubic_state.flags\<close> are one boolean field each.
\<close>

record cubic_state =
  cubic_credit :: u64
  w_max :: u32
  w_last_max :: u32
  cwnd_prior :: u32
  cwnd_epoch :: u32
  w_est :: u32
  k_ms :: u32
  epoch_start_ms :: u32
  last_update_ms :: u32
  round_end :: u32
  last_round_min_rtt :: u32
  current_round_min_rtt :: u32
  css_baseline_min_rtt :: u32
  sample_count :: u8
  css_rounds :: u8
  phase :: cubic_phase
  epoch_valid :: bool
  last_update_valid :: bool
  round_valid :: bool
  hystart_done :: bool
  after_timeout :: bool

text \<open>\<^verbatim>\<open>priv\<close> is the fixed private storage read through the algorithm's own struct.\<close>

record tcp_cc_state =
  ops :: "tcp_cc_ops option"
  cwnd :: u32
  ssthresh :: u32
  initial_window :: u32
  ca_acked :: u32
  rto_loss_seq :: u32
  rto_loss_valid :: bool
  last_data_tx_ms :: u32
  cwnd_limited :: bool
  priv :: cubic_state

subsection \<open>Out-of-order segments (tcp.h)\<close>

text \<open>
  A segment's payload is what the code reads at \<^verbatim>\<open>data + data_off\<close>: \<^verbatim>\<open>seg_data\<close> is the allocation
  from its base, \<^verbatim>\<open>seg_data_off\<close> the trimmed prefix. \<^verbatim>\<open>seg_ptr\<close> is the address that tells
  segments apart.
\<close>

record tcp_ofo_seg =
  seg_ptr :: nat
  seg_seq :: u32
  seg_len :: u32
  seg_data_off :: u32
  seg_has_fin :: bool
  seg_data :: "byte list"

subsection \<open>Buffers and queued segments (tcp.h)\<close>

text \<open>
  The length of a receive blob or transmit chunk is the length of its data; offsets stay below the
  2048 bytes of a payload block.
\<close>

record tcp_rx_blob =
  blob_data :: "byte list"
  blob_off :: nat

record tcp_tx_chunk =
  chunk_seq :: u32
  chunk_data :: "byte list"
  chunk_off :: nat

record tcp_sndbuf =
  sb_chunks :: "tcp_tx_chunk list"
  sb_len :: u32
  sb_head_seq :: u32
  sb_unacked :: u32

record tcp_fragment =
  frag_src_port :: u16
  frag_dst_port :: u16
  frag_sent_seq :: u32
  frag_recv_ack :: u32
  frag_data_off :: u8
  frag_tcp_flags :: u8
  frag_rx_win :: u16
  frag_tcp_urp :: u16
  frag_opt_len :: int
  frag_options :: "byte list"
  frag_payload :: "byte list"

subsection \<open>The stream\<close>

text \<open>
  The out-of-order queue is a doubly linked list with an index: the red-black tree holds, for every
  queued segment, its sequence number and address.
\<close>

record tcp_stream =
  remote_ip :: u32
  remote_port :: u16
  backlog :: u32
  syn_pending :: u32
  sent_seq :: u32
  snd_una :: u32
  recv_ack :: u32
  sndbuf :: tcp_sndbuf
  rcvbuf_size :: u32
  rcvbuf_used :: u32
  peer_eof :: bool
  rx_current :: "tcp_rx_blob option"
  rx_queue :: "tcp_rx_blob list"
  tx_queue :: "tcp_fragment list"
  snd_wnd :: u32
  snd_wl1 :: u32
  snd_wl2 :: u32
  snd_wnd_valid :: bool
  snd_mss :: u16
  rcv_wscale :: u8
  snd_wscale :: u8
  wscale_ok :: bool
  timestamps_ok :: bool
  ts_recent :: u32
  ts_recent_valid :: bool
  ts_recent_age_ms :: u32
  ts_last_val :: u32
  rx_timestamp_present :: bool
  rx_tsval :: u32
  rx_tsecr :: u32
  sack_local_offered :: bool
  sack_peer_permitted :: bool
  sack_permitted :: bool
  sack_recent_valid :: bool
  sack_recent :: tcp_sack_block
  sack_history :: "tcp_sack_block list"
  dsack_pending :: bool
  ack_pending :: bool
  dsack_block :: tcp_sack_block
  rx_sacks :: "tcp_sack_block list"
  sack :: tcp_sack_state
  cc :: tcp_cc_state
  syn_retransmitted :: bool
  fin_deferred :: bool
  linger_enabled :: bool
  linger_seconds :: u32
  close_deadline_cycles :: u64
  srtt_ms :: u32
  rttvar_ms :: u32
  rto_ms :: u32
  rtt_probe_valid :: bool
  rtt_probe_end_seq :: u32
  rtt_probe_tsval :: u32
  rtt_retransmitting :: bool
  status :: TCP_STATUS
  retries :: u8
  ofo_tree :: "(u32 \<times> nat) rb_node"
  ofo :: "tcp_ofo_seg list"
  ofo_count :: u16
  ofo_bytes :: u32
  ofo_reorder_distance_peak :: u32

subsection \<open>Zeroed objects (memset, rte_zmalloc)\<close>

definition tcp_sack_block_zero :: tcp_sack_block where
  "tcp_sack_block_zero = \<lparr>blk_left = 0, blk_right = 0\<rparr>"

definition tcp_recovery_candidate_zero :: tcp_recovery_candidate where
  "tcp_recovery_candidate_zero =
     \<lparr>kind = TCP_RECOVERY_TX_NONE, nextseg_rule = 0, rescue = False, cand_seq = 0, cand_end = 0\<rparr>"

definition tcp_sack_state_zero :: tcp_sack_state where
  "tcp_sack_state_zero =
     \<lparr>sacked = [], retransmitted = [], range_count = 0, degraded = False, degraded_until = 0,
      mode = TCP_RECOVERY_NORMAL, high_data = 0, high_rxt = 0, rescue_rxt = 0, recovery_point = 0,
      pipe = 0, dup_acks = 0, limited_transmit = False, pending = tcp_recovery_candidate_zero\<rparr>"

definition cubic_state_zero :: cubic_state where
  "cubic_state_zero =
     \<lparr>cubic_credit = 0, w_max = 0, w_last_max = 0, cwnd_prior = 0, cwnd_epoch = 0, w_est = 0,
      k_ms = 0, epoch_start_ms = 0, last_update_ms = 0, round_end = 0, last_round_min_rtt = 0,
      current_round_min_rtt = 0, css_baseline_min_rtt = 0, sample_count = 0, css_rounds = 0,
      phase = CUBIC_PHASE_SLOW_START, epoch_valid = False, last_update_valid = False,
      round_valid = False, hystart_done = False, after_timeout = False\<rparr>"

definition tcp_cc_state_zero :: tcp_cc_state where
  "tcp_cc_state_zero =
     \<lparr>ops = None, cwnd = 0, ssthresh = 0, initial_window = 0, ca_acked = 0, rto_loss_seq = 0,
      rto_loss_valid = False, last_data_tx_ms = 0, cwnd_limited = False, priv = cubic_state_zero\<rparr>"

definition tcp_sndbuf_zero :: tcp_sndbuf where
  "tcp_sndbuf_zero = \<lparr>sb_chunks = [], sb_len = 0, sb_head_seq = 0, sb_unacked = 0\<rparr>"

definition tcp_stream_zero :: tcp_stream where
  "tcp_stream_zero =
     \<lparr>remote_ip = 0, remote_port = 0, backlog = 0, syn_pending = 0, sent_seq = 0, snd_una = 0,
      recv_ack = 0, sndbuf = tcp_sndbuf_zero, rcvbuf_size = 0, rcvbuf_used = 0, peer_eof = False,
      rx_current = None, rx_queue = [], tx_queue = [],
      snd_wnd = 0, snd_wl1 = 0, snd_wl2 = 0, snd_wnd_valid = False, snd_mss = 0, rcv_wscale = 0,
      snd_wscale = 0, wscale_ok = False, timestamps_ok = False, ts_recent = 0,
      ts_recent_valid = False, ts_recent_age_ms = 0, ts_last_val = 0,
      rx_timestamp_present = False, rx_tsval = 0, rx_tsecr = 0, sack_local_offered = False,
      sack_peer_permitted = False, sack_permitted = False, sack_recent_valid = False,
      sack_recent = tcp_sack_block_zero, sack_history = [], dsack_pending = False,
      ack_pending = False, dsack_block = tcp_sack_block_zero, rx_sacks = [],
      sack = tcp_sack_state_zero, cc = tcp_cc_state_zero, syn_retransmitted = False,
      fin_deferred = False, linger_enabled = False, linger_seconds = 0, close_deadline_cycles = 0,
      srtt_ms = 0, rttvar_ms = 0, rto_ms = 0, rtt_probe_valid = False,
      rtt_probe_end_seq = 0, rtt_probe_tsval = 0, rtt_retransmitting = False,
      status = TCP_STATUS_CLOSED, retries = 0, ofo_tree = RbNil, ofo = [], ofo_count = 0, ofo_bytes = 0,
      ofo_reorder_distance_peak = 0\<rparr>"

lemmas zero_defs =
  tcp_sack_block_zero_def tcp_recovery_candidate_zero_def tcp_sack_state_zero_def
  cubic_state_zero_def tcp_cc_state_zero_def tcp_sndbuf_zero_def tcp_stream_zero_def

end
