(* ===== verification/Tcp_Rtt.thy ===== *)
theory Tcp_Rtt
  imports Tcp_Stream
begin

text \<open>
  RTT estimation and the data/FIN retransmission timeout, \<^verbatim>\<open>pro-stack/tcp_rtt.c\<close>. The millisecond
  clock \<^verbatim>\<open>tcp_options_now_ms()\<close> is the argument \<open>now\<close> of the functions that read it.
\<close>

subsection \<open>The code\<close>

definition tcp_rtt_clamp :: "u64 \<Rightarrow> u32" where
  "tcp_rtt_clamp rto =
     (if rto < TCP_RTO_MIN_MS then ucast TCP_RTO_MIN_MS
      else if rto > TCP_RTO_MAX_MS then ucast TCP_RTO_MAX_MS
      else ucast rto)"

definition tcp_rtt_reset :: "tcp_stream \<Rightarrow> tcp_stream" where
  "tcp_rtt_reset tp =
     tp\<lparr>srtt_ms := 0, rttvar_ms := 0, rto_ms := TCP_RTO_INITIAL_MS, rtt_probe_valid := False,
        rtt_probe_end_seq := 0, rtt_probe_tsval := 0, rtt_retransmitting := False\<rparr>"

definition tcp_rtt_note_xmit :: "tcp_stream \<Rightarrow> u32 \<Rightarrow> u32 \<Rightarrow> tcp_stream" where
  "tcp_rtt_note_xmit tp end_seq tsval =
     (if \<not> timestamps_ok tp \<or> rtt_retransmitting tp \<or> rtt_probe_valid tp then tp
      else tp\<lparr>rtt_probe_end_seq := end_seq, rtt_probe_tsval := tsval, rtt_probe_valid := True\<rparr>)"

text \<open>The estimator update of \<^verbatim>\<open>tcp_rtt_on_ack\<close>, on the pair (srtt, rttvar).\<close>

definition tcp_rtt_estimate :: "u32 \<Rightarrow> u32 \<Rightarrow> u32 \<Rightarrow> u32 \<times> u32" where
  "tcp_rtt_estimate srtt rttvar sample =
     (if srtt = 0 then (sample, sample div 2)
      else let delta = (if srtt > sample then srtt - sample else sample - srtt)
           in ((7 * srtt + sample) div 8, (3 * rttvar + delta) div 4))"

definition tcp_rtt_on_ack ::
  "u32 \<Rightarrow> tcp_stream \<Rightarrow> u32 \<Rightarrow> bool \<Rightarrow> u32 \<Rightarrow> bool \<times> tcp_stream" where
  "tcp_rtt_on_ack now tp ack ts_present tsecr =
     (if \<not> timestamps_ok tp \<or> \<not> ts_present \<or> \<not> rtt_probe_valid tp \<or> rtt_retransmitting tp
         \<or> tsecr \<noteq> rtt_probe_tsval tp \<or> sint (ack - rtt_probe_end_seq tp) < 0
      then (False, tp)
      else let sample = (if now - tsecr = 0 then 1 else now - tsecr);
               (srtt, rttvar) = tcp_rtt_estimate (srtt_ms tp) (rttvar_ms tp) sample;
               rto = ucast srtt + (ucast (4 * rttvar) :: u64)
           in (True, tp\<lparr>srtt_ms := srtt, rttvar_ms := rttvar, rto_ms := tcp_rtt_clamp rto,
                        rtt_probe_valid := False\<rparr>))"

definition tcp_rtt_sample_ack :: "tcp_stream \<Rightarrow> bool \<Rightarrow> u32 \<Rightarrow> u32 \<Rightarrow> u32 option" where
  "tcp_rtt_sample_ack tp ts_present tsecr now_ms =
     (if \<not> timestamps_ok tp \<or> \<not> ts_present \<or> rtt_retransmitting tp then None
      else let sample = now_ms - tsecr in Some (if sample \<noteq> 0 then sample else 1))"

definition tcp_rtt_on_timeout :: "tcp_stream \<Rightarrow> tcp_stream" where
  "tcp_rtt_on_timeout tp =
     tp\<lparr>rto_ms := tcp_rtt_clamp (ucast (rto_ms tp) * 2), rtt_probe_valid := False,
        rtt_retransmitting := True\<rparr>"

definition tcp_rtt_on_retransmit :: "tcp_stream \<Rightarrow> tcp_stream" where
  "tcp_rtt_on_retransmit tp = tp\<lparr>rtt_probe_valid := False, rtt_retransmitting := True\<rparr>"

definition tcp_rtt_on_flight_acked :: "tcp_stream \<Rightarrow> tcp_stream" where
  "tcp_rtt_on_flight_acked tp = tp\<lparr>rtt_probe_valid := False, rtt_retransmitting := False\<rparr>"

lemmas rtt_defs =
  tcp_rtt_reset_def tcp_rtt_note_xmit_def tcp_rtt_on_ack_def tcp_rtt_on_timeout_def
  tcp_rtt_on_retransmit_def tcp_rtt_on_flight_acked_def

subsection \<open>Traces of estimator events\<close>

text \<open>The calls \<^verbatim>\<open>tcp.c\<close> makes on one connection, as events of a trace.\<close>

datatype rtt_event =
    Rtt_Reset | Rtt_Xmit u32 u32 | Rtt_Ack u32 u32 bool u32 | Rtt_Timeout | Rtt_Retransmit
  | Rtt_Flight_Acked

fun rtt_step :: "tcp_stream \<Rightarrow> rtt_event \<Rightarrow> tcp_stream" where
  "rtt_step tp Rtt_Reset = tcp_rtt_reset tp"
| "rtt_step tp (Rtt_Xmit end_seq tsval) = tcp_rtt_note_xmit tp end_seq tsval"
| "rtt_step tp (Rtt_Ack now ack ts_present tsecr) = snd (tcp_rtt_on_ack now tp ack ts_present tsecr)"
| "rtt_step tp Rtt_Timeout = tcp_rtt_on_timeout tp"
| "rtt_step tp Rtt_Retransmit = tcp_rtt_on_retransmit tp"
| "rtt_step tp Rtt_Flight_Acked = tcp_rtt_on_flight_acked tp"

definition rtt_run :: "tcp_stream \<Rightarrow> rtt_event list \<Rightarrow> tcp_stream" where
  "rtt_run tp es = foldl rtt_step tp es"

lemma rtt_run_simps [simp]:
  "rtt_run tp [] = tp" "rtt_run tp (e # es) = rtt_run (rtt_step tp e) es"
  by (simp_all add: rtt_run_def)

subsection \<open>Bounds of the timeout\<close>

definition rto_in_range :: "tcp_stream \<Rightarrow> bool" where
  "rto_in_range tp \<longleftrightarrow> 200 \<le> unat (rto_ms tp) \<and> unat (rto_ms tp) \<le> 60000"

lemma unat_tcp_rtt_clamp: "unat (tcp_rtt_clamp r) = max 200 (min 60000 (unat r))"
proof -
  have "unat (ucast r :: u32) = unat r" if "unat r \<le> 60000"
    using that by (simp add: unat_ucast_u64_u32)
  then show ?thesis
    by (auto simp: tcp_rtt_clamp_def word_less_nat_alt)
qed

lemma rtt_step_in_range: "rto_in_range tp \<Longrightarrow> rto_in_range (rtt_step tp e)"
  by (cases e)
     (auto simp: rto_in_range_def rtt_defs unat_tcp_rtt_clamp Let_def split: prod.splits)

lemma rtt_run_in_range: "rto_in_range tp \<Longrightarrow> rto_in_range (rtt_run tp es)"
  by (induction es arbitrary: tp) (auto intro: rtt_step_in_range)

lemma tcp_rtt_reset_in_range: "rto_in_range (tcp_rtt_reset tp)"
  by (simp add: rto_in_range_def tcp_rtt_reset_def)

subsection \<open>Refinement of the RFC 6298 estimator\<close>

text \<open>
  The estimator of RFC 6298 over natural numbers, as sections 2.2 and 2.3 of the RFC state it with
  the integer rounding of the code.
\<close>

fun rfc6298 :: "nat \<times> nat \<Rightarrow> nat \<Rightarrow> nat \<times> nat" where
  "rfc6298 (srtt, rttvar) r =
     (if srtt = 0 then (r, r div 2)
      else ((7 * srtt + r) div 8, (3 * rttvar + (if srtt > r then srtt - r else r - srtt)) div 4))"

abbreviation RTT_MAX :: nat where "RTT_MAX \<equiv> 536870912"

lemma tcp_rtt_estimate_refines:
  assumes "unat srtt < RTT_MAX" "unat rttvar < RTT_MAX" "unat sample < RTT_MAX"
  shows "map_prod unat unat (tcp_rtt_estimate srtt rttvar sample)
           = rfc6298 (unat srtt, unat rttvar) (unat sample)"
proof (cases "srtt = 0")
  case True
  then show ?thesis by (simp add: tcp_rtt_estimate_def unat_div)
next
  case False
  let ?delta = "if srtt > sample then srtt - sample else sample - srtt"
  have delta: "unat ?delta = (if unat srtt > unat sample then unat srtt - unat sample
                                else unat sample - unat srtt)"
    by (auto simp: word_less_nat_alt unat_sub word_le_nat_alt)
  have "unat ?delta < RTT_MAX"
    using assms unfolding delta by auto
  then have "unat (3 * rttvar + ?delta) = 3 * unat rttvar + unat ?delta"
    using assms by (simp add: unat_add_u32 unat_mult_u32)
  moreover have "unat (7 * srtt + sample) = 7 * unat srtt + unat sample"
    using assms by (simp add: unat_add_u32 unat_mult_u32)
  ultimately show ?thesis
    using False delta by (simp add: tcp_rtt_estimate_def Let_def unat_div unat_eq_0)
qed

lemma rfc6298_bounded:
  assumes "s \<le> m" "v \<le> m" "r \<le> m"
  shows "fst (rfc6298 (s, v) r) \<le> m \<and> snd (rfc6298 (s, v) r) \<le> m"
  using assms by auto

lemma unat_ucast_sum_u64:
  "unat (ucast (a :: u32) + ucast (b :: u32) :: u64) = unat a + unat b"
  using unat_u32_lt [of a] unat_u32_lt [of b] by (simp add: unat_add_u64 unat_ucast_u32_u64)

lemma unat_max_1: "unat (if x = 0 then 1 else x :: u32) = max 1 (unat x)"
  by (auto simp: max_def) (metis Suc_leI One_nat_def unat_gt_0)

lemma rtt_run_retransmitting:
  assumes "rtt_retransmitting tp" "\<forall>x \<in> set es. x \<noteq> Rtt_Flight_Acked \<and> x \<noteq> Rtt_Reset"
  shows "rtt_retransmitting (rtt_run tp es)"
  using assms
proof (induction es arbitrary: tp)
  case (Cons e es)
  then have "rtt_retransmitting (rtt_step tp e)"
    by (cases e) (auto simp: rtt_defs)
  with Cons show ?case by simp
qed simp

lemma unat_rto_timeout:
  assumes "rto_in_range tp"
  shows "unat (rto_ms (tcp_rtt_on_timeout tp)) = min 60000 (unat (rto_ms tp) * 2)"
  using assms
  by (auto simp: rto_in_range_def tcp_rtt_on_timeout_def unat_tcp_rtt_clamp unat_mult_u64
      unat_ucast_u32_u64)

lemma min_min_mult: "0 < m \<Longrightarrow> min k (min k a * m) = min k (a * m :: nat)"
proof (cases "a \<le> k")
  case False
  assume "0 < m"
  then have "k \<le> k * m" "k \<le> a * m"
    using False by (cases m; simp)+
  with False show ?thesis by simp
qed simp

subsection \<open>Properties\<close>

text \<open>
  Claim C19. Whatever events follow the reset of a newly established connection, the
  retransmission timeout stays within 200 ms and 60 s.
\<close>

theorem rto_always_in_range: "rto_in_range (rtt_run (tcp_rtt_reset tp) es)"
  by (rule rtt_run_in_range) (rule tcp_rtt_reset_in_range)

text \<open>
  Claim C20. An ACK that produces a sample updates the estimator exactly as RFC 6298 over unbounded
  integers prescribes, with the sample the wrap-safe elapsed time but at least 1 ms, and the new
  timeout is SRTT + 4 RTTVAR clamped to its range: no 32-bit intermediate wraps while the times
  involved are below \<open>2\<^sup>2\<^sup>9\<close> ms.
\<close>

theorem rtt_sample_refines_rfc6298:
  assumes ack: "tcp_rtt_on_ack now tp ack present tsecr = (True, tp')"
    and small: "unat (srtt_ms tp) < RTT_MAX" "unat (rttvar_ms tp) < RTT_MAX"
      "unat (now - tsecr) < RTT_MAX"
  shows "(unat (srtt_ms tp'), unat (rttvar_ms tp'))
           = rfc6298 (unat (srtt_ms tp), unat (rttvar_ms tp)) (max 1 (unat (now - tsecr)))
         \<and> unat (rto_ms tp') = max 200 (min 60000 (unat (srtt_ms tp') + 4 * unat (rttvar_ms tp')))"
proof -
  let ?s = "if now - tsecr = 0 then 1 else now - tsecr"
  obtain srtt rttvar where est: "tcp_rtt_estimate (srtt_ms tp) (rttvar_ms tp) ?s = (srtt, rttvar)"
    by fastforce
  have s: "unat ?s = max 1 (unat (now - tsecr))" by (rule unat_max_1)
  with small(3) have "unat ?s < RTT_MAX" by simp
  from tcp_rtt_estimate_refines [OF small(1,2) this] est s
  have ref: "(unat srtt, unat rttvar)
      = rfc6298 (unat (srtt_ms tp), unat (rttvar_ms tp)) (max 1 (unat (now - tsecr)))"
    by simp
  have "unat rttvar < RTT_MAX"
    using rfc6298_bounded [of "unat (srtt_ms tp)" "RTT_MAX - 1" "unat (rttvar_ms tp)"
        "max 1 (unat (now - tsecr))"] small
    unfolding ref [symmetric] by simp
  then have "unat (4 * rttvar) = 4 * unat rttvar"
    by (simp add: unat_mult_u32)
  moreover have "tp' = tp\<lparr>srtt_ms := srtt, rttvar_ms := rttvar,
      rto_ms := tcp_rtt_clamp (ucast srtt + ucast (4 * rttvar)), rtt_probe_valid := False\<rparr>"
    using ack unfolding tcp_rtt_on_ack_def Let_def est prod.case
    by (metis (no_types, lifting) Pair_inject)
  ultimately show ?thesis
    using ref by (simp add: unat_tcp_rtt_clamp unat_ucast_sum_u64)
qed

theorem rtt_sample_refines_rfc6298_witness:
  "let tp = tcp_stream_zero\<lparr>timestamps_ok := True, srtt_ms := 80, rttvar_ms := 40,
         rtt_probe_valid := True, rtt_probe_end_seq := 1000, rtt_probe_tsval := 4294967290\<rparr>;
       tp' = snd (tcp_rtt_on_ack 154 tp 1000 True 4294967290)
   in tcp_rtt_on_ack 154 tp 1000 True 4294967290 = (True, tp')
      \<and> unat (rto_ms tp') = max 200 (min 60000 (unat (srtt_ms tp') + 4 * unat (rttvar_ms tp')))
      \<and> (srtt_ms tp', rttvar_ms tp', rto_ms tp') = (90, 50, 290)"
proof -
  let ?tp = "tcp_stream_zero\<lparr>timestamps_ok := True, srtt_ms := 80, rttvar_ms := 40,
         rtt_probe_valid := True, rtt_probe_end_seq := 1000, rtt_probe_tsval := 4294967290\<rparr>"
  let ?tp' = "snd (tcp_rtt_on_ack 154 ?tp 1000 True 4294967290)"
  have ack: "tcp_rtt_on_ack 154 ?tp 1000 True 4294967290 = (True, ?tp')"
    by (simp add: tcp_rtt_on_ack_def tcp_rtt_estimate_def tcp_stream_zero_def)
  moreover have "(srtt_ms ?tp', rttvar_ms ?tp', rto_ms ?tp') = (90, 50, 290)"
    by (simp add: tcp_rtt_on_ack_def tcp_rtt_estimate_def tcp_rtt_clamp_def tcp_stream_zero_def)
  ultimately show ?thesis
    using rtt_sample_refines_rfc6298 [OF ack] by (simp add: Let_def)
qed

text \<open>
  Claim C27. Karn's rule: after a retransmission timeout or a fast retransmission no ACK yields
  an RTT sample, whatever is sent or acknowledged, until the whole flight is acknowledged (or the
  estimator is reset).
\<close>

theorem karn_no_sample_until_flight_acked:
  assumes "e = Rtt_Timeout \<or> e = Rtt_Retransmit"
    and "\<forall>x \<in> set es. x \<noteq> Rtt_Flight_Acked \<and> x \<noteq> Rtt_Reset"
  shows "\<not> fst (tcp_rtt_on_ack now (rtt_run (rtt_step tp e) es) ack present tsecr)"
proof -
  have "rtt_retransmitting (rtt_run (rtt_step tp e) es)"
    using assms by (intro rtt_run_retransmitting) (auto simp: rtt_defs)
  then show ?thesis by (simp add: tcp_rtt_on_ack_def)
qed

theorem karn_no_sample_until_flight_acked_witness:
  "\<not> fst (tcp_rtt_on_ack 50
      (rtt_run (rtt_step (tcp_stream_zero\<lparr>timestamps_ok := True\<rparr>) Rtt_Retransmit) [Rtt_Xmit 7 40])
      7 True 40)"
  using karn_no_sample_until_flight_acked [of Rtt_Retransmit "[Rtt_Xmit 7 40]" 50
      "tcp_stream_zero\<lparr>timestamps_ok := True\<rparr>" 7 True 40]
  by simp

text \<open>
  Claim C28. Exponential backoff: after \<open>n\<close> consecutive timeouts the timeout has doubled \<open>n\<close> times,
  capped at 60 s.
\<close>

theorem rto_exponential_backoff:
  assumes "rto_in_range tp"
  shows "unat (rto_ms (rtt_run tp (replicate n Rtt_Timeout))) = min 60000 (unat (rto_ms tp) * 2 ^ n)"
  using assms
proof (induction n arbitrary: tp)
  case 0
  then show ?case by (simp add: rto_in_range_def)
next
  case (Suc n)
  let ?tp = "tcp_rtt_on_timeout tp"
  have "rto_in_range ?tp"
    using rtt_step_in_range [OF Suc.prems, of Rtt_Timeout] by simp
  moreover have "unat (rto_ms ?tp) = min 60000 (unat (rto_ms tp) * 2)"
    using Suc.prems by (rule unat_rto_timeout)
  ultimately show ?case
    using Suc.IH [of ?tp] by (simp add: min_min_mult mult.assoc)
qed

theorem rto_exponential_backoff_witness:
  "rto_in_range (tcp_rtt_reset tcp_stream_zero)
   \<and> unat (rto_ms (rtt_run (tcp_rtt_reset tcp_stream_zero) (replicate 3 Rtt_Timeout))) = 8000"
  using rto_exponential_backoff [of "tcp_rtt_reset tcp_stream_zero" 3]
  by (simp add: tcp_rtt_reset_in_range) (simp add: tcp_rtt_reset_def)

end
