(* ===== verification/Tcp_Cc_Common.thy ===== *)
theory Tcp_Cc_Common
  imports Tcp_Stream
begin

text \<open>
  What the congestion controllers share: the events of \<^verbatim>\<open>pro-stack/tcp_cc.h\<close>, the helpers of
  \<^verbatim>\<open>pro-stack/tcp_cc/internal.h\<close>, and the contract every controller keeps, as the locale
  \<open>cc_algorithm\<close>.
\<close>

subsection \<open>Events (tcp_cc.h)\<close>

record tcp_cc_ack_event =
  ev_ack_seq :: u32
  ev_snd_nxt :: u32
  ev_acked_bytes :: u32
  ev_newly_sacked_bytes :: u32
  ev_flight_size :: u32
  ev_now_ms :: u32
  ev_rtt_sample_ms :: u32
  ev_rtt_sample_valid :: bool
  ev_cwnd_limited :: bool
  ev_duplicate_ack :: bool
  ev_entered_recovery :: bool
  ev_partial_ack :: bool
  ev_newreno_recovery :: bool
  ev_in_recovery :: bool

record tcp_cc_tx_event =
  tx_bytes :: u32
  tx_now_ms :: u32
  tx_retransmission :: bool
  tx_cwnd_limited :: bool

record tcp_cc_loss_event =
  loss_reason :: tcp_cc_loss_reason
  loss_flight_size :: u32
  loss_recovery_point :: u32
  loss_first_rto_for_seq :: bool

subsection \<open>Helpers (tcp_cc/internal.h)\<close>

definition tcp_cc_smss :: "tcp_stream \<Rightarrow> u32" where
  "tcp_cc_smss tp = (if snd_mss tp \<noteq> 0 then ucast (snd_mss tp) else ucast TCP_DEFAULT_MSS)"

definition tcp_cc_add_sat :: "u32 \<Rightarrow> u32 \<Rightarrow> u32" where
  "tcp_cc_add_sat left right =
     (if UINT32_MAX - left < right then UINT32_MAX else left + right)"

definition tcp_cc_initial_window :: "u32 \<Rightarrow> u32" where
  "tcp_cc_initial_window smss =
     (if smss > 2190 then tcp_cc_add_sat smss smss
      else if smss > 1095 then tcp_cc_add_sat (tcp_cc_add_sat smss smss) smss
      else tcp_cc_add_sat (tcp_cc_add_sat smss smss) (tcp_cc_add_sat smss smss))"

definition tcp_cc_ssthresh :: "u32 \<Rightarrow> u32 \<Rightarrow> u32 \<Rightarrow> u32 \<Rightarrow> u32" where
  "tcp_cc_ssthresh flight smss numerator denominator =
     (let threshold = ucast ((ucast flight * ucast numerator :: u64) div ucast denominator);
          floor = tcp_cc_add_sat smss smss
      in if threshold > floor then threshold else floor)"

text \<open>
  The result says whether recovery consumed the ACK, so that normal growth must stop.
\<close>

definition tcp_cc_newreno_recovery_ack ::
  "tcp_stream \<Rightarrow> tcp_cc_ack_event \<Rightarrow> bool \<times> tcp_stream" where
  "tcp_cc_newreno_recovery_ack tp event =
     (let smss = tcp_cc_smss tp; w = cwnd (cc tp); acked = ev_acked_bytes event in
      if \<not> ev_in_recovery event then (False, tp)
      else if \<not> ev_newreno_recovery event then (True, tp)
      else if ev_entered_recovery event then (True, tp)
      else if ev_partial_ack event then
        let w1 = (if w > acked then w - acked else 0);
            w2 = (if acked \<ge> smss then tcp_cc_add_sat w1 smss else w1);
            w3 = (if w2 < smss then smss else w2)
        in (True, tp\<lparr>cc := (cc tp)\<lparr>cwnd := w3\<rparr>\<rparr>)
      else if ev_duplicate_ack event then
        (True, tp\<lparr>cc := (cc tp)\<lparr>cwnd := tcp_cc_add_sat w smss\<rparr>\<rparr>)
      else (True, tp))"

subsection \<open>Facts on the helpers\<close>

lemma unat_tcp_cc_add_sat: "unat (tcp_cc_add_sat a b) = min 4294967295 (unat a + unat b)"
proof (cases "UINT32_MAX - a < b")
  case True
  then have "4294967295 < unat a + unat b"
    using unat_u32_le [of a] by (simp add: word_nat)
  with True show ?thesis by (simp add: tcp_cc_add_sat_def word_nat)
next
  case False
  then have "unat a + unat b \<le> 4294967295"
    using unat_u32_le [of a] by (simp add: word_nat)
  with False show ?thesis by (simp add: tcp_cc_add_sat_def unat_add_u32)
qed

lemma tcp_cc_add_sat_ge: "a \<le> tcp_cc_add_sat a b" "b \<le> tcp_cc_add_sat a b"
  using unat_u32_le [of a] unat_u32_le [of b]
  by (simp_all add: word_le_nat_alt unat_tcp_cc_add_sat)

lemma tcp_cc_smss_upd_cc [simp]: "tcp_cc_smss (tp\<lparr>cc := c\<rparr>) = tcp_cc_smss tp"
  by (simp add: tcp_cc_smss_def)

lemma tcp_cc_smss_bounds: "0 < tcp_cc_smss tp" "unat (tcp_cc_smss tp) < 65536"
proof -
  have "unat (ucast (snd_mss tp) :: u32) = unat (snd_mss tp)"
    using unat_u16_lt [of "snd_mss tp"] by (simp add: unsigned_ucast_eq take_bit_nat_eq_self)
  then show "0 < tcp_cc_smss tp" "unat (tcp_cc_smss tp) < 65536"
    using unat_u16_lt [of "snd_mss tp"]
    by (auto simp: tcp_cc_smss_def word_less_nat_alt unat_gt_0 unat_0_iff)
qed

lemma tcp_cc_smss_pos: "0 < unat (tcp_cc_smss tp)"
  using tcp_cc_smss_bounds(1) [of tp] by (simp add: word_less_nat_alt)

lemma tcp_cc_initial_window_ge: "smss \<le> tcp_cc_initial_window smss"
  by (auto simp: tcp_cc_initial_window_def word_le_nat_alt unat_tcp_cc_add_sat
      min_def unat_u32_le)

lemma tcp_cc_ssthresh_ge: "tcp_cc_add_sat smss smss \<le> tcp_cc_ssthresh f smss n d"
  by (auto simp: tcp_cc_ssthresh_def Let_def)

lemma tcp_cc_ssthresh_ge_smss: "smss \<le> tcp_cc_ssthresh f smss n d"
  using tcp_cc_ssthresh_ge tcp_cc_add_sat_ge order_trans by blast

lemma unat_tcp_cc_ssthresh:
  assumes "unat n \<le> unat d" "unat d < 65536" "0 < unat d"
  shows "unat (tcp_cc_ssthresh f smss n d)
           = max (unat f * unat n div unat d) (min 4294967295 (2 * unat smss))"
proof -
  have "unat f * unat n < 4294967296 * 65536"
    using unat_u32_lt [of f] assms by (intro mult_strict_mono) auto
  then have prod: "unat (ucast f * ucast n :: u64) = unat f * unat n"
    by (simp add: unat_mult_u64 unat_ucast_u32_u64)
  have "unat f * unat n div unat d \<le> unat f * unat d div unat d"
    using assms by (intro div_le_mono mult_le_mono2)
  also have "\<dots> = unat f" using assms by simp
  finally have "unat f * unat n div unat d < 4294967296"
    using unat_u32_lt [of f] by simp
  then have "unat (ucast ((ucast f * ucast n :: u64) div ucast d) :: u32) = unat f * unat n div unat d"
    by (simp add: unat_ucast_u64_u32 unat_div prod unat_ucast_u32_u64)
  then show ?thesis
    by (auto simp: tcp_cc_ssthresh_def Let_def word_less_nat_alt unat_tcp_cc_add_sat)
qed

subsection \<open>The contract of a controller\<close>

text \<open>
  A controller may write the congestion state only, and never lets the window, the threshold or
  the restart window fall below one segment.
\<close>

definition cc_ok :: "tcp_stream \<Rightarrow> bool" where
  "cc_ok tp \<longleftrightarrow> tcp_cc_smss tp \<le> cwnd (cc tp) \<and> tcp_cc_smss tp \<le> ssthresh (cc tp)
     \<and> tcp_cc_smss tp \<le> initial_window (cc tp)"

definition same_but_cc :: "tcp_stream \<Rightarrow> tcp_stream \<Rightarrow> bool" where
  "same_but_cc tp tp' \<longleftrightarrow> (\<exists>c. tp' = tp\<lparr>cc := c\<rparr> \<and> ops c = ops (cc tp))"

lemma same_but_cc_upd [simp]: "same_but_cc tp (tp\<lparr>cc := c\<rparr>) \<longleftrightarrow> ops c = ops (cc tp)"
proof
  assume "same_but_cc tp (tp\<lparr>cc := c\<rparr>)"
  then obtain d where "tp\<lparr>cc := c\<rparr> = tp\<lparr>cc := d\<rparr>" "ops d = ops (cc tp)"
    by (auto simp: same_but_cc_def)
  moreover from this(1) have "cc (tp\<lparr>cc := c\<rparr>) = cc (tp\<lparr>cc := d\<rparr>)" by simp
  ultimately show "ops c = ops (cc tp)" by simp
qed (auto simp: same_but_cc_def)

lemma same_but_cc_refl [simp]: "same_but_cc tp tp"
  unfolding same_but_cc_def by (rule exI [of _ "cc tp"]) simp

lemma same_but_cc_trans: "same_but_cc a b \<Longrightarrow> same_but_cc b c \<Longrightarrow> same_but_cc a c"
  unfolding same_but_cc_def by auto

lemma same_but_cc_smss: "same_but_cc tp tp' \<Longrightarrow> tcp_cc_smss tp' = tcp_cc_smss tp"
  unfolding same_but_cc_def tcp_cc_smss_def by auto

text \<open>A callback is safe when it writes the congestion state only and keeps \<open>cc_ok\<close>.\<close>

definition cc_step_safe :: "tcp_stream \<Rightarrow> tcp_stream \<Rightarrow> bool" where
  "cc_step_safe tp tp' \<longleftrightarrow> same_but_cc tp tp' \<and> (cc_ok tp \<longrightarrow> cc_ok tp')"

lemma cc_step_safe_refl [simp]: "cc_step_safe tp tp"
  by (simp add: cc_step_safe_def)

lemma cc_step_safe_trans: "cc_step_safe a b \<Longrightarrow> cc_step_safe b c \<Longrightarrow> cc_step_safe a c"
  unfolding cc_step_safe_def using same_but_cc_trans by blast

lemma cc_step_safe_ops: "cc_step_safe tp tp' \<Longrightarrow> ops (cc tp') = ops (cc tp)"
  by (auto simp: cc_step_safe_def same_but_cc_def)

locale cc_algorithm =
  fixes init :: "tcp_stream \<Rightarrow> bool \<Rightarrow> tcp_stream"
    and on_ack :: "tcp_stream \<Rightarrow> tcp_cc_ack_event \<Rightarrow> tcp_stream"
    and on_loss :: "tcp_stream \<Rightarrow> tcp_cc_loss_event \<Rightarrow> tcp_stream"
    and on_recovery_exit :: "tcp_stream \<Rightarrow> tcp_stream"
    and on_rto :: "tcp_stream \<Rightarrow> tcp_cc_loss_event \<Rightarrow> tcp_stream"
    and on_idle_restart :: "tcp_stream \<Rightarrow> tcp_stream"
  assumes init_ok: "cc_ok (init tp b)"
    and init_frame: "same_but_cc tp (init tp b)"
    and ack_safe: "cc_step_safe tp (on_ack tp a)"
    and loss_safe: "cc_step_safe tp (on_loss tp l)"
    and exit_safe: "cc_step_safe tp (on_recovery_exit tp)"
    and rto_safe: "cc_step_safe tp (on_rto tp l)"
    and idle_safe: "cc_step_safe tp (on_idle_restart tp)"
    and ack_grows: "\<not> ev_in_recovery a \<Longrightarrow> cwnd (cc tp) \<le> cwnd (cc (on_ack tp a))"
    and rto_collapse: "loss_reason l = TCP_CC_LOSS_RTO \<Longrightarrow> cwnd (cc (on_rto tp l)) = tcp_cc_smss tp"
begin

lemma init_safe: "cc_step_safe tp (init tp b)"
  by (simp add: cc_step_safe_def init_ok init_frame)

lemma init_window: "tcp_cc_smss tp \<le> cwnd (cc (init tp b))"
  using init_ok [of tp b] same_but_cc_smss [OF init_frame, of tp b] by (simp add: cc_ok_def)

lemma rto_then_acks:
  "\<lbrakk>loss_reason l = TCP_CC_LOSS_RTO; \<forall>a \<in> set as. \<not> ev_in_recovery a\<rbrakk>
   \<Longrightarrow> tcp_cc_smss tp \<le> cwnd (cc (foldl on_ack (on_rto tp l) as))"
proof (induction as rule: rev_induct)
  case Nil
  then show ?case by (simp add: rto_collapse)
next
  case (snoc a as)
  then show ?case using ack_grows [of a "foldl on_ack (on_rto tp l) as"] by (auto intro: order_trans)
qed

end

end
