(* ===== verification/Newreno.thy ===== *)
theory Newreno
  imports Tcp_Cc_Common
begin

text \<open>
  NewReno congestion control, \<^verbatim>\<open>pro-stack/tcp_cc/newreno.c\<close>.
\<close>

subsection \<open>The code\<close>

definition newreno_init :: "tcp_stream \<Rightarrow> bool \<Rightarrow> tcp_stream" where
  "newreno_init tp retransmitted_syn =
     (let smss = tcp_cc_smss tp; iw = tcp_cc_initial_window smss in
      tp\<lparr>cc := (cc tp)\<lparr>initial_window := iw, cwnd := (if retransmitted_syn then smss else iw),
         ssthresh := UINT32_MAX, ca_acked := 0, rto_loss_valid := False, last_data_tx_ms := 0,
         cwnd_limited := False\<rparr>\<rparr>)"

definition newreno_reset :: "tcp_stream \<Rightarrow> tcp_stream" where
  "newreno_reset tp =
     newreno_init (tp\<lparr>cc := (cc tp)\<lparr>priv := cubic_state_zero\<rparr>\<rparr>) (syn_retransmitted tp)"

text \<open>The loop of \<^verbatim>\<open>newreno_on_ack\<close> over (\<^verbatim>\<open>ca_acked\<close>, \<^verbatim>\<open>cwnd\<close>).\<close>

function newreno_ca_loop :: "tcp_stream \<Rightarrow> u32 \<Rightarrow> u32 \<Rightarrow> u32 \<times> u32" where
  "newreno_ca_loop tp acked w =
     (if w \<noteq> UINT32_MAX \<and> w \<le> acked
      then newreno_ca_loop tp (acked - w) (tcp_cc_add_sat w (tcp_cc_smss tp))
      else (acked, w))"
  by pat_completeness auto
termination
proof (relation "measures [\<lambda>(tp, acked, w). unat acked, \<lambda>(tp, acked, w). if w = 0 then 1 else 0]")
  fix tp :: tcp_stream and acked w :: u32
  assume "w \<noteq> UINT32_MAX \<and> w \<le> acked"
  then show "((tp, acked - w, tcp_cc_add_sat w (tcp_cc_smss tp)), tp, acked, w) \<in>
    measures [\<lambda>(tp, acked, w). unat acked, \<lambda>(tp, acked, w). if w = 0 then 1 else 0]"
    using tcp_cc_smss_pos [of tp] unat_tcp_cc_add_sat [of w "tcp_cc_smss tp"]
    by (cases "unat w = 0") (auto simp: word_le_nat_alt unat_sub zero_iff_unat)
qed simp

declare newreno_ca_loop.simps [simp del]

definition newreno_on_ack :: "tcp_stream \<Rightarrow> tcp_cc_ack_event \<Rightarrow> tcp_stream" where
  "newreno_on_ack tp event =
     (let smss = tcp_cc_smss tp; acked = ev_acked_bytes event;
          (consumed, tp) = tcp_cc_newreno_recovery_ack tp event
      in if consumed \<or> acked = 0 then tp
         else let c = (cc tp)\<lparr>rto_loss_valid := False\<rparr> in
           if cwnd c < ssthresh c then
             let increase = (if acked < smss then acked else smss)
             in tp\<lparr>cc := c\<lparr>cwnd := tcp_cc_add_sat (cwnd c) increase\<rparr>\<rparr>
           else
             let (ca, w) = newreno_ca_loop tp (tcp_cc_add_sat (ca_acked c) acked) (cwnd c)
             in tp\<lparr>cc := c\<lparr>ca_acked := ca, cwnd := w\<rparr>\<rparr>)"

definition newreno_on_packet_sent :: "tcp_stream \<Rightarrow> tcp_cc_tx_event \<Rightarrow> tcp_stream" where
  "newreno_on_packet_sent tp event = tp"

definition newreno_on_loss :: "tcp_stream \<Rightarrow> tcp_cc_loss_event \<Rightarrow> tcp_stream" where
  "newreno_on_loss tp event =
     (let smss = tcp_cc_smss tp; threshold = tcp_cc_ssthresh (loss_flight_size event) smss 1 2;
          c = (if loss_reason event = TCP_CC_LOSS_RTO then
                 (cc tp)\<lparr>ssthresh := (if loss_first_rto_for_seq event then threshold
                                      else ssthresh (cc tp)), cwnd := smss\<rparr>
               else
                 (cc tp)\<lparr>ssthresh := threshold,
                   cwnd := (if loss_reason event = TCP_CC_LOSS_DUPACK
                            then tcp_cc_add_sat threshold
                                   (tcp_cc_add_sat smss (tcp_cc_add_sat smss smss))
                            else threshold)\<rparr>)
      in tp\<lparr>cc := c\<lparr>ca_acked := 0\<rparr>\<rparr>)"

definition newreno_on_recovery_exit :: "tcp_stream \<Rightarrow> tcp_stream" where
  "newreno_on_recovery_exit tp =
     tp\<lparr>cc := (cc tp)\<lparr>cwnd := (if cwnd (cc tp) > ssthresh (cc tp) then ssthresh (cc tp)
                              else cwnd (cc tp)), ca_acked := 0\<rparr>\<rparr>"

definition newreno_on_rto :: "tcp_stream \<Rightarrow> tcp_cc_loss_event \<Rightarrow> tcp_stream" where
  "newreno_on_rto tp event = newreno_on_loss tp event"

definition newreno_on_idle_restart :: "tcp_stream \<Rightarrow> tcp_stream" where
  "newreno_on_idle_restart tp =
     tp\<lparr>cc := (cc tp)\<lparr>cwnd := (if cwnd (cc tp) > initial_window (cc tp)
                              then initial_window (cc tp) else cwnd (cc tp)), ca_acked := 0\<rparr>\<rparr>"

definition newreno_on_dsack :: "tcp_stream \<Rightarrow> tcp_sack_block \<Rightarrow> bool \<Rightarrow> tcp_stream" where
  "newreno_on_dsack tp block covers_retransmission = tp"

subsection \<open>Recovery inflation\<close>

lemma recovery_ack_ok:
  "cc_ok tp \<Longrightarrow> cc_ok (snd (tcp_cc_newreno_recovery_ack tp ev))"
  using tcp_cc_add_sat_ge [of "cwnd (cc tp)" "tcp_cc_smss tp"]
  by (auto simp: tcp_cc_newreno_recovery_ack_def Let_def cc_ok_def)

lemma recovery_ack_frame: "same_but_cc tp (snd (tcp_cc_newreno_recovery_ack tp ev))"
  by (auto simp: tcp_cc_newreno_recovery_ack_def Let_def)

lemma recovery_ack_not_consumed:
  "tcp_cc_newreno_recovery_ack tp ev = (False, tp') \<Longrightarrow> tp' = tp"
  by (auto simp: tcp_cc_newreno_recovery_ack_def Let_def split: if_splits)

lemma recovery_ack_consumed_iff:
  "fst (tcp_cc_newreno_recovery_ack tp ev) \<longleftrightarrow> ev_in_recovery ev"
  by (auto simp: tcp_cc_newreno_recovery_ack_def Let_def)

subsection \<open>Congestion avoidance\<close>

lemma newreno_ca_loop_ge: "w \<le> snd (newreno_ca_loop tp acked w)"
proof (induction tp acked w rule: newreno_ca_loop.induct)
  case (1 tp acked w)
  show ?case
    using 1 tcp_cc_add_sat_ge(1) [of w "tcp_cc_smss tp"]
    by (subst newreno_ca_loop.simps) (auto intro: order_trans)
qed

lemma newreno_ca_loop_done:
  "newreno_ca_loop tp acked w = (acked', w') \<Longrightarrow> w' = UINT32_MAX \<or> acked' < w'"
proof (induction tp acked w rule: newreno_ca_loop.induct)
  case (1 tp acked w)
  then show ?case
    by (cases "w \<noteq> UINT32_MAX \<and> w \<le> acked") (auto simp: newreno_ca_loop.simps [of tp acked w])
qed

text \<open>
  Below saturation the loop adds one segment for each full window of acknowledged bytes.
\<close>

lemma newreno_ca_loop_counts:
  assumes "newreno_ca_loop tp acked w = (acked', w')" "w' \<noteq> UINT32_MAX"
  shows "\<exists>k. unat w' = unat w + k * unat (tcp_cc_smss tp)
           \<and> unat acked = unat acked' + (\<Sum>i<k. unat w + i * unat (tcp_cc_smss tp))"
  using assms
proof (induction tp acked w rule: newreno_ca_loop.induct)
  case (1 tp acked w)
  let ?s = "tcp_cc_smss tp" and ?w = "tcp_cc_add_sat w (tcp_cc_smss tp)"
  show ?case
  proof (cases "w \<noteq> UINT32_MAX \<and> w \<le> acked")
    case False
    with 1(2) have "acked' = acked" "w' = w"
      by (auto simp: newreno_ca_loop.simps [of tp acked w])
    then show ?thesis by (intro exI [of _ 0]) simp
  next
    case True
    then have rec: "newreno_ca_loop tp (acked - w) ?w = (acked', w')"
      using 1(2) by (simp add: newreno_ca_loop.simps [of tp acked w])
    from 1(1) [OF True rec 1(3)] obtain k where
      w': "unat w' = unat ?w + k * unat ?s" and
      a': "unat (acked - w) = unat acked' + (\<Sum>i<k. unat ?w + i * unat ?s)"
      by blast
    have "unat w' < 4294967295"
      using 1(3) unat_u32_le [of w'] unat_UINT32_MAX by (metis nat_less_le unsigned_word_eqI)
    then have sat: "unat ?w = unat w + unat ?s"
      using w' by (simp add: unat_tcp_cc_add_sat)
    have "(\<Sum>i<Suc k. unat w + i * unat ?s) = unat w + (\<Sum>i<k. unat ?w + i * unat ?s)"
      unfolding sum.lessThan_Suc_shift by (simp add: sat algebra_simps)
    moreover have "unat acked = unat w + unat (acked - w)"
      using True by (simp add: unat_sub word_le_nat_alt)
    ultimately show ?thesis
      using w' a' sat by (intro exI [of _ "Suc k"]) (simp add: algebra_simps)
  qed
qed

subsection \<open>NewReno keeps the contract of a controller\<close>

lemma newreno_on_ack_cases:
  obtains "ev_in_recovery ev \<or> ev_acked_bytes ev = 0"
      "newreno_on_ack tp ev = snd (tcp_cc_newreno_recovery_ack tp ev)"
  | "\<not> ev_in_recovery ev" "ev_acked_bytes ev \<noteq> 0" "cwnd (cc tp) < ssthresh (cc tp)"
      "newreno_on_ack tp ev = tp\<lparr>cc := (cc tp)\<lparr>rto_loss_valid := False,
         cwnd := tcp_cc_add_sat (cwnd (cc tp)) (min (ev_acked_bytes ev) (tcp_cc_smss tp))\<rparr>\<rparr>"
  | ca w where "\<not> ev_in_recovery ev" "ev_acked_bytes ev \<noteq> 0" "ssthresh (cc tp) \<le> cwnd (cc tp)"
      "newreno_ca_loop tp (tcp_cc_add_sat (ca_acked (cc tp)) (ev_acked_bytes ev)) (cwnd (cc tp))
         = (ca, w)"
      "newreno_on_ack tp ev = tp\<lparr>cc := (cc tp)\<lparr>rto_loss_valid := False, ca_acked := ca, cwnd := w\<rparr>\<rparr>"
proof -
  obtain b tp1 where r: "tcp_cc_newreno_recovery_ack tp ev = (b, tp1)" by fastforce
  have b: "b \<longleftrightarrow> ev_in_recovery ev" using recovery_ack_consumed_iff [of tp ev] r by simp
  obtain ca w where l: "newreno_ca_loop tp (tcp_cc_add_sat (ca_acked (cc tp)) (ev_acked_bytes ev))
      (cwnd (cc tp)) = (ca, w)" by fastforce
  have tp1: "tp1 = tp" if "\<not> b" using recovery_ack_not_consumed r that by auto
  have mn: "min (ev_acked_bytes ev) (tcp_cc_smss tp)
      = (if ev_acked_bytes ev < tcp_cc_smss tp then ev_acked_bytes ev else tcp_cc_smss tp)"
    by (auto simp: min_def)
  consider "b \<or> ev_acked_bytes ev = 0" | "\<not> b" "ev_acked_bytes ev \<noteq> 0" "cwnd (cc tp) < ssthresh (cc tp)"
    | "\<not> b" "ev_acked_bytes ev \<noteq> 0" "ssthresh (cc tp) \<le> cwnd (cc tp)"
    by fastforce
  then show ?thesis
  proof cases
    case 1
    then show ?thesis using r b by (intro that(1)) (auto simp: newreno_on_ack_def)
  next
    case 2
    then show ?thesis using r b tp1 by (intro that(2)) (auto simp: newreno_on_ack_def Let_def mn)
  next
    case 3
    then show ?thesis using r b tp1 l by (intro that(3)) (auto simp: newreno_on_ack_def Let_def)
  qed
qed

lemma newreno_on_ack_ok: "cc_ok tp \<Longrightarrow> cc_ok (newreno_on_ack tp ev)"
proof (cases tp ev rule: newreno_on_ack_cases)
  case 1
  assume "cc_ok tp"
  then show ?thesis using 1(2) by (simp add: recovery_ack_ok)
next
  case 2
  assume "cc_ok tp"
  then show ?thesis
    using 2(4) tcp_cc_add_sat_ge(1) by (auto simp: cc_ok_def intro: order_trans)
next
  case (3 ca w)
  assume "cc_ok tp"
  moreover have "cwnd (cc tp) \<le> w"
    using newreno_ca_loop_ge 3(4) by (metis snd_conv)
  ultimately show ?thesis
    using 3(5) by (auto simp: cc_ok_def)
qed

lemma newreno_on_ack_frame: "same_but_cc tp (newreno_on_ack tp ev)"
  by (cases tp ev rule: newreno_on_ack_cases) (simp_all add: recovery_ack_frame)

lemma newreno_on_ack_grows:
  "\<not> ev_in_recovery ev \<Longrightarrow> cwnd (cc tp) \<le> cwnd (cc (newreno_on_ack tp ev))"
  using tcp_cc_add_sat_ge(1) newreno_ca_loop_ge [of "cwnd (cc tp)" tp]
  by (cases tp ev rule: newreno_on_ack_cases)
     (auto simp: tcp_cc_newreno_recovery_ack_def Let_def, metis snd_conv)

lemma newreno_on_loss_ok: "cc_ok tp \<Longrightarrow> cc_ok (newreno_on_loss tp ev)"
  using tcp_cc_ssthresh_ge_smss [of "tcp_cc_smss tp" "loss_flight_size ev" 1 2]
    tcp_cc_add_sat_ge(1) [of "tcp_cc_ssthresh (loss_flight_size ev) (tcp_cc_smss tp) 1 2"]
  by (auto simp: newreno_on_loss_def Let_def cc_ok_def intro: order_trans)

interpretation nr: cc_algorithm newreno_init newreno_on_ack newreno_on_loss
  newreno_on_recovery_exit newreno_on_rto newreno_on_idle_restart
proof unfold_locales
  fix tp b a l
  show "cc_ok (newreno_init tp b)" "same_but_cc tp (newreno_init tp b)"
    by (simp_all add: newreno_init_def Let_def cc_ok_def tcp_cc_initial_window_ge)
  show "cc_step_safe tp (newreno_on_ack tp a)"
    by (simp add: cc_step_safe_def newreno_on_ack_frame newreno_on_ack_ok)
  show "cwnd (cc tp) \<le> cwnd (cc (newreno_on_ack tp a))" if "\<not> ev_in_recovery a"
    using that by (rule newreno_on_ack_grows)
  have "same_but_cc tp (newreno_on_loss tp l)"
    by (simp add: newreno_on_loss_def Let_def)
  then show "cc_step_safe tp (newreno_on_loss tp l)" "cc_step_safe tp (newreno_on_rto tp l)"
    by (simp_all add: cc_step_safe_def newreno_on_rto_def newreno_on_loss_ok)
  show "cc_step_safe tp (newreno_on_recovery_exit tp)" "cc_step_safe tp (newreno_on_idle_restart tp)"
    by (auto simp: cc_step_safe_def newreno_on_recovery_exit_def newreno_on_idle_restart_def cc_ok_def)
  show "cwnd (cc (newreno_on_rto tp l)) = tcp_cc_smss tp" if "loss_reason l = TCP_CC_LOSS_RTO"
    using that by (simp add: newreno_on_rto_def newreno_on_loss_def Let_def)
qed

subsection \<open>Properties\<close>

text \<open>
  Claim C23. In congestion avoidance NewReno grows by exactly one segment per window of newly
  acknowledged bytes: the ACK consumes some number \<open>k\<close> of full windows from the byte counter (the
  sum), adds \<open>k\<close> segments to the window, and leaves less than one window in the counter, unless the
  window has reached its 32-bit ceiling.
\<close>

theorem newreno_additive_increase:
  assumes "\<not> ev_in_recovery ev" "ev_acked_bytes ev \<noteq> 0" "ssthresh (cc tp) \<le> cwnd (cc tp)"
    and "cwnd (cc (newreno_on_ack tp ev)) \<noteq> UINT32_MAX"
  shows "\<exists>k. unat (cwnd (cc (newreno_on_ack tp ev))) = unat (cwnd (cc tp)) + k * unat (tcp_cc_smss tp)
      \<and> unat (tcp_cc_add_sat (ca_acked (cc tp)) (ev_acked_bytes ev))
          = unat (ca_acked (cc (newreno_on_ack tp ev)))
            + (\<Sum>i<k. unat (cwnd (cc tp)) + i * unat (tcp_cc_smss tp))
      \<and> ca_acked (cc (newreno_on_ack tp ev)) < cwnd (cc (newreno_on_ack tp ev))"
proof (cases tp ev rule: newreno_on_ack_cases)
  case (3 ca w)
  with assms(4) have "w \<noteq> UINT32_MAX" by simp
  with newreno_ca_loop_counts [OF 3(4)] newreno_ca_loop_done [OF 3(4)] 3(5) show ?thesis
    by simp
qed (use assms in auto)

theorem newreno_additive_increase_witness:
  "let tp = tcp_stream_zero\<lparr>snd_mss := 1000, cc := tcp_cc_state_zero\<lparr>cwnd := 4000, ssthresh := 4000,
         ca_acked := 3500\<rparr>\<rparr>;
       ev = \<lparr>ev_ack_seq = 0, ev_snd_nxt = 0, ev_acked_bytes = 6000, ev_newly_sacked_bytes = 0,
         ev_flight_size = 0, ev_now_ms = 0, ev_rtt_sample_ms = 0, ev_rtt_sample_valid = False,
         ev_cwnd_limited = True, ev_duplicate_ack = False, ev_entered_recovery = False,
         ev_partial_ack = False, ev_newreno_recovery = False, ev_in_recovery = False\<rparr>
   in cwnd (cc (newreno_on_ack tp ev)) = 6000 \<and> ca_acked (cc (newreno_on_ack tp ev)) = 500
      \<and> (\<exists>k. unat (cwnd (cc (newreno_on_ack tp ev))) = 4000 + k * 1000)"
proof -
  let ?tp = "tcp_stream_zero\<lparr>snd_mss := 1000, cc := tcp_cc_state_zero\<lparr>cwnd := 4000, ssthresh := 4000,
         ca_acked := 3500\<rparr>\<rparr>"
  let ?ev = "\<lparr>ev_ack_seq = 0, ev_snd_nxt = 0, ev_acked_bytes = 6000, ev_newly_sacked_bytes = 0,
         ev_flight_size = 0, ev_now_ms = 0, ev_rtt_sample_ms = 0, ev_rtt_sample_valid = False,
         ev_cwnd_limited = True, ev_duplicate_ack = False, ev_entered_recovery = False,
         ev_partial_ack = False, ev_newreno_recovery = False, ev_in_recovery = False\<rparr>"
  have ev: "cc (newreno_on_ack ?tp ?ev)
      = tcp_cc_state_zero\<lparr>cwnd := 6000, ssthresh := 4000, ca_acked := 500, rto_loss_valid := False\<rparr>"
    by (simp add: newreno_on_ack_def tcp_cc_newreno_recovery_ack_def Let_def tcp_cc_smss_def
        tcp_cc_add_sat_def newreno_ca_loop.simps tcp_cc_state_zero_def)
  show ?thesis
    using newreno_additive_increase [of ?ev ?tp] by (simp add: ev Let_def)
qed

end
