(* ===== verification/Cubic.thy ===== *)
theory Cubic
  imports Newreno
begin

text \<open>
  Integer CUBIC with HyStart++ on the first slow start, \<^verbatim>\<open>pro-stack/tcp_cc/cubic.c\<close>. The 128-bit
  intermediates of the code are 128-bit words here.
\<close>

subsection \<open>The cubic function\<close>

definition CUBIC_TIME_SCALE :: u128 where [simp]: "CUBIC_TIME_SCALE = 1000000000"

text \<open>
  Bisection. The \<^verbatim>\<open>uint64_t\<close> bounds never exceed \<^verbatim>\<open>UINT32_MAX\<close>, so they are natural numbers here;
  the cube is a 128-bit product.
\<close>

function cubic_root_loop :: "u128 \<Rightarrow> nat \<Rightarrow> nat \<Rightarrow> nat" where
  "cubic_root_loop value low high =
     (if low < high then
        let mid = low + (high - low + 1) div 2;
            cube = of_nat mid * of_nat mid * (of_nat mid :: u128)
        in if cube \<le> value then cubic_root_loop value mid high
           else cubic_root_loop value low (mid - 1)
      else low)"
  by pat_completeness auto
termination
  by (relation "measure (\<lambda>(value, low, high). high - low)") auto

declare cubic_root_loop.simps [simp del]

definition cubic_root :: "u128 \<Rightarrow> u32" where
  "cubic_root value = of_nat (cubic_root_loop value 0 4294967295)"

definition cubic_k_ms :: "u32 \<Rightarrow> u32 \<Rightarrow> u32 \<Rightarrow> u32" where
  "cubic_k_ms wmax epoch smss =
     (if wmax \<le> epoch \<or> smss = 0 then 0
      else cubic_root ((ucast (wmax - epoch) * 5 * CUBIC_TIME_SCALE) div (2 * ucast smss)))"

text \<open>
  \<^verbatim>\<open>(int64_t)elapsed_ms - ca->k_ms\<close> is computed on 64 bits, where it cannot overflow; its sign is the
  comparison of the two unsigned values and its magnitude their distance.
\<close>

definition cubic_window_at :: "cubic_state \<Rightarrow> u32 \<Rightarrow> u32 \<Rightarrow> u32" where
  "cubic_window_at ca smss elapsed_ms =
     (let offset = (ucast elapsed_ms :: u64) - ucast (k_ms ca);
          negative = sint offset < 0;
          distance = (if negative then - offset else offset);
          delta = ucast distance * ucast distance * (ucast distance :: u128)
                  * (ucast smss * 2) div (5 * CUBIC_TIME_SCALE)
      in if negative then
           (if delta \<ge> ucast (w_max ca) then 0 else w_max ca - ucast delta)
         else if delta > ucast (UINT32_MAX - w_max ca) then UINT32_MAX
         else w_max ca + ucast delta)"

subsection \<open>Epochs and HyStart++ rounds\<close>

definition cubic_reset_epoch :: "cubic_state \<Rightarrow> cubic_state" where
  "cubic_reset_epoch ca =
     ca\<lparr>cubic_credit := 0, cwnd_epoch := 0, w_est := 0, k_ms := 0, epoch_start_ms := 0,
        last_update_ms := 0, epoch_valid := False, last_update_valid := False\<rparr>"

definition cubic_init :: "tcp_stream \<Rightarrow> bool \<Rightarrow> tcp_stream" where
  "cubic_init tp retransmitted_syn =
     (let smss = tcp_cc_smss tp; iw = tcp_cc_initial_window smss in
      tp\<lparr>cc := (cc tp)\<lparr>initial_window := iw, cwnd := (if retransmitted_syn then smss else iw),
         ssthresh := UINT32_MAX, ca_acked := 0, rto_loss_valid := False, last_data_tx_ms := 0,
         cwnd_limited := False, priv := cubic_state_zero\<lparr>phase := CUBIC_PHASE_SLOW_START\<rparr>\<rparr>\<rparr>)"

definition cubic_reset :: "tcp_stream \<Rightarrow> tcp_stream" where
  "cubic_reset tp = cubic_init tp (syn_retransmitted tp)"

definition hystart_begin_round :: "cubic_state \<Rightarrow> u32 \<Rightarrow> cubic_state" where
  "hystart_begin_round ca snd_nxt =
     ca\<lparr>round_end := snd_nxt, current_round_min_rtt := UINT32_MAX, sample_count := 0,
        round_valid := True\<rparr>"

text \<open>The functions below take and return the congestion state; \<^verbatim>\<open>ca\<close> is its \<^verbatim>\<open>priv\<close>.\<close>

definition hystart_finish_round :: "tcp_cc_state \<Rightarrow> tcp_cc_state" where
  "hystart_finish_round c =
     (let ca = priv c in
      if sample_count ca = 0 then c
      else
        let c1 =
          (if phase ca = CUBIC_PHASE_CSS then
             if current_round_min_rtt ca < css_baseline_min_rtt ca then
               c\<lparr>priv := ca\<lparr>phase := CUBIC_PHASE_SLOW_START, css_rounds := 0\<rparr>\<rparr>
             else
               let ca = ca\<lparr>css_rounds := css_rounds ca + 1\<rparr> in
               if css_rounds ca \<ge> 5 then
                 c\<lparr>ssthresh := cwnd c,
                   priv := cubic_reset_epoch (ca\<lparr>phase := CUBIC_PHASE_AVOIDANCE,
                             hystart_done := True, cwnd_prior := cwnd c\<rparr>)\<rparr>
               else c\<lparr>priv := ca\<rparr>
           else c)
        in c1\<lparr>priv := (priv c1)\<lparr>last_round_min_rtt := current_round_min_rtt (priv c1)\<rparr>\<rparr>)"

text \<open>The part of \<^verbatim>\<open>hystart_update\<close> after the round bookkeeping.\<close>

definition hystart_sample :: "cubic_state \<Rightarrow> u32 \<Rightarrow> cubic_state" where
  "hystart_sample ca sample =
     (let ca = (if sample < current_round_min_rtt ca
                then ca\<lparr>current_round_min_rtt := sample\<rparr> else ca);
          ca = (if sample_count ca \<noteq> UINT8_MAX
                then ca\<lparr>sample_count := sample_count ca + 1\<rparr> else ca)
      in if phase ca = CUBIC_PHASE_SLOW_START \<and> last_round_min_rtt ca \<noteq> 0 \<and> sample_count ca \<ge> 8
         then let threshold = last_round_min_rtt ca div 8;
                  threshold = (if threshold < 4 then 4 else threshold);
                  threshold = (if threshold > 16 then 16 else threshold)
              in if current_round_min_rtt ca \<ge> last_round_min_rtt ca + threshold
                 then ca\<lparr>phase := CUBIC_PHASE_CSS, css_rounds := 0,
                         css_baseline_min_rtt := current_round_min_rtt ca\<rparr>
                 else ca
         else ca)"

definition hystart_update :: "tcp_cc_state \<Rightarrow> tcp_cc_ack_event \<Rightarrow> tcp_cc_state" where
  "hystart_update c event =
     (let ca = priv c; sample = ev_rtt_sample_ms event; nxt = ev_snd_nxt event in
      if hystart_done ca \<or> phase ca = CUBIC_PHASE_AVOIDANCE \<or> \<not> ev_rtt_sample_valid event then c
      else if \<not> round_valid ca then
        c\<lparr>priv := hystart_sample (hystart_begin_round ca nxt) sample\<rparr>
      else if sint (ev_ack_seq event - round_end ca) \<ge> 0 then
        let c = hystart_finish_round c in
        if phase (priv c) = CUBIC_PHASE_AVOIDANCE then c
        else c\<lparr>priv := hystart_sample (hystart_begin_round (priv c) nxt) sample\<rparr>
      else c\<lparr>priv := hystart_sample ca sample\<rparr>)"

definition cubic_begin_epoch :: "u32 \<Rightarrow> tcp_cc_state \<Rightarrow> u32 \<Rightarrow> cubic_state" where
  "cubic_begin_epoch smss c now_ms =
     (let w = cwnd c; ca = (priv c)\<lparr>cwnd_epoch := w, w_est := w\<rparr>;
          ca = (if after_timeout ca \<or> w_max ca = 0
                then ca\<lparr>w_max := w, k_ms := 0, after_timeout := False\<rparr>
                else ca\<lparr>k_ms := cubic_k_ms (w_max ca) (cwnd_epoch ca) smss\<rparr>)
      in ca\<lparr>epoch_start_ms := now_ms, last_update_ms := now_ms, cubic_credit := 0,
            epoch_valid := True, last_update_valid := True\<rparr>)"

subsection \<open>Congestion avoidance\<close>

definition cubic_friendly_inc :: "cubic_state \<Rightarrow> u32 \<Rightarrow> u32 \<Rightarrow> u32 \<Rightarrow> u32" where
  "cubic_friendly_inc ca smss w acked =
     (let alpha_num = (if w_est ca \<ge> cwnd_prior ca then 1 else 9 :: u32);
          alpha_den = (if w_est ca \<ge> cwnd_prior ca then 1 else 17 :: u32)
      in ucast ((ucast alpha_num * ucast acked * ucast smss :: u64)
                div (ucast alpha_den * ucast (if w \<noteq> 0 then w else smss))))"

text \<open>
  \<^verbatim>\<open>cubic_avoidance_ack\<close> in its steps: the bounded target, the fractional growth credit, the
  application-limited branch, and the window-limited branch.
\<close>

definition cubic_target :: "cubic_state \<Rightarrow> u32 \<Rightarrow> u32 \<Rightarrow> u32 \<Rightarrow> u32" where
  "cubic_target ca smss w t =
     (let target = cubic_window_at ca smss t;
          upper = tcp_cc_add_sat w (w div 2);
          target = (if target < w then w else target)
      in if target > upper then upper else target)"

definition cubic_grow :: "u32 \<Rightarrow> u32 \<Rightarrow> cubic_state \<Rightarrow> u32 \<Rightarrow> cubic_state \<times> u32" where
  "cubic_grow smss target ca w =
     (if target > w \<and> w \<noteq> UINT32_MAX then
        let credit = cubic_credit ca + ucast (target - w) * ucast smss;
            increase = ucast (credit div ucast w)
        in (ca\<lparr>cubic_credit := credit mod ucast w\<rparr>, tcp_cc_add_sat w increase)
      else (ca, w))"

definition cubic_app_limited_ack :: "cubic_state \<Rightarrow> u32 \<Rightarrow> cubic_state" where
  "cubic_app_limited_ack ca now =
     ca\<lparr>epoch_start_ms := (if last_update_valid ca
                           then epoch_start_ms ca + (now - last_update_ms ca)
                           else epoch_start_ms ca),
        last_update_ms := now, last_update_valid := True\<rparr>"

definition cubic_cwnd_limited_ack ::
  "u32 \<Rightarrow> u32 \<Rightarrow> cubic_state \<Rightarrow> u32 \<Rightarrow> tcp_cc_ack_event \<Rightarrow> cubic_state \<times> u32" where
  "cubic_cwnd_limited_ack smss srtt ca w event =
     (let now = ev_now_ms event;
          ca = ca\<lparr>last_update_ms := now, last_update_valid := True\<rparr>;
          ca = ca\<lparr>w_est := tcp_cc_add_sat (w_est ca)
                           (cubic_friendly_inc ca smss w (ev_acked_bytes event))\<rparr>;
          elapsed = now - epoch_start_ms ca;
          rtt = (if srtt \<noteq> 0 then srtt
                 else if ev_rtt_sample_valid event then ev_rtt_sample_ms event else 1);
          (ca, w) = cubic_grow smss (cubic_target ca smss w (elapsed + rtt)) ca w
      in (ca, if w_est ca > w then w_est ca else w))"

definition cubic_avoidance_ack ::
  "u32 \<Rightarrow> u32 \<Rightarrow> tcp_cc_state \<Rightarrow> tcp_cc_ack_event \<Rightarrow> tcp_cc_state" where
  "cubic_avoidance_ack smss srtt c event =
     (let ca = (if \<not> epoch_valid (priv c) then cubic_begin_epoch smss c (ev_now_ms event)
                else priv c)
      in if \<not> ev_cwnd_limited event then c\<lparr>priv := cubic_app_limited_ack ca (ev_now_ms event)\<rparr>
         else let (ca, w) = cubic_cwnd_limited_ack smss srtt ca (cwnd c) event
              in c\<lparr>priv := ca, cwnd := w\<rparr>)"

subsection \<open>Callbacks\<close>

definition cubic_slow_start_increase :: "u32 \<Rightarrow> u32 \<Rightarrow> cubic_phase \<Rightarrow> u32" where
  "cubic_slow_start_increase smss acked ph =
     (let cap = (if ucast smss * 8 > (ucast UINT32_MAX :: u64) then UINT32_MAX
                 else ucast (ucast smss * 8 :: u64));
          increase = (if acked < cap then acked else cap);
          increase = (if ph = CUBIC_PHASE_CSS then increase div 4 else increase)
      in if increase = 0 then 1 else increase)"

definition cubic_on_ack :: "tcp_stream \<Rightarrow> tcp_cc_ack_event \<Rightarrow> tcp_stream" where
  "cubic_on_ack tp event =
     (let smss = tcp_cc_smss tp; acked = ev_acked_bytes event;
          (consumed, tp) = tcp_cc_newreno_recovery_ack tp event
      in if consumed \<or> acked = 0 then tp
         else let c = (cc tp)\<lparr>rto_loss_valid := False\<rparr> in
           if cwnd c < ssthresh c \<and> phase (priv c) \<noteq> CUBIC_PHASE_AVOIDANCE then
             let c = hystart_update c event in
             if \<not> ev_cwnd_limited event then tp\<lparr>cc := c\<rparr>
             else tp\<lparr>cc := c\<lparr>cwnd := tcp_cc_add_sat (cwnd c)
                                 (cubic_slow_start_increase smss acked (phase (priv c)))\<rparr>\<rparr>
           else
             let c = (if phase (priv c) \<noteq> CUBIC_PHASE_AVOIDANCE then
                        c\<lparr>priv := cubic_reset_epoch ((priv c)\<lparr>phase := CUBIC_PHASE_AVOIDANCE,
                                    hystart_done := True, cwnd_prior := cwnd c\<rparr>)\<rparr>
                      else c)
             in tp\<lparr>cc := cubic_avoidance_ack smss (srtt_ms tp) c event\<rparr>)"

definition cubic_on_packet_sent :: "tcp_stream \<Rightarrow> tcp_cc_tx_event \<Rightarrow> tcp_stream" where
  "cubic_on_packet_sent tp event = tp"

definition cubic_on_loss :: "tcp_stream \<Rightarrow> tcp_cc_loss_event \<Rightarrow> tcp_stream" where
  "cubic_on_loss tp event =
     (let smss = tcp_cc_smss tp; threshold = tcp_cc_ssthresh (loss_flight_size event) smss 7 10;
          c = cc tp; ca = priv c in
      if loss_reason event = TCP_CC_LOSS_RTO then
        let (ca, th) = (if loss_first_rto_for_seq event
                        then (ca\<lparr>cwnd_prior := cwnd c\<rparr>, threshold) else (ca, ssthresh c))
        in tp\<lparr>cc := c\<lparr>ssthresh := th, cwnd := smss,
              priv := cubic_reset_epoch (ca\<lparr>phase := CUBIC_PHASE_SLOW_START, hystart_done := True,
                        after_timeout := True, round_valid := False\<rparr>)\<rparr>\<rparr>
      else
        let ca = ca\<lparr>cwnd_prior := cwnd c, w_last_max := w_max ca,
              w_max := (if w_max ca \<noteq> 0 \<and> cwnd c < w_max ca
                        then ucast ((ucast (cwnd c) * (10 + 7) :: u64) div (2 * 10))
                        else cwnd c)\<rparr>
        in tp\<lparr>cc := c\<lparr>ssthresh := threshold,
              cwnd := (if loss_reason event = TCP_CC_LOSS_DUPACK
                       then tcp_cc_add_sat threshold
                              (tcp_cc_add_sat smss (tcp_cc_add_sat smss smss))
                       else threshold),
              ca_acked := 0,
              priv := cubic_reset_epoch (ca\<lparr>phase := CUBIC_PHASE_AVOIDANCE,
                        hystart_done := True\<rparr>)\<rparr>\<rparr>)"

definition cubic_on_recovery_exit :: "tcp_stream \<Rightarrow> tcp_stream" where
  "cubic_on_recovery_exit tp =
     tp\<lparr>cc := (cc tp)\<lparr>cwnd := (if cwnd (cc tp) > ssthresh (cc tp) then ssthresh (cc tp)
                              else cwnd (cc tp)),
        ca_acked := 0, priv := cubic_reset_epoch (priv (cc tp))\<rparr>\<rparr>"

definition cubic_on_rto :: "tcp_stream \<Rightarrow> tcp_cc_loss_event \<Rightarrow> tcp_stream" where
  "cubic_on_rto tp event = cubic_on_loss tp event"

definition cubic_on_idle_restart :: "tcp_stream \<Rightarrow> tcp_stream" where
  "cubic_on_idle_restart tp =
     tp\<lparr>cc := (cc tp)\<lparr>cwnd := (if cwnd (cc tp) > initial_window (cc tp)
                              then initial_window (cc tp) else cwnd (cc tp)),
        priv := cubic_reset_epoch (priv (cc tp))\<rparr>\<rparr>"

definition cubic_on_dsack :: "tcp_stream \<Rightarrow> tcp_sack_block \<Rightarrow> bool \<Rightarrow> tcp_stream" where
  "cubic_on_dsack tp block covers_retransmission = tp"

subsection \<open>The integer cube root is exact\<close>

lemma unat_cube_u128:
  assumes "n < 4294967296"
  shows "unat (of_nat n * of_nat n * (of_nat n :: u128)) = n * n * n"
proof -
  have n: "unat (of_nat n :: u128) = n"
    using assms by (simp add: unat_of_nat)
  have "n * n * n \<le> 4294967295 * 4294967295 * 4294967295"
    using assms by (intro mult_le_mono) auto
  then show ?thesis
    by (simp add: unat_word_ariths n mod_mult_left_eq)
qed

lemma cubic_root_loop_bounds:
  assumes "low \<le> high" "high \<le> 4294967295" "low * low * low \<le> unat v"
    and "high < 4294967295 \<longrightarrow> unat v < (high + 1) * (high + 1) * (high + 1)"
  shows "let r = cubic_root_loop v low high in
         r \<le> 4294967295 \<and> r * r * r \<le> unat v
         \<and> (r < 4294967295 \<longrightarrow> unat v < (r + 1) * (r + 1) * (r + 1))"
  using assms
proof (induction v low high rule: cubic_root_loop.induct)
  case (1 v low high)
  show ?case
  proof (cases "low < high")
    case False
    then have "cubic_root_loop v low high = low"
      by (simp add: cubic_root_loop.simps [of v low high])
    moreover have "low = high" using False 1(3) by simp
    ultimately show ?thesis using 1(4-6) by (simp add: Let_def)
  next
    case True
    define mid where "mid = low + (high - low + 1) div 2"
    have mid: "low < mid" "mid \<le> high" using True by (simp_all add: mid_def)
    have cube: "unat (of_nat mid * of_nat mid * (of_nat mid :: u128)) = mid * mid * mid"
      using mid 1(4) by (intro unat_cube_u128) linarith
    have eq: "cubic_root_loop v low high =
        (if mid * mid * mid \<le> unat v then cubic_root_loop v mid high
         else cubic_root_loop v low (mid - 1))"
      unfolding cubic_root_loop.simps [of v low high] mid_def [symmetric] Let_def word_le_nat_alt cube
      using True by simp
    show ?thesis
    proof (cases "mid * mid * mid \<le> unat v")
      case le: True
      show ?thesis unfolding eq using le 1(1) [OF True mid_def refl] mid 1(4-6)
        by (simp add: word_le_nat_alt cube)
    next
      case gt: False
      show ?thesis unfolding eq using gt 1(2) [OF True mid_def refl] mid 1(4-6)
        by (simp add: word_le_nat_alt cube)
    qed
  qed
qed

lemma cubic_root_exact:
  "unat (cubic_root v) ^ 3 \<le> unat v
   \<and> (unat (cubic_root v) < 4294967295 \<longrightarrow> unat v < (unat (cubic_root v) + 1) ^ 3)"
proof -
  let ?r = "cubic_root_loop v 0 4294967295"
  have r: "?r \<le> 4294967295" "?r * ?r * ?r \<le> unat v"
      "?r < 4294967295 \<longrightarrow> unat v < (?r + 1) * (?r + 1) * (?r + 1)"
    using cubic_root_loop_bounds [of 0 4294967295 v] by (simp_all only: Let_def) simp_all
  moreover have "unat (cubic_root v) = ?r"
    using r(1) by (simp add: cubic_root_def unat_of_nat)
  ultimately show ?thesis by (simp add: power3_eq_cube)
qed

subsection \<open>The window function over the integers\<close>

text \<open>
  The CUBIC window in exact integer arithmetic: \<open>W_max + C (t - K)\<^sup>3\<close> with \<open>C = 2/5\<close> segments per
  cubic second, the cubic term rounded towards zero, clamped to 32 bits.
\<close>

definition cubic_spec :: "nat \<Rightarrow> nat \<Rightarrow> nat \<Rightarrow> nat \<Rightarrow> nat" where
  "cubic_spec wmax k smss t =
     (if t < k then wmax - (k - t) ^ 3 * (smss * 2) div 5000000000
      else min 4294967295 (wmax + (t - k) ^ 3 * (smss * 2) div 5000000000))"

lemma unat_of_ucast_u64_u128: "unat (ucast (x :: u64) :: u128) = unat x"
  using unat_u64_lt [of x] by (simp add: unsigned_ucast_eq take_bit_nat_eq_self)

lemma unat_of_ucast_u32_u128: "unat (ucast (x :: u32) :: u128) = unat x"
  using unat_u32_lt [of x] by (simp add: unsigned_ucast_eq take_bit_nat_eq_self)

lemma unat_ucast_u128_u32: "unat (ucast (x :: u128) :: u32) = unat x mod 4294967296"
  by (simp add: unsigned_ucast_eq take_bit_eq_mod)

lemma cubic_spec_mono:
  assumes "t \<le> t'" "wmax \<le> 4294967295"
  shows "cubic_spec wmax k smss t \<le> cubic_spec wmax k smss t'"
proof -
  have down: "(k - t') ^ 3 * (smss * 2) div 5000000000 \<le> (k - t) ^ 3 * (smss * 2) div 5000000000"
    using assms by (intro div_le_mono mult_le_mono1 power_mono) auto
  have up: "(t - k) ^ 3 * (smss * 2) div 5000000000 \<le> (t' - k) ^ 3 * (smss * 2) div 5000000000"
    using assms by (intro div_le_mono mult_le_mono1 power_mono) auto
  consider "t' < k" | "t < k" "k \<le> t'" | "k \<le> t" using assms by linarith
  then show ?thesis
  proof cases
    case 1
    then show ?thesis using assms down diff_le_mono2 [OF down, of wmax] by (simp only: cubic_spec_def) simp
  next
    case 2
    then show ?thesis using assms by (simp add: cubic_spec_def trans_le_add1)
  next
    case 3
    then show ?thesis using assms up
      by (simp only: cubic_spec_def not_less [symmetric] if_False) (auto simp: min_def)
  qed
qed

lemma cubic_delta:
  assumes "unat (d :: u64) < 4294967296" "unat smss < 65536"
  shows "unat (ucast d * ucast d * (ucast d :: u128) * (ucast (smss :: u32) * 2)
           div (5 * CUBIC_TIME_SCALE)) = unat d ^ 3 * (unat smss * 2) div 5000000000"
proof -
  have "unat d ^ 3 \<le> 4294967295 ^ 3"
    using assms by (intro power_mono) auto
  moreover from this have "unat d ^ 3 * (unat smss * 2) \<le> 4294967295 ^ 3 * 131070"
    using assms by (intro mult_le_mono) auto
  ultimately have "unat (ucast d * ucast d * (ucast d :: u128) * (ucast smss * 2))
      = unat d ^ 3 * (unat smss * 2)"
    by (simp add: unat_word_ariths unat_of_ucast_u64_u128 unat_of_ucast_u32_u128
        mod_mult_left_eq mod_mult_right_eq power3_eq_cube)
  then show ?thesis by (simp add: unat_div)
qed

lemma cubic_window_at_spec:
  assumes "unat smss < 65536"
  shows "unat (cubic_window_at ca smss t)
           = cubic_spec (unat (w_max ca)) (unat (k_ms ca)) (unat smss) (unat t)"
proof -
  let ?off = "(ucast t :: u64) - ucast (k_ms ca)"
  let ?delta = "\<lambda>d :: u64. ucast d * ucast d * (ucast d :: u128) * (ucast smss * 2)
      div (5 * CUBIC_TIME_SCALE)"
  have u: "unat (ucast t :: u64) = unat t" "unat (ucast (k_ms ca) :: u64) = unat (k_ms ca)"
    by (simp_all add: unat_ucast_u32_u64)
  have wm: "unat (UINT32_MAX - w_max ca) = 4294967295 - unat (w_max ca)"
    using unat_sub [of "w_max ca" UINT32_MAX] by (simp add: unat_UINT32_MAX)
  show ?thesis
  proof (cases "unat t < unat (k_ms ca)")
    case True
    have off: "unat (- ?off) = unat (k_ms ca) - unat t"
      using True u by (simp add: unat_sub word_le_nat_alt)
    have "unat ?off = 18446744073709551616 - (unat (k_ms ca) - unat t)"
      using True u unat_u32_lt [of "k_ms ca"] unat_sub_if_size [of "ucast t :: u64" "ucast (k_ms ca)"]
      by (simp add: word_size)
    then have neg: "sint ?off < 0"
      using unat_u32_lt [of "k_ms ca"] by (simp add: sint_neg_iff)
    have d: "unat (?delta (- ?off)) = (unat (k_ms ca) - unat t) ^ 3 * (unat smss * 2) div 5000000000"
      using cubic_delta [of "- ?off" smss] assms off unat_u32_lt [of "k_ms ca"] by simp
    show ?thesis
      using True neg d unat_u32_lt [of "w_max ca"]
      by (auto simp: cubic_window_at_def cubic_spec_def Let_def word_le_nat_alt word_less_nat_alt
          unat_of_ucast_u32_u128 unat_ucast_u128_u32 unat_sub)
  next
    case False
    have off: "unat ?off = unat t - unat (k_ms ca)"
      using False u by (simp add: unat_sub word_le_nat_alt)
    then have pos: "\<not> sint ?off < 0"
      using unat_u32_lt [of t] by (simp add: sint_neg_iff)
    have d: "unat (?delta ?off) = (unat t - unat (k_ms ca)) ^ 3 * (unat smss * 2) div 5000000000"
      using cubic_delta [of ?off smss] assms off unat_u32_lt [of t] by simp
    show ?thesis
      using False pos d wm unat_u32_lt [of "w_max ca"]
      by (auto simp: cubic_window_at_def cubic_spec_def Let_def word_le_nat_alt word_less_nat_alt
          unat_of_ucast_u32_u128 unat_ucast_u128_u32 unat_add_u32 unat_UINT32_MAX)
  qed
qed

subsection \<open>CUBIC keeps the contract of a controller\<close>

text \<open>What the HyStart++ helpers may write of the shared congestion state.\<close>

definition keeps_window :: "tcp_cc_state \<Rightarrow> tcp_cc_state \<Rightarrow> bool" where
  "keeps_window c c' \<longleftrightarrow> cwnd c' = cwnd c \<and> ops c' = ops c \<and> initial_window c' = initial_window c
     \<and> (ssthresh c' = ssthresh c \<or> ssthresh c' = cwnd c)"

lemma hystart_finish_round_keeps: "keeps_window c (hystart_finish_round c)"
  by (auto simp: keeps_window_def hystart_finish_round_def Let_def)

lemma hystart_update_keeps: "keeps_window c (hystart_update c ev)"
  using hystart_finish_round_keeps [of c]
  by (auto simp: hystart_update_def Let_def keeps_window_def)

lemma cubic_avoidance_ack_keeps:
  "ops (cubic_avoidance_ack smss srtt c ev) = ops c
   \<and> initial_window (cubic_avoidance_ack smss srtt c ev) = initial_window c
   \<and> ssthresh (cubic_avoidance_ack smss srtt c ev) = ssthresh c"
  by (simp add: cubic_avoidance_ack_def Let_def split: prod.splits)

lemma cubic_grow_ge: "w \<le> snd (cubic_grow smss target ca w)"
  by (simp add: cubic_grow_def Let_def tcp_cc_add_sat_ge)

lemma cubic_cwnd_limited_ack_ge: "w \<le> snd (cubic_cwnd_limited_ack smss srtt ca w ev)"
proof -
  have "w \<le> (if e > w' then e else w')" if "cubic_grow smss target ca' w = (ca'', w')"
    for e target ca' ca'' w'
    using cubic_grow_ge [of w smss target ca'] that by auto
  then show ?thesis
    unfolding cubic_cwnd_limited_ack_def Let_def by (simp only: snd_conv split: prod.split) blast
qed

lemma cubic_avoidance_ack_grows: "cwnd c \<le> cwnd (cubic_avoidance_ack smss srtt c ev)"
  using cubic_cwnd_limited_ack_ge
  by (auto simp: cubic_avoidance_ack_def Let_def split: prod.splits) (metis snd_conv)+

lemma cubic_on_ack_cases:
  obtains "ev_in_recovery ev \<or> ev_acked_bytes ev = 0"
      "cubic_on_ack tp ev = snd (tcp_cc_newreno_recovery_ack tp ev)"
  | c w where "\<not> ev_in_recovery ev" "ev_acked_bytes ev \<noteq> 0" "keeps_window (cc tp) c" "cwnd (cc tp) \<le> w"
      "cubic_on_ack tp ev = tp\<lparr>cc := c\<lparr>cwnd := w\<rparr>\<rparr>"
proof -
  obtain b tp1 where r: "tcp_cc_newreno_recovery_ack tp ev = (b, tp1)" by fastforce
  have b: "b \<longleftrightarrow> ev_in_recovery ev" using recovery_ack_consumed_iff [of tp ev] r by simp
  have tp1: "tp1 = tp" if "\<not> b" using recovery_ack_not_consumed r that by auto
  let ?c = "(cc tp)\<lparr>rto_loss_valid := False\<rparr>"
  have kw: "keeps_window (cc tp) (hystart_update ?c ev)"
    using hystart_update_keeps [of ?c ev] by (simp add: keeps_window_def)
  show ?thesis
  proof (cases "b \<or> ev_acked_bytes ev = 0")
    case True
    then show ?thesis using r b by (intro that(1)) (auto simp: cubic_on_ack_def)
  next
    case False
    then have tp1: "tp1 = tp" using tp1 by simp
    show ?thesis
    proof (cases "cwnd ?c < ssthresh ?c \<and> phase (priv ?c) \<noteq> CUBIC_PHASE_AVOIDANCE")
      case slow: True
      let ?h = "hystart_update ?c ev"
      let ?w = "if ev_cwnd_limited ev then tcp_cc_add_sat (cwnd ?h)
          (cubic_slow_start_increase (tcp_cc_smss tp) (ev_acked_bytes ev) (phase (priv ?h))) else cwnd ?h"
      have "cubic_on_ack tp ev = tp\<lparr>cc := ?h\<lparr>cwnd := ?w\<rparr>\<rparr>"
        unfolding cubic_on_ack_def Let_def r prod.case tp1 using False slow by simp
      moreover have "cwnd (cc tp) \<le> ?w"
        using kw tcp_cc_add_sat_ge(1) by (simp add: keeps_window_def)
      ultimately show ?thesis using that(2) False b kw by blast
    next
      case avoid: False
      let ?d = "if phase (priv ?c) \<noteq> CUBIC_PHASE_AVOIDANCE then
          ?c\<lparr>priv := cubic_reset_epoch ((priv ?c)\<lparr>phase := CUBIC_PHASE_AVOIDANCE,
                                    hystart_done := True, cwnd_prior := cwnd ?c\<rparr>)\<rparr> else ?c"
      have c: "keeps_window (cc tp) ?d"
          "cubic_on_ack tp ev = tp\<lparr>cc := cubic_avoidance_ack (tcp_cc_smss tp) (srtt_ms tp) ?d ev\<rparr>"
        unfolding cubic_on_ack_def Let_def r prod.case tp1
        using avoid False by (simp_all add: keeps_window_def)
      let ?c' = "cubic_avoidance_ack (tcp_cc_smss tp) (srtt_ms tp) ?d ev"
      show ?thesis
      proof (rule that(2))
        show "keeps_window (cc tp) (?c'\<lparr>cwnd := cwnd (cc tp)\<rparr>)"
          using c(1) cubic_avoidance_ack_keeps [of "tcp_cc_smss tp" "srtt_ms tp" ?d ev]
          by (simp add: keeps_window_def)
        show "cwnd (cc tp) \<le> cwnd ?c'"
          using c(1) cubic_avoidance_ack_grows [of ?d "tcp_cc_smss tp" "srtt_ms tp" ev]
          by (simp add: keeps_window_def)
        show "cubic_on_ack tp ev = tp\<lparr>cc := ?c'\<lparr>cwnd := cwnd (cc tp)\<rparr>\<lparr>cwnd := cwnd ?c'\<rparr>\<rparr>"
          unfolding c(2) by simp
      qed (use False b in auto)
    qed
  qed
qed

lemma cubic_on_ack_ok: "cc_ok tp \<Longrightarrow> cc_ok (cubic_on_ack tp ev)"
proof (cases tp ev rule: cubic_on_ack_cases)
  case 1
  assume "cc_ok tp"
  then show ?thesis using 1(2) by (simp add: recovery_ack_ok)
next
  case (2 c w)
  assume "cc_ok tp"
  then show ?thesis using 2 by (auto simp: cc_ok_def keeps_window_def)
qed

lemma cubic_on_ack_frame: "same_but_cc tp (cubic_on_ack tp ev)"
  by (cases tp ev rule: cubic_on_ack_cases) (simp_all add: recovery_ack_frame keeps_window_def)

lemma cubic_on_ack_grows:
  "\<not> ev_in_recovery ev \<Longrightarrow> cwnd (cc tp) \<le> cwnd (cc (cubic_on_ack tp ev))"
  by (cases tp ev rule: cubic_on_ack_cases) (auto simp: tcp_cc_newreno_recovery_ack_def Let_def)

lemma cubic_on_loss_ok: "cc_ok tp \<Longrightarrow> cc_ok (cubic_on_loss tp ev)"
  using tcp_cc_ssthresh_ge_smss [of "tcp_cc_smss tp" "loss_flight_size ev" 7 10]
    tcp_cc_add_sat_ge(1) [of "tcp_cc_ssthresh (loss_flight_size ev) (tcp_cc_smss tp) 7 10"]
  by (auto simp: cubic_on_loss_def Let_def cc_ok_def intro: order_trans split: prod.splits)

interpretation cu: cc_algorithm cubic_init cubic_on_ack cubic_on_loss
  cubic_on_recovery_exit cubic_on_rto cubic_on_idle_restart
proof unfold_locales
  fix tp b a l
  show "cc_ok (cubic_init tp b)" "same_but_cc tp (cubic_init tp b)"
    by (simp_all add: cubic_init_def Let_def cc_ok_def tcp_cc_initial_window_ge)
  show "cc_step_safe tp (cubic_on_ack tp a)"
    by (simp add: cc_step_safe_def cubic_on_ack_frame cubic_on_ack_ok)
  show "cwnd (cc tp) \<le> cwnd (cc (cubic_on_ack tp a))" if "\<not> ev_in_recovery a"
    using that by (rule cubic_on_ack_grows)
  have "same_but_cc tp (cubic_on_loss tp l)"
    by (simp add: cubic_on_loss_def Let_def split: prod.splits)
  then show "cc_step_safe tp (cubic_on_loss tp l)" "cc_step_safe tp (cubic_on_rto tp l)"
    by (simp_all add: cc_step_safe_def cubic_on_rto_def cubic_on_loss_ok)
  show "cc_step_safe tp (cubic_on_recovery_exit tp)" "cc_step_safe tp (cubic_on_idle_restart tp)"
    by (auto simp: cc_step_safe_def cubic_on_recovery_exit_def cubic_on_idle_restart_def cc_ok_def)
  show "cwnd (cc (cubic_on_rto tp l)) = tcp_cc_smss tp" if "loss_reason l = TCP_CC_LOSS_RTO"
    using that by (simp add: cubic_on_rto_def cubic_on_loss_def Let_def split: prod.splits)
qed

lemma cubic_scaled:
  assumes "unat epoch < unat wmax"
  shows "unat ((ucast (wmax - epoch :: u32) * 5 * CUBIC_TIME_SCALE) div (2 * ucast (smss :: u32)))
           = (unat wmax - unat epoch) * 5000000000 div (2 * unat smss)"
proof -
  let ?d = "unat wmax - unat epoch"
  have d: "unat (ucast (wmax - epoch) :: u128) = ?d"
    using assms by (simp add: unat_of_ucast_u32_u128 unat_sub word_le_nat_alt)
  have "?d < 4294967296" using unat_u32_lt [of wmax] by simp
  then have "unat (ucast (wmax - epoch) * 5 * CUBIC_TIME_SCALE) = ?d * 5000000000"
    by (simp add: unat_word_ariths d mod_mult_left_eq)
  moreover have "unat (2 * ucast smss :: u128) = 2 * unat smss"
    using unat_u32_lt [of smss] by (simp add: unat_word_ariths unat_of_ucast_u32_u128)
  ultimately show ?thesis by (simp add: unat_div)
qed

subsection \<open>Properties\<close>

text \<open>
  Claim C22. The CUBIC time constant \<open>K\<close> is the exact integer cube root of \<open>(W_max - cwnd) / C\<close>
  in milliseconds: the bisection terminates with the largest \<open>k\<close> whose cube does not exceed the
  scaled distance, and no 128-bit product wraps.
\<close>

theorem cubic_k_exact:
  assumes "epoch < wmax" and "smss \<noteq> 0"
  shows "unat (cubic_k_ms wmax epoch smss) ^ 3
           \<le> (unat wmax - unat epoch) * 5000000000 div (2 * unat smss)
         \<and> (unat wmax - unat epoch) * 5000000000 div (2 * unat smss)
           < (unat (cubic_k_ms wmax epoch smss) + 1) ^ 3"
proof -
  let ?v = "(ucast (wmax - epoch) * 5 * CUBIC_TIME_SCALE) div (2 * ucast smss) :: u128"
  let ?n = "(unat wmax - unat epoch) * 5000000000 div (2 * unat smss)"
  have v: "unat ?v = ?n"
    using assms(1) by (intro cubic_scaled) (simp add: word_less_nat_alt)
  have k: "cubic_k_ms wmax epoch smss = cubic_root ?v"
    using assms by (auto simp: cubic_k_ms_def)
  have "?n \<le> (unat wmax - unat epoch) * 5000000000"
    by (rule div_le_dividend)
  also have "\<dots> < 4294967295 ^ 3"
    using unat_u32_le [of wmax] by simp
  finally have small: "unat ?v < 4294967295 ^ 3"
    unfolding v .
  have "unat (cubic_root ?v) < 4294967295"
  proof (rule ccontr)
    assume "\<not> unat (cubic_root ?v) < 4294967295"
    then have "unat (cubic_root ?v) = 4294967295"
      using unat_u32_le [of "cubic_root ?v"] by linarith
    then show False
      using cubic_root_exact [of ?v] small by (simp only: not_less [symmetric] simp_thms)
  qed
  then show ?thesis
    using cubic_root_exact [of ?v] unfolding k v by blast
qed

theorem cubic_k_exact_witness:
  "(10000 :: u32) < 100000 \<and> (1000 :: u32) \<noteq> 0
   \<and> unat (cubic_k_ms 100000 10000 1000) ^ 3 \<le> 225000000000
   \<and> 225000000000 < (unat (cubic_k_ms 100000 10000 1000) + 1) ^ 3"
  using cubic_k_exact [of 10000 100000 1000] by simp



end
