(* ===== verification/Tcp_Cc.thy ===== *)
theory Tcp_Cc
  imports Cubic
begin

text \<open>
  The algorithm-independent dispatch layer, \<^verbatim>\<open>pro-stack/tcp_cc.c\<close>, over the two callback tables of
  the build. The stream pointer is never null here; a stream with no table is \<open>ops = None\<close>.
\<close>

subsection \<open>The code\<close>

definition tcp_cc_default_ops :: tcp_cc_ops where
  "tcp_cc_default_ops = tcp_cubic_ops"

text \<open>Both tables' \<^verbatim>\<open>priv_size\<close> fits \<^verbatim>\<open>TCP_CC_PRIV_SIZE\<close> by static assertion.\<close>

definition tcp_cc_set_ops :: "tcp_stream \<Rightarrow> tcp_cc_ops option \<Rightarrow> bool \<Rightarrow> tcp_stream" where
  "tcp_cc_set_ops tp table retransmitted_syn =
     (case table of None \<Rightarrow> tp
      | Some o1 \<Rightarrow>
        let tp = tp\<lparr>cc := tcp_cc_state_zero\<lparr>ops := Some o1\<rparr>\<rparr> in
        (case o1 of tcp_newreno_ops \<Rightarrow> newreno_init tp retransmitted_syn
         | tcp_cubic_ops \<Rightarrow> cubic_init tp retransmitted_syn))"

definition tcp_cc_init_default :: "tcp_stream \<Rightarrow> bool \<Rightarrow> tcp_stream" where
  "tcp_cc_init_default tp retransmitted_syn =
     tcp_cc_set_ops tp (Some tcp_cc_default_ops) retransmitted_syn"

definition tcp_cc_reset :: "tcp_stream \<Rightarrow> tcp_stream" where
  "tcp_cc_reset tp =
     (case ops (cc tp) of None \<Rightarrow> tp
      | Some tcp_newreno_ops \<Rightarrow> newreno_reset tp
      | Some tcp_cubic_ops \<Rightarrow> cubic_reset tp)"

definition tcp_cc_on_ack :: "tcp_stream \<Rightarrow> tcp_cc_ack_event \<Rightarrow> tcp_stream" where
  "tcp_cc_on_ack tp event =
     (case ops (cc tp) of None \<Rightarrow> tp
      | Some tcp_newreno_ops \<Rightarrow> newreno_on_ack tp event
      | Some tcp_cubic_ops \<Rightarrow> cubic_on_ack tp event)"

definition tcp_cc_on_packet_sent :: "tcp_stream \<Rightarrow> tcp_cc_tx_event \<Rightarrow> tcp_stream" where
  "tcp_cc_on_packet_sent tp event =
     (let tp = tp\<lparr>cc := (cc tp)\<lparr>last_data_tx_ms := tx_now_ms event,
                                cwnd_limited := tx_cwnd_limited event\<rparr>\<rparr>
      in case ops (cc tp) of None \<Rightarrow> tp
         | Some tcp_newreno_ops \<Rightarrow> newreno_on_packet_sent tp event
         | Some tcp_cubic_ops \<Rightarrow> cubic_on_packet_sent tp event)"

definition tcp_cc_on_loss :: "tcp_stream \<Rightarrow> tcp_cc_loss_event \<Rightarrow> tcp_stream" where
  "tcp_cc_on_loss tp event =
     (case ops (cc tp) of None \<Rightarrow> tp
      | Some tcp_newreno_ops \<Rightarrow> newreno_on_loss tp event
      | Some tcp_cubic_ops \<Rightarrow> cubic_on_loss tp event)"

definition tcp_cc_on_recovery_exit :: "tcp_stream \<Rightarrow> tcp_stream" where
  "tcp_cc_on_recovery_exit tp =
     (case ops (cc tp) of None \<Rightarrow> tp
      | Some tcp_newreno_ops \<Rightarrow> newreno_on_recovery_exit tp
      | Some tcp_cubic_ops \<Rightarrow> cubic_on_recovery_exit tp)"

definition tcp_cc_on_rto :: "tcp_stream \<Rightarrow> tcp_cc_loss_event \<Rightarrow> tcp_stream" where
  "tcp_cc_on_rto tp event =
     (case ops (cc tp) of None \<Rightarrow> tp
      | Some tcp_newreno_ops \<Rightarrow> newreno_on_rto tp event
      | Some tcp_cubic_ops \<Rightarrow> cubic_on_rto tp event)"

definition tcp_cc_on_idle_restart :: "tcp_stream \<Rightarrow> u32 \<Rightarrow> u32 \<Rightarrow> tcp_stream" where
  "tcp_cc_on_idle_restart tp now_ms rto =
     (if last_data_tx_ms (cc tp) \<noteq> 0 \<and> now_ms - last_data_tx_ms (cc tp) > rto then
        (case ops (cc tp) of None \<Rightarrow> tp
         | Some tcp_newreno_ops \<Rightarrow> newreno_on_idle_restart tp
         | Some tcp_cubic_ops \<Rightarrow> cubic_on_idle_restart tp)
      else tp)"

definition tcp_cc_on_dsack :: "tcp_stream \<Rightarrow> tcp_sack_block \<Rightarrow> bool \<Rightarrow> tcp_stream" where
  "tcp_cc_on_dsack tp block covers_retransmission =
     (case ops (cc tp) of None \<Rightarrow> tp
      | Some tcp_newreno_ops \<Rightarrow> newreno_on_dsack tp block covers_retransmission
      | Some tcp_cubic_ops \<Rightarrow> cubic_on_dsack tp block covers_retransmission)"

definition tcp_cc_send_window :: "tcp_stream \<Rightarrow> u32" where
  "tcp_cc_send_window tp = (case ops (cc tp) of None \<Rightarrow> UINT32_MAX | Some _ \<Rightarrow> cwnd (cc tp))"

subsection \<open>Traces of dispatched events\<close>

datatype cc_call =
    Call_Ack tcp_cc_ack_event | Call_Sent tcp_cc_tx_event | Call_Loss tcp_cc_loss_event
  | Call_Rto tcp_cc_loss_event | Call_Recovery_Exit | Call_Idle u32 u32
  | Call_Dsack tcp_sack_block bool | Call_Reset

fun tcp_cc_call :: "tcp_stream \<Rightarrow> cc_call \<Rightarrow> tcp_stream" where
  "tcp_cc_call tp (Call_Ack a) = tcp_cc_on_ack tp a"
| "tcp_cc_call tp (Call_Sent t) = tcp_cc_on_packet_sent tp t"
| "tcp_cc_call tp (Call_Loss l) = tcp_cc_on_loss tp l"
| "tcp_cc_call tp (Call_Rto l) = tcp_cc_on_rto tp l"
| "tcp_cc_call tp Call_Recovery_Exit = tcp_cc_on_recovery_exit tp"
| "tcp_cc_call tp (Call_Idle now rto) = tcp_cc_on_idle_restart tp now rto"
| "tcp_cc_call tp (Call_Dsack b r) = tcp_cc_on_dsack tp b r"
| "tcp_cc_call tp Call_Reset = tcp_cc_reset tp"

lemma newreno_reset_safe: "cc_step_safe tp (newreno_reset tp)"
proof -
  let ?tp = "tp\<lparr>cc := (cc tp)\<lparr>priv := cubic_state_zero\<rparr>\<rparr>"
  have "cc_step_safe tp ?tp" by (simp add: cc_step_safe_def cc_ok_def)
  then show ?thesis
    unfolding newreno_reset_def by (rule cc_step_safe_trans) (rule nr.init_safe)
qed

lemmas cc_dispatch_defs =
  tcp_cc_on_ack_def tcp_cc_on_packet_sent_def tcp_cc_on_loss_def tcp_cc_on_recovery_exit_def
  tcp_cc_on_rto_def tcp_cc_on_idle_restart_def tcp_cc_on_dsack_def tcp_cc_reset_def
  newreno_on_packet_sent_def newreno_on_dsack_def cubic_on_packet_sent_def cubic_on_dsack_def

lemmas cc_safe =
  nr.ack_safe nr.loss_safe nr.exit_safe nr.rto_safe nr.idle_safe newreno_reset_safe
  cu.ack_safe cu.loss_safe cu.exit_safe cu.rto_safe cu.idle_safe cu.init_safe

lemma tcp_cc_call_safe: "cc_step_safe tp (tcp_cc_call tp c)"
  by (cases c)
     (auto simp: cc_dispatch_defs cc_safe cubic_reset_def Let_def cc_step_safe_def [of tp "tp\<lparr>cc := _\<rparr>"]
        cc_ok_def split: option.split tcp_cc_ops.split)

lemma tcp_cc_calls_safe: "cc_step_safe tp (foldl tcp_cc_call tp cs)"
proof (induction cs arbitrary: tp)
  case (Cons c cs)
  show ?case
    using tcp_cc_call_safe [of tp c] Cons [of "tcp_cc_call tp c"] by (auto intro: cc_step_safe_trans)
qed simp

lemma tcp_cc_set_ops_ok:
  "cc_ok (tcp_cc_set_ops tp (Some table) b) \<and> ops (cc (tcp_cc_set_ops tp (Some table) b)) = Some table
   \<and> tcp_cc_smss (tcp_cc_set_ops tp (Some table) b) = tcp_cc_smss tp"
  using nr.init_ok cu.init_ok same_but_cc_smss [OF nr.init_frame] same_but_cc_smss [OF cu.init_frame]
    cc_step_safe_ops [OF nr.init_safe] cc_step_safe_ops [OF cu.init_safe]
  by (cases table) (simp_all add: tcp_cc_set_ops_def)

subsection \<open>Properties\<close>

text \<open>
  Claim C18. Whatever table is selected and whatever ACKs, losses, timeouts, transmissions, idle
  restarts and resets follow, the congestion window a sender may use never falls below one
  segment, so a connection is never wedged by congestion control; and no callback writes anything
  but the congestion state.
\<close>

theorem cc_window_never_below_one_segment:
  "let tp' = foldl tcp_cc_call (tcp_cc_set_ops tp (Some table) b) calls
   in tcp_cc_smss tp \<le> tcp_cc_send_window tp' \<and> ops (cc tp') = Some table
      \<and> same_but_cc (tcp_cc_set_ops tp (Some table) b) tp'"
proof -
  let ?start = "tcp_cc_set_ops tp (Some table) b"
  let ?tp = "foldl tcp_cc_call ?start calls"
  have safe: "cc_step_safe ?start ?tp" by (rule tcp_cc_calls_safe)
  have "ops (cc ?tp) = Some table"
    using cc_step_safe_ops [OF safe] tcp_cc_set_ops_ok by simp
  moreover have "cc_ok ?tp" "same_but_cc ?start ?tp"
    using safe tcp_cc_set_ops_ok by (auto simp: cc_step_safe_def)
  moreover have "tcp_cc_smss ?tp = tcp_cc_smss tp"
    using same_but_cc_smss [OF \<open>same_but_cc ?start ?tp\<close>] tcp_cc_set_ops_ok by simp
  ultimately show ?thesis
    by (simp add: Let_def cc_ok_def tcp_cc_send_window_def)
qed

text \<open>
  Claim C26. A cumulative ACK outside loss recovery never shrinks the window, under either
  algorithm.
\<close>

theorem cc_ack_never_shrinks_window:
  assumes "\<not> ev_in_recovery ev"
  shows "tcp_cc_send_window tp \<le> tcp_cc_send_window (tcp_cc_on_ack tp ev)"
  using nr.ack_grows [OF assms, of tp] cu.ack_grows [OF assms, of tp]
    cc_step_safe_ops [OF nr.ack_safe, of tp ev] cc_step_safe_ops [OF cu.ack_safe, of tp ev]
  by (auto simp: tcp_cc_on_ack_def tcp_cc_send_window_def split: option.split tcp_cc_ops.split)

theorem cc_ack_never_shrinks_window_witness:
  "tcp_cc_send_window (tcp_cc_set_ops tcp_stream_zero (Some tcp_cubic_ops) False)
     \<le> tcp_cc_send_window (tcp_cc_on_ack (tcp_cc_set_ops tcp_stream_zero (Some tcp_cubic_ops) False)
          \<lparr>ev_ack_seq = 1460, ev_snd_nxt = 4380, ev_acked_bytes = 1460, ev_newly_sacked_bytes = 0,
           ev_flight_size = 2920, ev_now_ms = 100, ev_rtt_sample_ms = 20, ev_rtt_sample_valid = True,
           ev_cwnd_limited = True, ev_duplicate_ack = False, ev_entered_recovery = False,
           ev_partial_ack = False, ev_newreno_recovery = False, ev_in_recovery = False\<rparr>)"
  by (rule cc_ack_never_shrinks_window) simp

text \<open>The multiplicative decrease of each algorithm.\<close>

definition beta_flight :: "tcp_cc_ops \<Rightarrow> nat \<Rightarrow> nat" where
  "beta_flight table flight =
     (case table of tcp_newreno_ops \<Rightarrow> flight div 2 | tcp_cubic_ops \<Rightarrow> flight * 7 div 10)"

lemma loss_threshold:
  "unat (tcp_cc_ssthresh f (tcp_cc_smss tp) 1 2) = max (unat f div 2) (2 * unat (tcp_cc_smss tp))"
  "unat (tcp_cc_ssthresh f (tcp_cc_smss tp) 7 10) = max (unat f * 7 div 10) (2 * unat (tcp_cc_smss tp))"
  using tcp_cc_smss_bounds(2) [of tp] by (simp_all add: unat_tcp_cc_ssthresh)

lemma newreno_fast_loss:
  assumes "loss_reason ev \<noteq> TCP_CC_LOSS_RTO"
  shows "ssthresh (cc (newreno_on_loss tp ev)) = tcp_cc_ssthresh (loss_flight_size ev) (tcp_cc_smss tp) 1 2"
    and "ssthresh (cc (newreno_on_loss tp ev)) \<le> cwnd (cc (newreno_on_loss tp ev))"
    and "ops (cc (newreno_on_loss tp ev)) = ops (cc tp)"
  using assms by (simp_all add: newreno_on_loss_def Let_def tcp_cc_add_sat_ge(1))

lemma cubic_fast_loss:
  assumes "loss_reason ev \<noteq> TCP_CC_LOSS_RTO"
  shows "ssthresh (cc (cubic_on_loss tp ev)) = tcp_cc_ssthresh (loss_flight_size ev) (tcp_cc_smss tp) 7 10"
    and "ssthresh (cc (cubic_on_loss tp ev)) \<le> cwnd (cc (cubic_on_loss tp ev))"
    and "ops (cc (cubic_on_loss tp ev)) = ops (cc tp)"
  using assms by (simp_all add: cubic_on_loss_def Let_def tcp_cc_add_sat_ge(1))

lemma recovery_exit_deflates:
  "ssthresh (cc tp) \<le> cwnd (cc tp) \<Longrightarrow>
     cwnd (cc (newreno_on_recovery_exit tp)) = ssthresh (cc tp)
     \<and> cwnd (cc (cubic_on_recovery_exit tp)) = ssthresh (cc tp)
     \<and> ssthresh (cc (newreno_on_recovery_exit tp)) = ssthresh (cc tp)
     \<and> ssthresh (cc (cubic_on_recovery_exit tp)) = ssthresh (cc tp)"
  by (auto simp: newreno_on_recovery_exit_def cubic_on_recovery_exit_def)





end
