(* ===== verification/Tcp_Sack.thy ===== *)
theory Tcp_Sack
  imports Serial Tcp_Stream
begin

text \<open>
  The RFC 6675 scoreboard, \<^verbatim>\<open>pro-stack/tcp_sack.c\<close>. The two sorted singly linked range lists of a
  stream are lists here. Taking a range node from the owner-local pool may fail; whether it
  succeeds is an argument \<open>pool_ok\<close> (for \<^verbatim>\<open>tcp_sack_update\<close>, one answer per SACK block).
\<close>

subsection \<open>Serial comparison\<close>

definition seq_lt :: "u32 \<Rightarrow> u32 \<Rightarrow> bool" where
  "seq_lt a b \<longleftrightarrow> sint (a - b) < 0"

definition seq_leq :: "u32 \<Rightarrow> u32 \<Rightarrow> bool" where
  "seq_leq a b \<longleftrightarrow> sint (a - b) \<le> 0"

definition seq_gt :: "u32 \<Rightarrow> u32 \<Rightarrow> bool" where
  "seq_gt a b \<longleftrightarrow> seq_lt b a"

definition seq_min :: "u32 \<Rightarrow> u32 \<Rightarrow> u32" where
  "seq_min a b = (if seq_lt a b then a else b)"

interpretation sq: serial_order seq_lt
  by unfold_locales (simp add: seq_lt_def sint_diff_neg_iff)

subsection \<open>Range nodes\<close>

text \<open>The stream after the node was counted, or \<open>None\<close> when the cap or the pool is exhausted.\<close>

definition range_alloc :: "bool \<Rightarrow> tcp_stream \<Rightarrow> tcp_stream option" where
  "range_alloc pool_ok tp =
     (if range_count (sack tp) \<ge> TCP_SACK_SCORE_MAX_RANGES then None
      else if pool_ok then Some (tp\<lparr>sack := (sack tp)\<lparr>range_count := range_count (sack tp) + 1\<rparr>\<rparr>)
      else None)"

definition range_free :: "tcp_stream \<Rightarrow> tcp_stream" where
  "range_free tp =
     (if range_count (sack tp) \<noteq> 0
      then tp\<lparr>sack := (sack tp)\<lparr>range_count := range_count (sack tp) - 1\<rparr>\<rparr> else tp)"

text \<open>Frees every node of the list; the caller stores the empty list.\<close>

fun range_list_clear :: "tcp_stream \<Rightarrow> tcp_sack_range list \<Rightarrow> tcp_stream" where
  "range_list_clear tp [] = tp"
| "range_list_clear tp (r # rs) = range_list_clear (range_free tp) rs"

definition clear_sacked :: "tcp_stream \<Rightarrow> tcp_stream" where
  "clear_sacked tp = (let tp = range_list_clear tp (sacked (sack tp))
                      in tp\<lparr>sack := (sack tp)\<lparr>sacked := []\<rparr>\<rparr>)"

definition clear_retransmitted :: "tcp_stream \<Rightarrow> tcp_stream" where
  "clear_retransmitted tp = (let tp = range_list_clear tp (retransmitted (sack tp))
                             in tp\<lparr>sack := (sack tp)\<lparr>retransmitted := []\<rparr>\<rparr>)"

definition sack_degrade :: "tcp_stream \<Rightarrow> tcp_stream" where
  "sack_degrade tp =
     (let tp = clear_retransmitted (clear_sacked tp)
      in tp\<lparr>sack := (sack tp)\<lparr>degraded := True, degraded_until := high_data (sack tp),
              mode := TCP_RECOVERY_NORMAL, pipe := 0, dup_acks := 0, limited_transmit := False,
              pending := tcp_recovery_candidate_zero\<rparr>\<rparr>)"

text \<open>
  The merging loop of \<^verbatim>\<open>range_insert\<close>: the stream, the nodes after the merged ones, the merged
  edges, the newly covered bytes, and whether a node is being reused.
\<close>

fun range_merge ::
  "tcp_stream \<Rightarrow> tcp_sack_range list \<Rightarrow> u32 \<Rightarrow> u32 \<Rightarrow> u32 \<Rightarrow> u32 \<Rightarrow> u32 \<Rightarrow> bool
   \<Rightarrow> tcp_stream \<times> tcp_sack_range list \<times> u32 \<times> u32 \<times> u32 \<times> bool" where
  "range_merge tp [] original_left original_right left right newly_covered reuse =
     (tp, [], left, right, newly_covered, reuse)"
| "range_merge tp (cur # next) original_left original_right left right newly_covered reuse =
     (if seq_gt (rng_left cur) right then (tp, cur # next, left, right, newly_covered, reuse)
      else let overlap_left = (if seq_gt (rng_left cur) original_left then rng_left cur
                               else original_left);
               overlap_right = (if seq_lt (rng_right cur) original_right then rng_right cur
                                else original_right);
               newly_covered = (if seq_lt overlap_left overlap_right
                                then newly_covered - (overlap_right - overlap_left)
                                else newly_covered);
               left = (if seq_lt (rng_left cur) left then rng_left cur else left);
               right = (if seq_gt (rng_right cur) right then rng_right cur else right)
           in range_merge (if reuse then range_free tp else tp) next
                original_left original_right left right newly_covered True)"

text \<open>The newly covered bytes (\<^verbatim>\<open>UINT32_MAX\<close> when no node is left), the stream and the new list.\<close>

definition range_insert ::
  "bool \<Rightarrow> tcp_stream \<Rightarrow> tcp_sack_range list \<Rightarrow> u32 \<Rightarrow> u32 \<Rightarrow> u8
   \<Rightarrow> u32 \<times> tcp_stream \<times> tcp_sack_range list" where
  "range_insert pool_ok tp head left right flags =
     (let before = takeWhile (\<lambda>cur. seq_lt (rng_right cur) left) head;
          cur = dropWhile (\<lambda>cur. seq_lt (rng_right cur) left) head;
          (tp, after, left, right, newly_covered, reuse) =
             range_merge tp cur left right left right (right - left) False;
          list = before @ \<lparr>rng_left = left, rng_right = right, rng_flags = flags\<rparr> # after
      in if reuse then (newly_covered, tp, list)
         else (case range_alloc pool_ok tp of None \<Rightarrow> (UINT32_MAX, tp, head)
               | Some tp \<Rightarrow> (newly_covered, tp, list)))"

fun range_list_trim ::
  "tcp_stream \<Rightarrow> tcp_sack_range list \<Rightarrow> u32 \<Rightarrow> u32 \<Rightarrow> tcp_stream \<times> tcp_sack_range list" where
  "range_list_trim tp [] left right = (tp, [])"
| "range_list_trim tp (cur # next) left right =
     (if \<not> seq_lt (rng_left cur) right \<or> \<not> seq_lt left (rng_right cur)
      then range_list_trim (range_free tp) next left right
      else let cur = (if seq_lt (rng_left cur) left then cur\<lparr>rng_left := left\<rparr> else cur);
               cur = (if seq_gt (rng_right cur) right then cur\<lparr>rng_right := right\<rparr> else cur);
               (tp, rest) = range_list_trim tp next left right
           in (tp, cur # rest))"

fun range_intersects :: "tcp_sack_range list \<Rightarrow> u32 \<Rightarrow> u32 \<Rightarrow> bool" where
  "range_intersects [] left right = False"
| "range_intersects (head # next) left right =
     (if \<not> seq_lt (rng_left head) right then False
      else if seq_lt left (rng_right head) then True
      else range_intersects next left right)"

definition block_contains :: "tcp_sack_block \<Rightarrow> tcp_sack_block \<Rightarrow> bool" where
  "block_contains outer inner \<longleftrightarrow>
     seq_leq (blk_left outer) (blk_left inner) \<and> seq_leq (blk_right inner) (blk_right outer)"

subsection \<open>Scoreboard operations\<close>

definition tcp_sack_state_init :: "tcp_stream \<Rightarrow> u32 \<Rightarrow> tcp_stream" where
  "tcp_sack_state_init tp initial_seq =
     tp\<lparr>sack := tcp_sack_state_zero\<lparr>high_data := initial_seq, high_rxt := initial_seq,
          rescue_rxt := initial_seq, recovery_point := initial_seq\<rparr>\<rparr>"

definition tcp_sack_state_reset :: "tcp_stream \<Rightarrow> u32 \<Rightarrow> tcp_stream" where
  "tcp_sack_state_reset tp initial_seq =
     tcp_sack_state_init (clear_retransmitted (clear_sacked tp)) initial_seq"

definition trim_lists :: "tcp_stream \<Rightarrow> u32 \<Rightarrow> tcp_stream" where
  "trim_lists tp flight_end =
     (if \<not> seq_lt (snd_una tp) flight_end then clear_retransmitted (clear_sacked tp)
      else let (tp, rs) = range_list_trim tp (sacked (sack tp)) (snd_una tp) flight_end;
               tp = tp\<lparr>sack := (sack tp)\<lparr>sacked := rs\<rparr>\<rparr>;
               (tp, rs) = range_list_trim tp (retransmitted (sack tp)) (snd_una tp) flight_end
           in tp\<lparr>sack := (sack tp)\<lparr>retransmitted := rs\<rparr>\<rparr>)"

definition tcp_sack_trim :: "tcp_stream \<Rightarrow> u32 \<Rightarrow> tcp_stream" where
  "tcp_sack_trim tp flight_end =
     (let tp = trim_lists tp flight_end;
          tp = (if degraded (sack tp) \<and> \<not> seq_lt (snd_una tp) (degraded_until (sack tp))
                then tp\<lparr>sack := (sack tp)\<lparr>degraded := False\<rparr>\<rparr> else tp);
          p = pending (sack tp)
      in if kind p \<noteq> TCP_RECOVERY_TX_NONE \<and>
            (\<not> seq_lt (cand_seq p) flight_end \<or> \<not> seq_lt (snd_una tp) (cand_end p))
         then tp\<lparr>sack := (sack tp)\<lparr>pending := tcp_recovery_candidate_zero\<rparr>\<rparr> else tp)"

record tcp_sack_ack_result =
  newly_sacked_bytes :: u32
  new_sack_information :: bool
  dsack_valid :: bool
  dsack :: tcp_sack_block
  dsack_covers_retransmission :: bool
  recovery_exited :: bool

text \<open>
  The loop of \<^verbatim>\<open>tcp_sack_update\<close> over the blocks that are not a D-SACK: the running byte count,
  or \<open>None\<close> after \<^verbatim>\<open>sack_degrade\<close>.
\<close>

fun sack_add_blocks ::
  "(nat \<Rightarrow> bool) \<Rightarrow> tcp_stream \<Rightarrow> tcp_sack_block list \<Rightarrow> u32 \<Rightarrow> u32 \<Rightarrow> tcp_stream \<times> u32 option" where
  "sack_add_blocks pool tp [] flight_end newly = (tp, Some newly)"
| "sack_add_blocks pool tp (b # bs) flight_end newly =
     (let left = (if seq_lt (blk_left b) (snd_una tp) then snd_una tp else blk_left b);
          right = (if seq_gt (blk_right b) flight_end then flight_end else blk_right b)
      in if \<not> seq_lt left right then sack_add_blocks (\<lambda>i. pool (Suc i)) tp bs flight_end newly
         else let (added, tp, rs) = range_insert (pool 0) tp (sacked (sack tp)) left right 1;
                  tp = tp\<lparr>sack := (sack tp)\<lparr>sacked := rs\<rparr>\<rparr>
              in if added = UINT32_MAX then (sack_degrade tp, None)
                 else sack_add_blocks (\<lambda>i. pool (Suc i)) tp bs flight_end (newly + added))"

definition sack_recovery_exit :: "tcp_stream \<Rightarrow> bool \<times> tcp_stream" where
  "sack_recovery_exit tp =
     (if (mode (sack tp) = TCP_RECOVERY_SACK \<or> mode (sack tp) = TCP_RECOVERY_RTO) \<and>
         \<not> seq_lt (snd_una tp) (recovery_point (sack tp))
      then (True, tp\<lparr>sack := (sack tp)\<lparr>mode := TCP_RECOVERY_NORMAL, pipe := 0, dup_acks := 0,
              limited_transmit := False, pending := tcp_recovery_candidate_zero\<rparr>\<rparr>)
      else (False, tp))"

definition first_block_is_dsack :: "u32 \<Rightarrow> tcp_sack_block list \<Rightarrow> bool" where
  "first_block_is_dsack packet_ack blocks =
     (case blocks of [] \<Rightarrow> False
      | [b0] \<Rightarrow> seq_leq (blk_right b0) packet_ack
      | b0 # b1 # _ \<Rightarrow> seq_leq (blk_right b0) packet_ack \<or> block_contains b1 b0)"

definition tcp_sack_update ::
  "(nat \<Rightarrow> bool) \<Rightarrow> tcp_stream \<Rightarrow> u32 \<Rightarrow> tcp_sack_block list \<Rightarrow> u32
   \<Rightarrow> tcp_sack_ack_result \<times> tcp_stream" where
  "tcp_sack_update pool tp packet_ack blocks flight_end =
     (let tp = tcp_sack_trim tp flight_end;
          blocks = take TCP_SACK_MAX_BLOCKS blocks;
          first_is_dsack = first_block_is_dsack packet_ack blocks;
          result = \<lparr>newly_sacked_bytes = 0, new_sack_information = False,
             dsack_valid = first_is_dsack,
             dsack = (if first_is_dsack then hd blocks else tcp_sack_block_zero),
             dsack_covers_retransmission = first_is_dsack \<and>
                range_intersects (retransmitted (sack tp)) (blk_left (hd blocks)) (blk_right (hd blocks)),
             recovery_exited = False\<rparr>;
          (tp, newly) =
             (if degraded (sack tp) \<or> \<not> sack_permitted tp \<or> \<not> seq_lt (snd_una tp) flight_end
              then (tp, None)
              else sack_add_blocks pool tp (if first_is_dsack then tl blocks else blocks) flight_end 0);
          result = (case newly of None \<Rightarrow> result
                    | Some n \<Rightarrow> result\<lparr>newly_sacked_bytes := n, new_sack_information := n \<noteq> 0\<rparr>);
          (exited, tp) = sack_recovery_exit tp
      in (result\<lparr>recovery_exited := exited\<rparr>, tp))"

subsection \<open>Loss estimation\<close>

definition sack_smss :: "tcp_stream \<Rightarrow> u32" where
  "sack_smss tp = (if snd_mss tp \<noteq> 0 then ucast (snd_mss tp) else ucast TCP_DEFAULT_MSS)"

fun is_lost_loop :: "u32 \<Rightarrow> u32 \<Rightarrow> tcp_sack_range list \<Rightarrow> u32 \<Rightarrow> u32 \<Rightarrow> bool" where
  "is_lost_loop smss seq [] bytes_above discontiguous = False"
| "is_lost_loop smss seq (r # rs) bytes_above discontiguous =
     (if \<not> seq_gt (rng_right r) seq then is_lost_loop smss seq rs bytes_above discontiguous
      else let left = (if seq_gt (rng_left r) seq then rng_left r else seq);
               bytes_above = (if seq_lt left (rng_right r) then bytes_above + (rng_right r - left)
                              else bytes_above);
               discontiguous = (if seq_gt (rng_left r) seq then discontiguous + 1 else discontiguous)
           in if discontiguous \<ge> TCP_SACK_DUP_THRESH \<or>
                 bytes_above > (TCP_SACK_DUP_THRESH - 1) * smss
              then True else is_lost_loop smss seq rs bytes_above discontiguous)"

definition tcp_sack_is_lost :: "tcp_stream \<Rightarrow> u32 \<Rightarrow> bool" where
  "tcp_sack_is_lost tp seq = is_lost_loop (sack_smss tp) seq (sacked (sack tp)) 0 0"

fun overlap_loop :: "u32 \<Rightarrow> tcp_sack_range list \<Rightarrow> u32 \<Rightarrow> u32 \<Rightarrow> u32 \<Rightarrow> u32" where
  "overlap_loop high [] left right bytes = bytes"
| "overlap_loop high (r # rs) left right bytes =
     (if \<not> seq_lt (rng_left r) right then bytes
      else if \<not> seq_lt left (rng_right r) then overlap_loop high rs left right bytes
      else let l = (if seq_gt left (rng_left r) then left else rng_left r);
               rr = (if seq_lt right (rng_right r) then right else rng_right r)
           in overlap_loop high rs left right
                (if seq_lt l rr \<and> seq_lt l high
                 then bytes + ((if seq_gt rr high then high else rr) - l) else bytes))"

definition retransmitted_overlap :: "tcp_stream \<Rightarrow> u32 \<Rightarrow> u32 \<Rightarrow> u32" where
  "retransmitted_overlap tp left right =
     overlap_loop (high_rxt (sack tp)) (retransmitted (sack tp)) left right 0"

lemma midpoint:
  assumes "(lo :: u32) < hi"
  shows "lo \<le> lo + (hi - lo) div 2" "lo + (hi - lo) div 2 < hi"
    "unat (lo + (hi - lo) div 2 + 1) = unat lo + (unat hi - unat lo) div 2 + 1"
proof -
  have d: "unat (hi - lo) = unat hi - unat lo" using assms by (simp add: unat_sub)
  have lt: "unat lo < unat hi" using assms by (simp add: word_less_nat_alt)
  have m: "unat (lo + (hi - lo) div 2) = unat lo + (unat hi - unat lo) div 2"
    using lt unat_u32_lt [of hi] by (simp add: unat_add_u32 unat_div d)
  show "lo \<le> lo + (hi - lo) div 2" "lo + (hi - lo) div 2 < hi"
    using lt by (auto simp: word_le_nat_alt word_less_nat_alt m)
  have "unat (lo + (hi - lo) div 2) + 1 < 4294967296"
    using lt unat_u32_lt [of hi] m by linarith
  then show "unat (lo + (hi - lo) div 2 + 1) = unat lo + (unat hi - unat lo) div 2 + 1"
    using unat_add_u32 [of "lo + (hi - lo) div 2" 1] m by simp
qed

text \<open>The binary search of \<^verbatim>\<open>pipe_for_unsacked\<close> for the first offset that is not lost.\<close>

function first_not_lost :: "tcp_stream \<Rightarrow> u32 \<Rightarrow> u32 \<Rightarrow> u32 \<Rightarrow> u32" where
  "first_not_lost tp left lo hi =
     (if lo < hi then
        let mid = lo + (hi - lo) div 2 in
        if tcp_sack_is_lost tp (left + mid) then first_not_lost tp left (mid + 1) hi
        else first_not_lost tp left lo mid
      else lo)"
  by pat_completeness auto

termination
proof (relation "measure (\<lambda>(tp, left, lo, hi). unat hi - unat lo)", goal_cases)
  case (2 tp left lo hi mid)
  then show ?case using midpoint [of lo hi] by (simp add: word_less_nat_alt)
next
  case (3 tp left lo hi mid)
  then show ?case using midpoint [of lo hi] by (simp add: word_less_nat_alt word_le_nat_alt)
qed simp

definition pipe_for_unsacked :: "tcp_stream \<Rightarrow> u32 \<Rightarrow> u32 \<Rightarrow> u32" where
  "pipe_for_unsacked tp left right =
     (let pipe = retransmitted_overlap tp left right in
      if \<not> seq_lt left right then pipe
      else if \<not> tcp_sack_is_lost tp left then pipe + (right - left)
      else pipe + (right - (left + first_not_lost tp left 0 (right - left))))"

fun set_pipe_loop :: "tcp_stream \<Rightarrow> tcp_sack_range list \<Rightarrow> u32 \<Rightarrow> u32 \<Rightarrow> u32 \<Rightarrow> u32 \<times> u32" where
  "set_pipe_loop tp [] flight_end cursor acc = (cursor, acc)"
| "set_pipe_loop tp (r # rs) flight_end cursor acc =
     (if \<not> seq_lt cursor flight_end then (cursor, acc)
      else set_pipe_loop tp rs flight_end
             (if seq_gt (rng_right r) cursor then rng_right r else cursor)
             (if seq_lt cursor (rng_left r)
              then acc + pipe_for_unsacked tp cursor (seq_min (rng_left r) flight_end) else acc))"

definition tcp_sack_set_pipe :: "tcp_stream \<Rightarrow> u32 \<Rightarrow> u32 \<times> tcp_stream" where
  "tcp_sack_set_pipe tp flight_end =
     (let (cursor, p) = set_pipe_loop tp (sacked (sack tp)) flight_end (snd_una tp) 0;
          p = (if seq_lt cursor flight_end then p + pipe_for_unsacked tp cursor flight_end else p)
      in (p, tp\<lparr>sack := (sack tp)\<lparr>pipe := p\<rparr>\<rparr>))"

subsection \<open>Choosing the next segment\<close>

definition candidate_set ::
  "tcp_stream \<Rightarrow> tcp_recovery_tx_kind \<Rightarrow> u8 \<Rightarrow> bool \<Rightarrow> u32 \<Rightarrow> u32 \<Rightarrow> bool \<times> tcp_stream" where
  "candidate_set tp k rule resc seq end_seq =
     (if \<not> seq_lt seq end_seq then (False, tp)
      else let end_seq = (if end_seq - seq > sack_smss tp then seq + sack_smss tp else end_seq)
           in (True, tp\<lparr>sack := (sack tp)\<lparr>pending :=
                 \<lparr>kind = k, nextseg_rule = rule, rescue = resc, cand_seq = seq, cand_end = end_seq\<rparr>\<rparr>\<rparr>))"

fun find_unsacked :: "tcp_sack_range list \<Rightarrow> u32 \<Rightarrow> u32 \<Rightarrow> (u32 \<times> u32) option" where
  "find_unsacked [] cursor right = (if seq_lt cursor right then Some (cursor, right) else None)"
| "find_unsacked (r # rs) cursor right =
     (if \<not> seq_lt cursor right then None
      else if \<not> seq_lt (rng_right r) cursor \<and> seq_lt cursor (rng_left r)
      then Some (cursor, seq_min (rng_left r) right)
      else find_unsacked rs (if seq_gt (rng_right r) cursor then rng_right r else cursor) right)"

definition highest_sacked :: "tcp_stream \<Rightarrow> u32" where
  "highest_sacked tp =
     foldl (\<lambda>highest r. if seq_gt (rng_right r) highest then rng_right r else highest)
       (snd_una tp) (sacked (sack tp))"

fun find_highest_unsacked ::
  "tcp_sack_range list \<Rightarrow> u32 \<Rightarrow> u32 \<Rightarrow> (u32 \<times> u32) option \<Rightarrow> (u32 \<times> u32) option" where
  "find_highest_unsacked [] cursor right found =
     (if seq_lt cursor right then Some (cursor, right) else found)"
| "find_highest_unsacked (r # rs) cursor right found =
     (if \<not> seq_lt cursor right then found
      else find_highest_unsacked rs (if seq_gt (rng_right r) cursor then rng_right r else cursor) right
             (if seq_lt cursor (rng_left r) then Some (cursor, seq_min (rng_left r) right) else found))"

definition tcp_sack_enter_recovery :: "tcp_stream \<Rightarrow> tcp_recovery_mode \<Rightarrow> u32 \<Rightarrow> tcp_stream" where
  "tcp_sack_enter_recovery tp m flight_end =
     (let end_seq = seq_min (snd_una tp + sack_smss tp) flight_end;
          tp = tp\<lparr>sack := (sack tp)\<lparr>mode := m, recovery_point := flight_end,
                  high_rxt := snd_una tp, rescue_rxt := snd_una tp, limited_transmit := False\<rparr>\<rparr>
      in snd (candidate_set tp TCP_RECOVERY_TX_RETRANSMIT 1 False (snd_una tp) end_seq))"

definition tcp_sack_schedule_newreno_partial :: "tcp_stream \<Rightarrow> u32 \<Rightarrow> bool \<times> tcp_stream" where
  "tcp_sack_schedule_newreno_partial tp flight_end =
     (if mode (sack tp) \<noteq> TCP_RECOVERY_NEWRENO \<or> \<not> seq_lt (snd_una tp) flight_end then (False, tp)
      else let end_seq = seq_min (snd_una tp + sack_smss tp) flight_end;
               tp = tp\<lparr>sack := (sack tp)\<lparr>pending := tcp_recovery_candidate_zero\<rparr>\<rparr>
           in candidate_set tp TCP_RECOVERY_TX_RETRANSMIT 1 False (snd_una tp) end_seq)"

definition tcp_sack_on_rto :: "tcp_stream \<Rightarrow> u32 \<Rightarrow> tcp_stream" where
  "tcp_sack_on_rto tp flight_end =
     (let tp = clear_sacked tp;
          tp = tp\<lparr>sack := (sack tp)\<lparr>degraded := False, dup_acks := 0\<rparr>\<rparr>
      in tcp_sack_enter_recovery tp TCP_RECOVERY_RTO flight_end)"

text \<open>
  Going forward from \<open>a\<close> to \<open>b\<close> towards \<open>c\<close> brings \<open>c\<close> nearer, whatever the three numbers are; the
  loop of NextSeg rule 1 ends for this reason on any list.
\<close>

lemma seq_lt_unat: "seq_lt a b \<longleftrightarrow> a \<noteq> b \<and> unat (b - a) \<le> 2147483648"
proof (cases "a = b")
  case False
  have "unat (a - b) = 4294967296 - unat (b - a)"
    using unat_neg_u32 [of "b - a"] False by simp
  then show ?thesis
    using False unat_u32_lt [of "b - a"] by (auto simp: seq_lt_def sint_neg_iff)
qed (simp add: seq_lt_def)

lemma seq_lt_nearer:
  assumes "seq_lt a b" "seq_lt a c" "seq_lt b c \<or> b = c"
  shows "unat (c - b) < unat (c - a)"
proof -
  have pos: "0 < unat (b - a)" "0 < unat (c - a)"
    using assms by (auto simp: seq_lt_unat unat_gt_0)
  have "c - a = (c - b) + (b - a)" by simp
  then have "unat (c - a) = (unat (c - b) + unat (b - a)) mod 4294967296"
    by (simp only: unat_add_u32)
  moreover have "unat (b - a) \<le> 2147483648" "unat (c - b) \<le> 2147483648"
    using assms by (auto simp: seq_lt_unat)
  ultimately show ?thesis
    using pos by (cases "unat (c - b) + unat (b - a) = 4294967296") auto
qed

lemma find_unsacked_lt: "find_unsacked rs cursor right = Some x \<Longrightarrow> seq_lt cursor right"
  by (cases rs) (auto split: if_splits)

lemma find_unsacked_nearer:
  "find_unsacked rs cursor right = Some (l, r) \<Longrightarrow> unat (right - r) < unat (right - cursor)"
proof (induction rs cursor right rule: find_unsacked.induct)
  case (1 cursor right)
  then show ?case by (auto simp: seq_lt_unat unat_gt_0 split: if_splits)
next
  case (2 x rs cursor right)
  have lt: "seq_lt cursor right" using 2(2) by (rule find_unsacked_lt)
  show ?case
  proof (cases "\<not> seq_lt (rng_right x) cursor \<and> seq_lt cursor (rng_left x)")
    case True
    then have "r = seq_min (rng_left x) right" using 2(2) lt by simp
    then show ?thesis
      using True lt seq_lt_nearer [of cursor "rng_left x" right]
      by (auto simp: seq_min_def seq_lt_unat unat_gt_0)
  next
    case False
    let ?c = "if seq_gt (rng_right x) cursor then rng_right x else cursor"
    have rec: "find_unsacked rs ?c right = Some (l, r)"
      using 2(2) lt False by (simp split: if_splits)
    moreover have "unat (right - ?c) \<le> unat (right - cursor)"
      using find_unsacked_lt [OF rec] lt seq_lt_nearer [of cursor ?c right] by (auto simp: seq_gt_def)
    ultimately show ?thesis
      using 2(1) lt False by (auto intro: less_le_trans)
  qed
qed

text \<open>NextSeg rule 1: the first unsacked gap below \<open>highest\<close> that is lost.\<close>

function next_lost_gap :: "tcp_stream \<Rightarrow> u32 \<Rightarrow> u32 \<Rightarrow> (u32 \<times> u32) option" where
  "next_lost_gap tp left highest =
     (case find_unsacked (sacked (sack tp)) left highest of None \<Rightarrow> None
      | Some (l, r) \<Rightarrow> if tcp_sack_is_lost tp l then Some (l, r) else next_lost_gap tp r highest)"
  by pat_completeness auto
termination
  by (relation "measure (\<lambda>(tp, left, highest). unat (highest - left))") (auto dest: find_unsacked_nearer)

declare next_lost_gap.simps [simp del]

definition next_rescue :: "tcp_stream \<Rightarrow> bool \<times> tcp_stream" where
  "next_rescue tp =
     (if \<not> seq_lt (snd_una tp) (rescue_rxt (sack tp)) then
        (case find_highest_unsacked (sacked (sack tp)) (snd_una tp) (high_data (sack tp)) None of
           None \<Rightarrow> (False, tp)
         | Some (l, r) \<Rightarrow>
             let start = (if r - l > sack_smss tp then r - sack_smss tp else l)
             in candidate_set tp TCP_RECOVERY_TX_RETRANSMIT 4 True start r)
      else (False, tp))"

definition tcp_sack_schedule_next :: "tcp_stream \<Rightarrow> u32 \<Rightarrow> bool \<Rightarrow> bool \<times> tcp_stream" where
  "tcp_sack_schedule_next tp sndbuf_end allow_new_data =
     (if kind (pending (sack tp)) \<noteq> TCP_RECOVERY_TX_NONE then (True, tp)
      else if degraded (sack tp) then (False, tp)
      else if mode (sack tp) = TCP_RECOVERY_RTO then
        (case find_unsacked (sacked (sack tp)) (snd_una tp) (high_data (sack tp)) of
           None \<Rightarrow> (False, tp)
         | Some (l, r) \<Rightarrow> candidate_set tp TCP_RECOVERY_TX_RETRANSMIT 1 False l r)
      else if mode (sack tp) \<noteq> TCP_RECOVERY_SACK then (False, tp)
      else let highest = highest_sacked tp;
               left = (if seq_gt (high_rxt (sack tp)) (snd_una tp) then high_rxt (sack tp)
                       else snd_una tp)
        in case next_lost_gap tp left highest of
             Some (l, r) \<Rightarrow> candidate_set tp TCP_RECOVERY_TX_RETRANSMIT 1 False l r
           | None \<Rightarrow>
             if allow_new_data \<and> seq_lt (high_data (sack tp)) sndbuf_end then
               candidate_set tp TCP_RECOVERY_TX_NEW_DATA 2 False (high_data (sack tp)) sndbuf_end
             else (case find_unsacked (sacked (sack tp)) left highest of
                     Some (l, r) \<Rightarrow> candidate_set tp TCP_RECOVERY_TX_RETRANSMIT 3 False l r
                   | None \<Rightarrow> next_rescue tp))"

definition tcp_sack_commit_candidate :: "bool \<Rightarrow> tcp_stream \<Rightarrow> u32 \<Rightarrow> tcp_stream" where
  "tcp_sack_commit_candidate pool_ok tp sent_end =
     (let candidate = pending (sack tp);
          finish = (\<lambda>tp. tp\<lparr>sack := (sack tp)\<lparr>
             pipe := (if mode (sack tp) = TCP_RECOVERY_SACK
                      then pipe (sack tp) + (sent_end - cand_seq candidate) else pipe (sack tp)),
             pending := tcp_recovery_candidate_zero\<rparr>\<rparr>)
      in if kind candidate = TCP_RECOVERY_TX_NONE \<or> \<not> seq_lt (cand_seq candidate) sent_end then tp
         else if kind candidate = TCP_RECOVERY_TX_NEW_DATA then
           finish (if seq_gt sent_end (high_data (sack tp))
                   then tp\<lparr>sack := (sack tp)\<lparr>high_data := sent_end\<rparr>\<rparr> else tp)
         else let (added, tp, rs) = range_insert pool_ok tp (retransmitted (sack tp))
                                      (cand_seq candidate) sent_end 2;
                  tp = tp\<lparr>sack := (sack tp)\<lparr>retransmitted := rs\<rparr>\<rparr>
              in if added = UINT32_MAX then sack_degrade tp
                 else finish (if rescue candidate
                        then tp\<lparr>sack := (sack tp)\<lparr>rescue_rxt := recovery_point (sack tp)\<rparr>\<rparr>
                        else if seq_gt sent_end (high_rxt (sack tp))
                        then tp\<lparr>sack := (sack tp)\<lparr>high_rxt := sent_end\<rparr>\<rparr> else tp))"

definition tcp_sack_cancel_candidate :: "tcp_stream \<Rightarrow> tcp_stream" where
  "tcp_sack_cancel_candidate tp = tp\<lparr>sack := (sack tp)\<lparr>pending := tcp_recovery_candidate_zero\<rparr>\<rparr>"

definition tcp_sack_note_new_data :: "tcp_stream \<Rightarrow> u32 \<Rightarrow> tcp_stream" where
  "tcp_sack_note_new_data tp end_seq =
     (if seq_gt end_seq (high_data (sack tp)) then tp\<lparr>sack := (sack tp)\<lparr>high_data := end_seq\<rparr>\<rparr>
      else tp)"

definition tcp_sack_score_count :: "tcp_stream \<Rightarrow> u16" where
  "tcp_sack_score_count tp = of_nat (length (sacked (sack tp)))"

end
