(* ===== verification/Tcp_Sack_Spec.thy ===== *)
theory Tcp_Sack_Spec
  imports Tcp_Sack
begin

text \<open>
  What the scoreboard promises. A range list denotes a set of bytes, given by their offsets from a
  base sequence number; all sequence numbers involved lie in one half of the sequence space after
  that base. \<open>ranges_ok\<close> is the representation invariant: ranges are non-empty, sorted and
  separated by at least one byte.
\<close>

subsection \<open>Range lists as sets of bytes\<close>

fun ranges_ok :: "u32 \<Rightarrow> nat \<Rightarrow> nat \<Rightarrow> tcp_sack_range list \<Rightarrow> bool" where
  "ranges_ok b lo hi [] \<longleftrightarrow> True"
| "ranges_ok b lo hi (r # rs) \<longleftrightarrow>
     lo \<le> seq_off b (rng_left r) \<and> seq_off b (rng_left r) < seq_off b (rng_right r) \<and>
     seq_off b (rng_right r) \<le> hi \<and> ranges_ok b (Suc (seq_off b (rng_right r))) hi rs"

fun range_bytes :: "u32 \<Rightarrow> tcp_sack_range list \<Rightarrow> nat set" where
  "range_bytes b [] = {}"
| "range_bytes b (r # rs) = {seq_off b (rng_left r)..<seq_off b (rng_right r)} \<union> range_bytes b rs"

lemma finite_range_bytes [simp]: "finite (range_bytes b rs)"
  by (induction rs) auto

lemma ranges_ok_mono: "ranges_ok b lo hi rs \<Longrightarrow> lo' \<le> lo \<Longrightarrow> hi \<le> hi' \<Longrightarrow> ranges_ok b lo' hi' rs"
  by (induction rs arbitrary: lo lo') auto

lemma ranges_ok_bytes: "ranges_ok b lo hi rs \<Longrightarrow> range_bytes b rs \<subseteq> {lo..<hi}"
  by (induction rs arbitrary: lo) fastforce+

lemma ranges_ok_append:
  "ranges_ok b lo hi (xs @ ys) \<longleftrightarrow>
     ranges_ok b lo hi xs \<and>
     ranges_ok b (if xs = [] then lo else Suc (seq_off b (rng_right (last xs)))) hi ys"
  by (induction xs arbitrary: lo) auto

lemma range_bytes_append: "range_bytes b (xs @ ys) = range_bytes b xs \<union> range_bytes b ys"
  by (induction xs) auto

lemma seq_lt_off: "\<lbrakk>seq_off b x < HALF; seq_off b y < HALF\<rbrakk> \<Longrightarrow> seq_lt x y \<longleftrightarrow> seq_off b x < seq_off b y"
  by (rule sq.lt_window) (simp_all add: in_half_def)

lemma seq_leq_off:
  "\<lbrakk>seq_off b x < HALF; seq_off b y < HALF\<rbrakk> \<Longrightarrow> seq_leq x y \<longleftrightarrow> seq_off b x \<le> seq_off b y"
proof -
  assume a: "seq_off b x < HALF" "seq_off b y < HALF"
  have "sint (x - y) = 0 \<longleftrightarrow> x = y" by (metis right_minus_eq signed_0 signed_word_eqI)
  then have "seq_leq x y \<longleftrightarrow> seq_lt x y \<or> x = y"
    unfolding seq_leq_def seq_lt_def by linarith
  then show ?thesis using a by (simp add: seq_lt_off seq_off_inj [of b, symmetric] le_less)
qed

lemma interval_overlap_card:
  "card ({a..<c} \<inter> ({x..<y} \<union> S)) = (min c y - max a x) + card ({a..<c} \<inter> S)"
  if "S \<subseteq> {Suc y..}" "finite S" for a c x y :: nat
proof -
  have "{a..<c} \<inter> ({x..<y} \<union> S) = {max a x..<min c y} \<union> ({a..<c} \<inter> S)" by auto
  moreover have "{max a x..<min c y} \<inter> ({a..<c} \<inter> S) = {}"
    using that by fastforce
  ultimately show ?thesis using that by (simp add: card_Un_disjoint)
qed

subsection \<open>Node accounting\<close>

lemma range_free_count:
  "k \<le> unat (range_count (sack tp)) \<Longrightarrow>
     (range_free ^^ k) tp = tp\<lparr>sack := (sack tp)\<lparr>range_count := range_count (sack tp) - of_nat k\<rparr>\<rparr>"
proof (induction k)
  case (Suc k)
  let ?c = "range_count (sack tp) - of_nat k"
  have k: "unat (of_nat k :: u16) = k"
    using Suc.prems unat_u16_lt [of "range_count (sack tp)"] by (simp add: unat_of_nat)
  have "unat ?c = unat (range_count (sack tp)) - k"
    using Suc.prems k by (simp add: unat_sub word_le_nat_alt)
  then have "?c \<noteq> 0" using Suc.prems by (metis Suc_le_lessD unat_0 zero_less_diff less_irrefl)
  then show ?case using Suc by (simp add: range_free_def algebra_simps)
qed simp

lemma range_list_clear_free: "range_list_clear tp rs = (range_free ^^ length rs) tp"
  by (induction rs arbitrary: tp) (simp_all add: funpow_swap1)

subsection \<open>Insertion is union\<close>

definition merged ::
  "u32 \<Rightarrow> nat \<Rightarrow> nat \<Rightarrow> tcp_sack_range list \<Rightarrow> u32 \<Rightarrow> u32 \<Rightarrow> u32 \<Rightarrow> u32 \<Rightarrow> u32
   \<Rightarrow> tcp_sack_range list \<Rightarrow> u32 \<Rightarrow> u32 \<Rightarrow> u32 \<Rightarrow> bool" where
  "merged b lo hi rs ol oright left right newly rest left' right' newly' \<longleftrightarrow>
     ranges_ok b (Suc (seq_off b right')) hi rest \<and>
     min lo (seq_off b left) \<le> seq_off b left' \<and> seq_off b left' \<le> seq_off b left \<and>
     seq_off b right \<le> seq_off b right' \<and> seq_off b right' \<le> hi \<and>
     {seq_off b left'..<seq_off b right'} \<union> range_bytes b rest
       = {seq_off b left..<seq_off b right} \<union> range_bytes b rs \<and>
     unat newly' = unat newly - card ({seq_off b ol..<seq_off b oright} \<inter> range_bytes b rs)"

lemma range_merge_spec:
  assumes "ranges_ok b lo hi rs" "hi < HALF"
    and "seq_off b left \<le> seq_off b ol" "seq_off b ol < seq_off b oright"
    and "seq_off b oright \<le> seq_off b right" "seq_off b right \<le> hi"
    and "\<forall>r \<in> set rs. seq_off b left \<le> seq_off b (rng_right r)"
    and "card ({seq_off b ol..<seq_off b oright} \<inter> range_bytes b rs) \<le> unat newly"
    and "range_merge tp rs ol oright left right newly reuse = (tp', rest, left', right', newly', reuse')"
  shows "merged b lo hi rs ol oright left right newly rest left' right' newly'"
  using assms
proof (induction rs arbitrary: lo left right newly reuse tp)
  case Nil
  then show ?case by (auto simp: merged_def)
next
  case (Cons r rs)
  let ?x = "seq_off b (rng_left r)" and ?y = "seq_off b (rng_right r)"
  let ?L = "seq_off b left" and ?R = "seq_off b right"
  let ?a = "seq_off b ol" and ?c = "seq_off b oright"
  have r: "lo \<le> ?x" "?x < ?y" "?y \<le> hi" "ranges_ok b (Suc ?y) hi rs" using Cons.prems(1) by auto
  have tail: "range_bytes b rs \<subseteq> {Suc ?y..}"
    using ranges_ok_bytes [OF r(4)] by auto
  have half: "?x < HALF" "?y < HALF" "?L < HALF" "?R < HALF" "?a < HALF" "?c < HALF"
    using r Cons.prems by linarith+
  note lt = seq_gt_def seq_lt_off [of b]
  show ?case
  proof (cases "?R < ?x")
    case True
    then have "{?a..<?c} \<inter> range_bytes b (r # rs) = {}"
      using Cons.prems(5) tail r(2) by fastforce
    then show ?thesis
      using True Cons.prems half r by (auto simp: merged_def lt)
  next
    case False
    define l2 where "l2 = (if seq_lt (rng_left r) left then rng_left r else left)"
    define r2 where "r2 = (if seq_gt (rng_right r) right then rng_right r else right)"
    define ov where "ov = min ?c ?y - max ?a ?x"
    let ?ol = "if seq_gt (rng_left r) ol then rng_left r else ol"
    let ?or = "if seq_lt (rng_right r) oright then rng_right r else oright"
    define n2 where "n2 = (if seq_lt ?ol ?or then newly - (?or - ?ol) else newly)"
    have off2: "seq_off b l2 = min ?x ?L" "seq_off b r2 = max ?y ?R"
        "seq_off b ?ol = max ?a ?x" "seq_off b ?or = min ?c ?y"
      using half by (auto simp: l2_def r2_def lt)
    have card: "card ({?a..<?c} \<inter> range_bytes b (r # rs)) = ov + card ({?a..<?c} \<inter> range_bytes b rs)"
      using interval_overlap_card [OF tail] by (simp add: ov_def)
    have n2: "unat n2 = unat newly - ov"
    proof (cases "max ?a ?x < min ?c ?y")
      case True
      then have d: "unat (?or - ?ol) = ov"
        using seq_off_diff [of b ?ol ?or] off2(3,4) by (simp add: ov_def)
      moreover have "?or - ?ol \<le> newly"
        using d card Cons.prems(8) by (simp add: word_le_nat_alt)
      moreover have "seq_lt ?ol ?or"
        using True half off2(3,4) by (subst seq_lt_off [of b]) simp_all
      ultimately show ?thesis by (simp add: n2_def unat_sub)
    next
      case False
      then have "ov = 0" by (simp add: ov_def not_less del: max_less_iff_conj min_less_iff_conj)
      moreover have "\<not> seq_lt ?ol ?or"
        using False half off2(3,4) by (subst seq_lt_off [of b]) simp_all
      ultimately show ?thesis by (simp add: n2_def)
    qed
    have ng: "\<not> seq_gt (rng_left r) right" using False half by (simp add: lt)
    have eq: "range_merge (if reuse then range_free tp else tp) rs ol oright l2 r2 n2 True
        = (tp', rest, left', right', newly', reuse')"
      using Cons.prems(9) unfolding range_merge.simps Let_def if_not_P [OF ng] l2_def r2_def n2_def .
    have "merged b (Suc ?y) hi rs ol oright l2 r2 n2 rest left' right' newly'"
    proof (rule Cons.IH [OF r(4) Cons.prems(2) _ Cons.prems(4) _ _ _ _ eq])
      show "\<forall>z\<in>set rs. seq_off b l2 \<le> seq_off b (rng_right z)"
        using Cons.prems(7) off2 by auto
      show "card ({?a..<?c} \<inter> range_bytes b rs) \<le> unat n2"
        using card n2 Cons.prems(8) by linarith
    qed (use off2 Cons.prems r in auto)
    moreover have "{seq_off b l2..<seq_off b r2} = {?L..<?R} \<union> {?x..<?y}"
      using False Cons.prems(3-7) r unfolding off2 by auto
    ultimately have m: "ranges_ok b (Suc (seq_off b right')) hi rest"
        "min (Suc ?y) (min ?x ?L) \<le> seq_off b left'" "seq_off b left' \<le> min ?x ?L"
        "max ?y ?R \<le> seq_off b right'" "seq_off b right' \<le> hi"
        "{seq_off b left'..<seq_off b right'} \<union> range_bytes b rest = {?L..<?R} \<union> range_bytes b (r # rs)"
        "unat newly' = unat newly - card ({?a..<?c} \<inter> range_bytes b (r # rs))"
      unfolding merged_def off2 card n2 by (simp_all add: Un_assoc)
    have "min lo ?L \<le> seq_off b left'" "seq_off b left' \<le> ?L" "?R \<le> seq_off b right'"
      using m(2,3,4) r(1,2) by linarith+
    then show ?thesis
      unfolding merged_def using m(1,5,6,7) by blast
  qed
qed

lemma range_merge_nodes:
  assumes "range_merge tp rs ol oright left right newly reuse = (tp', rest, left', right', newly', reuse')"
  shows "length rest \<le> length rs \<and> (reuse' \<longleftrightarrow> reuse \<or> length rest < length rs) \<and>
    tp' = (range_free ^^ (length rs - length rest - (if reuse then 0 else 1))) tp \<and>
    (length rest < length rs \<or> (rest = rs \<and> left' = left \<and> right' = right \<and> newly' = newly))"
  using assms
proof (induction rs arbitrary: left right newly reuse tp)
  case (Cons r rs)
  show ?case
  proof (cases "seq_gt (rng_left r) right")
    case True
    then show ?thesis using Cons.prems by auto
  next
    case False
    then obtain l2 r2 n2 where
      eq: "range_merge (if reuse then range_free tp else tp) rs ol oright l2 r2 n2 True
        = (tp', rest, left', right', newly', reuse')"
      using Cons.prems by (simp only: range_merge.simps if_False Let_def)
    have "(range_free ^^ (Suc n)) tp = (range_free ^^ n) (range_free tp)" for n
      by (simp add: funpow_swap1)
    then show ?thesis using Cons.IH [OF eq] by (auto simp: Suc_diff_le)
  qed
qed auto

lemma ranges_ok_mem:
  "ranges_ok b lo hi rs \<Longrightarrow> r \<in> set rs \<Longrightarrow>
     lo \<le> seq_off b (rng_left r) \<and> seq_off b (rng_left r) < seq_off b (rng_right r) \<and> seq_off b (rng_right r) \<le> hi"
  by (induction rs arbitrary: lo) fastforce+

lemma ranges_ok_split:
  fixes l :: u32
  defines "P \<equiv> \<lambda>cur. seq_lt (rng_right cur) l"
  assumes ok: "ranges_ok b lo hi rs" and hi: "hi < HALF" "seq_off b l \<le> hi"
  obtains lo' where "ranges_ok b lo hi (takeWhile P rs)" "ranges_ok b lo' hi (dropWhile P rs)"
    "lo' = (if takeWhile P rs = [] then lo else Suc (seq_off b (rng_right (last (takeWhile P rs)))))"
    "takeWhile P rs = [] \<or> lo' \<le> seq_off b l"
    "\<forall>r \<in> set (dropWhile P rs). seq_off b l \<le> seq_off b (rng_right r)"
    "range_bytes b (takeWhile P rs) \<subseteq> {..<seq_off b l}"
proof -
  let ?t = "takeWhile P rs" and ?d = "dropWhile P rs"
  have P: "P r \<longleftrightarrow> seq_off b (rng_right r) < seq_off b l" if "r \<in> set rs" for r
    using ranges_ok_mem [OF ok that] hi by (simp add: P_def seq_lt_off)
  define lo' where "lo' = (if ?t = [] then lo else Suc (seq_off b (rng_right (last ?t))))"
  have ok2: "ranges_ok b lo hi ?t" "ranges_ok b lo' hi ?d"
    using ok ranges_ok_append [of b lo hi ?t ?d] by (simp_all add: lo'_def)
  have t: "seq_off b (rng_right r) < seq_off b l" if "r \<in> set ?t" for r
    using that P set_takeWhileD by metis
  have "seq_off b l \<le> seq_off b (rng_right r)" if "r \<in> set ?d" for r
  proof (cases ?d)
    case (Cons x xs)
    then have x: "seq_off b l \<le> seq_off b (rng_right x)"
      using P by (metis hd_dropWhile list.distinct(1) list.sel(1) list.set_intros(1) not_less set_dropWhileD)
    show ?thesis
      using that Cons x ok2(2) ranges_ok_mem [of b "Suc (seq_off b (rng_right x))" hi xs r] by fastforce
  next
    case Nil
    then show ?thesis using that by (simp only: list.set empty_iff)
  qed
  moreover have "range_bytes b xs \<subseteq> {..<n}" if "\<forall>r\<in>set xs. seq_off b (rng_right r) < n" for xs n
    using that by (induction xs) fastforce+
  ultimately show ?thesis
    using ok2 t that [of lo'] last_in_set [of ?t] by (simp add: lo'_def Suc_le_eq)
qed

text \<open>The node accounting of a stream: \<open>m\<close> nodes are in the other list.\<close>

definition nodes_ok :: "tcp_stream \<Rightarrow> tcp_sack_range list \<Rightarrow> nat \<Rightarrow> bool" where
  "nodes_ok tp rs m \<longleftrightarrow> unat (range_count (sack tp)) = length rs + m \<and> length rs + m \<le> 128"

definition inserted ::
  "u32 \<Rightarrow> nat \<Rightarrow> nat \<Rightarrow> nat \<Rightarrow> tcp_stream \<Rightarrow> tcp_sack_range list \<Rightarrow> u32 \<Rightarrow> u32 \<Rightarrow> u32 \<Rightarrow> tcp_stream
   \<Rightarrow> tcp_sack_range list \<Rightarrow> bool" where
  "inserted b lo hi m tp head left right n tp' rs \<longleftrightarrow>
     ranges_ok b lo hi rs \<and>
     range_bytes b rs = range_bytes b head \<union> {seq_off b left..<seq_off b right} \<and>
     unat n = card ({seq_off b left..<seq_off b right} - range_bytes b head) \<and>
     (\<exists>rc. tp' = tp\<lparr>sack := (sack tp)\<lparr>range_count := rc\<rparr>\<rparr>) \<and> nodes_ok tp' rs m \<and>
     length rs \<le> Suc (length head)"

lemma insert_list_spec:
  fixes left :: u32
  defines "P \<equiv> \<lambda>cur. seq_lt (rng_right cur) left"
  assumes ok: "ranges_ok b lo hi head" and hi: "hi < HALF"
    and lr: "lo \<le> seq_off b left" "seq_off b left < seq_off b right" "seq_off b right \<le> hi"
    and mg: "range_merge tp (dropWhile P head) left right left right (right - left) False
               = (tp1, after, l', r', n, reuse)"
    and rs: "rs = takeWhile P head @ \<lparr>rng_left = l', rng_right = r', rng_flags = fl\<rparr> # after"
  shows "ranges_ok b lo hi rs"
    and "range_bytes b rs = range_bytes b head \<union> {seq_off b left..<seq_off b right}"
    and "unat n = card ({seq_off b left..<seq_off b right} - range_bytes b head)"
proof -
  let ?t = "takeWhile P head" and ?d = "dropWhile P head"
  let ?I = "{seq_off b left..<seq_off b right}"
  obtain lo' where split: "ranges_ok b lo hi ?t" "ranges_ok b lo' hi ?d"
      "lo' = (if ?t = [] then lo else Suc (seq_off b (rng_right (last ?t))))"
      "?t = [] \<or> lo' \<le> seq_off b left" "\<forall>r \<in> set ?d. seq_off b left \<le> seq_off b (rng_right r)"
      "range_bytes b ?t \<subseteq> {..<seq_off b left}"
    using ranges_ok_split [OF ok hi, of left] lr unfolding P_def by auto
  have diff: "unat (right - left) = card ?I"
    using seq_off_diff [of b left right] lr by simp
  have "card (?I \<inter> range_bytes b ?d) \<le> unat (right - left)"
    unfolding diff by (rule card_mono) auto
  then have merged: "merged b lo' hi ?d left right left right (right - left) after l' r' n"
    using lr by (intro range_merge_spec [OF split(2) hi _ _ _ _ split(5) _ mg]) auto
  have bytes: "range_bytes b head = range_bytes b ?t \<union> range_bytes b ?d"
    using range_bytes_append [of b ?t ?d] by simp
  have lo': "lo' \<le> seq_off b left" using split(3,4) lr by auto
  show "ranges_ok b lo hi rs"
    using split(1,3) merged lo' lr by (auto simp: rs ranges_ok_append merged_def)
  show "range_bytes b rs = range_bytes b head \<union> ?I"
    using merged bytes by (auto simp: rs range_bytes_append merged_def)
  have "?I - range_bytes b head = ?I - ?I \<inter> range_bytes b ?d"
    using bytes split(6) by auto
  then show "unat n = card (?I - range_bytes b head)"
    using merged diff by (simp add: merged_def card_Diff_subset)
qed

lemma nodes_freed:
  assumes "nodes_ok tp rs m" "k \<le> length rs"
  shows "(range_free ^^ k) tp = tp\<lparr>sack := (sack tp)\<lparr>range_count := range_count (sack tp) - of_nat k\<rparr>\<rparr>"
    and "unat (range_count (sack tp) - of_nat k) = length rs - k + m"
proof -
  have k: "k \<le> unat (range_count (sack tp))" using assms by (auto simp: nodes_ok_def)
  then show "(range_free ^^ k) tp = tp\<lparr>sack := (sack tp)\<lparr>range_count := range_count (sack tp) - of_nat k\<rparr>\<rparr>"
    by (rule range_free_count)
  have "unat (of_nat k :: u16) = k"
    using k unat_u16_lt [of "range_count (sack tp)"] by (simp add: unat_of_nat)
  then show "unat (range_count (sack tp) - of_nat k) = length rs - k + m"
    using assms k by (simp add: unat_sub word_le_nat_alt nodes_ok_def)
qed

lemma range_insert_spec:
  assumes ok: "ranges_ok b lo hi head" and hi: "hi < HALF"
    and lr: "lo \<le> seq_off b left" "seq_off b left < seq_off b right" "seq_off b right \<le> hi"
    and nodes: "nodes_ok tp head m"
    and ins: "range_insert pool tp head left right fl = (n, tp', rs)"
  shows "(n = UINT32_MAX \<and> tp' = tp \<and> rs = head \<and> (\<not> pool \<or> length head + m = 128)) \<or>
         inserted b lo hi m tp head left right n tp' rs"
proof -
  let ?P = "\<lambda>cur. seq_lt (rng_right cur) left"
  let ?t = "takeWhile ?P head" and ?d = "dropWhile ?P head"
  obtain tp1 after l' r' n' reuse where
    mg: "range_merge tp ?d left right left right (right - left) False = (tp1, after, l', r', n', reuse)"
    by (metis prod_cases6)
  let ?rs = "?t @ \<lparr>rng_left = l', rng_right = r', rng_flags = fl\<rparr> # after"
  note nd = range_merge_nodes [OF mg] and ls = insert_list_spec [OF ok hi lr mg refl]
  have len: "length head = length ?t + length ?d"
    by (metis length_append takeWhile_dropWhile_id)
  have spec: "inserted b lo hi m tp head left right n' tp2 ?rs"
    if "tp2 = tp\<lparr>sack := (sack tp)\<lparr>range_count := rc\<rparr>\<rparr>" "unat rc = length ?rs + m" "length ?rs + m \<le> 128"
    for rc tp2
    using ls that nd len by (auto simp: inserted_def nodes_ok_def)
  show ?thesis
  proof (cases reuse)
    case True
    then have a: "length after < length ?d" using nd by auto
    note rn = nodes_freed [OF nodes, of "length ?d - length after - 1"]
    have "inserted b lo hi m tp head left right n' tp1 ?rs"
    proof (rule spec)
      show "tp1 = tp\<lparr>sack := (sack tp)\<lparr>range_count := range_count (sack tp)
          - of_nat (length ?d - length after - 1)\<rparr>\<rparr>"
        using rn(1) nd len by simp
    qed (use rn(2) a len nodes in \<open>auto simp: nodes_ok_def\<close>)
    then show ?thesis
      using ins True by (simp add: range_insert_def mg)
  next
    case False
    then have same: "after = ?d" "l' = left" "r' = right" "tp1 = tp" using nd by auto
    show ?thesis
    proof (cases "range_alloc pool tp")
      case None
      then show ?thesis
        using ins False same nodes
        by (auto simp: range_insert_def mg range_alloc_def nodes_ok_def word_le_nat_alt split: if_splits)
    next
      case (Some tp2)
      then have c: "tp2 = tp\<lparr>sack := (sack tp)\<lparr>range_count := range_count (sack tp) + 1\<rparr>\<rparr>"
          "unat (range_count (sack tp)) < 128"
        by (auto simp: range_alloc_def word_le_nat_alt split: if_splits)
      have "unat (range_count (sack tp) + 1) = unat (range_count (sack tp)) + 1"
        using c(2) by (simp add: unat_word_ariths)
      then have "inserted b lo hi m tp head left right n' tp2 ?rs"
        using c nodes len same by (intro spec [OF c(1)]) (auto simp: nodes_ok_def)
      then show ?thesis
        using ins False Some same by (simp add: range_insert_def mg)
    qed
  qed
qed

subsection \<open>Trimming is intersection\<close>

lemma range_list_trim_spec:
  assumes "ranges_ok b lo hi rs" "hi < HALF" "seq_off b l < seq_off b r" "seq_off b r < HALF"
    and "range_list_trim tp rs l r = (tp', rs')"
  shows "ranges_ok b (max lo (seq_off b l)) (min hi (seq_off b r)) rs' \<and>
    range_bytes b rs' = range_bytes b rs \<inter> {seq_off b l..<seq_off b r} \<and>
    length rs' \<le> length rs \<and> tp' = (range_free ^^ (length rs - length rs')) tp"
  using assms
proof (induction rs arbitrary: lo tp rs')
  case (Cons x rs)
  let ?x = "seq_off b (rng_left x)" and ?y = "seq_off b (rng_right x)"
  let ?L = "seq_off b l" and ?R = "seq_off b r"
  have x: "lo \<le> ?x" "?x < ?y" "?y \<le> hi" "ranges_ok b (Suc ?y) hi rs" using Cons.prems(1) by auto
  note lt = seq_gt_def seq_lt_off [of b]
  show ?case
  proof (cases "?x < ?R \<and> ?L < ?y")
    case False
    then have eq: "range_list_trim (range_free tp) rs l r = (tp', rs')"
      using Cons.prems x by (auto simp: lt)
    have e: "{?x..<?y} \<inter> {?L..<?R} = {}" using False by auto
    note ih = Cons.IH [OF x(4) Cons.prems(2-4) eq]
    have "ranges_ok b (max lo ?L) (min hi ?R) rs'"
      using ih x by (auto elim!: ranges_ok_mono)
    then show ?thesis
      using ih unfolding range_bytes.simps Int_Un_distrib2 e by (simp add: Suc_diff_le funpow_swap1)
  next
    case True
    then obtain rest where eq: "range_list_trim tp rs l r = (tp', rest)"
      using Cons.prems x by (auto simp: lt Let_def split: prod.splits)
    define z where "z = (let c = (if seq_lt (rng_left x) l then x\<lparr>rng_left := l\<rparr> else x)
        in if seq_gt (rng_right c) r then c\<lparr>rng_right := r\<rparr> else c)"
    have z: "seq_off b (rng_left z) = max ?x ?L" "seq_off b (rng_right z) = min ?y ?R"
      using x True Cons.prems(2-4) by (simp_all add: z_def Let_def lt)
    have rs': "rs' = z # rest"
      using Cons.prems(5) eq True x Cons.prems(2-4)
      by (simp only: range_list_trim.simps z_def Let_def lt prod.case split: if_splits) auto
    note ih = Cons.IH [OF x(4) Cons.prems(2-4) eq]
    have "ranges_ok b (Suc (min ?y ?R)) (min hi ?R) rest"
      using ih by (auto elim!: ranges_ok_mono)
    moreover have "max lo ?L \<le> max ?x ?L" "max ?x ?L < min ?y ?R" "min ?y ?R \<le> min hi ?R"
      using x True Cons.prems(3) by linarith+
    ultimately have "ranges_ok b (max lo ?L) (min hi ?R) rs'"
      unfolding rs' ranges_ok.simps z by blast
    moreover have "{?x..<?y} \<inter> {?L..<?R} = {max ?x ?L..<min ?y ?R}" by auto
    then have "range_bytes b rs' = range_bytes b (x # rs) \<inter> {?L..<?R}"
      using ih by (simp add: rs' z Int_Un_distrib2)
    ultimately show ?thesis
      using ih by (simp add: rs')
  qed
qed simp

subsection \<open>The representation invariant of a stream's scoreboard\<close>

definition board_ok :: "u32 \<Rightarrow> nat \<Rightarrow> nat \<Rightarrow> tcp_stream \<Rightarrow> bool" where
  "board_ok b lo hi tp \<longleftrightarrow>
     hi < HALF \<and> ranges_ok b lo hi (sacked (sack tp)) \<and> ranges_ok b lo hi (retransmitted (sack tp)) \<and>
     nodes_ok tp (sacked (sack tp)) (length (retransmitted (sack tp)))"

abbreviation sacked_bytes :: "u32 \<Rightarrow> tcp_stream \<Rightarrow> nat set" where
  "sacked_bytes b tp \<equiv> range_bytes b (sacked (sack tp))"

abbreviation retransmitted_bytes :: "u32 \<Rightarrow> tcp_stream \<Rightarrow> nat set" where
  "retransmitted_bytes b tp \<equiv> range_bytes b (retransmitted (sack tp))"

lemma u16_of_unat: "unat (w :: u16) = m \<Longrightarrow> w = of_nat m"
  by auto

lemma clear_sacked_eq:
  "nodes_ok tp (sacked (sack tp)) m \<Longrightarrow>
     clear_sacked tp = tp\<lparr>sack := (sack tp)\<lparr>range_count := of_nat m, sacked := []\<rparr>\<rparr>"
  using nodes_freed(1) [of tp "sacked (sack tp)" m "length (sacked (sack tp))"]
    u16_of_unat [OF nodes_freed(2) [of tp "sacked (sack tp)" m "length (sacked (sack tp))"]]
  by (simp add: clear_sacked_def range_list_clear_free Let_def)

lemma clear_retransmitted_eq:
  "nodes_ok tp (retransmitted (sack tp)) m \<Longrightarrow>
     clear_retransmitted tp = tp\<lparr>sack := (sack tp)\<lparr>range_count := of_nat m, retransmitted := []\<rparr>\<rparr>"
  using nodes_freed(1) [of tp "retransmitted (sack tp)" m "length (retransmitted (sack tp))"]
    u16_of_unat [OF nodes_freed(2) [of tp "retransmitted (sack tp)" m "length (retransmitted (sack tp))"]]
  by (simp add: clear_retransmitted_def range_list_clear_free Let_def)

lemma cleared_lists:
  assumes "board_ok b lo hi tp"
  shows "clear_retransmitted (clear_sacked tp)
    = tp\<lparr>sack := (sack tp)\<lparr>range_count := 0, sacked := [], retransmitted := []\<rparr>\<rparr>"
proof -
  let ?m = "length (retransmitted (sack tp))"
  have m: "nodes_ok tp (sacked (sack tp)) ?m" "?m \<le> 128"
    using assms by (auto simp: board_ok_def nodes_ok_def)
  have "unat (of_nat ?m :: u16) = ?m" using m(2) by (simp add: unat_of_nat)
  then have "nodes_ok (clear_sacked tp) (retransmitted (sack (clear_sacked tp))) 0"
    using m by (simp add: clear_sacked_eq [OF m(1)] nodes_ok_def)
  from clear_retransmitted_eq [OF this] show ?thesis
    by (simp add: clear_sacked_eq [OF m(1)])
qed

lemma trim_nodes:
  assumes "nodes_ok tp rs m" "length rs' \<le> length rs" "tp' = (range_free ^^ (length rs - length rs')) tp"
  obtains rc where "tp' = tp\<lparr>sack := (sack tp)\<lparr>range_count := rc\<rparr>\<rparr>" "unat rc = length rs' + m"
  using nodes_freed [OF assms(1), of "length rs - length rs'"] assms by simp

lemma trimmed_lists:
  assumes ok: "board_ok b lo hi tp" and half: "seq_off b (snd_una tp) < HALF" "seq_off b fe < HALF"
  obtains rc xs ys where
    "trim_lists tp fe = tp\<lparr>sack := (sack tp)\<lparr>range_count := rc, sacked := xs, retransmitted := ys\<rparr>\<rparr>"
    "board_ok b (seq_off b (snd_una tp)) (seq_off b fe) (trim_lists tp fe)"
    "range_bytes b xs = sacked_bytes b tp \<inter> {seq_off b (snd_una tp)..<seq_off b fe}"
    "range_bytes b ys = retransmitted_bytes b tp \<inter> {seq_off b (snd_una tp)..<seq_off b fe}"
    "length xs \<le> length (sacked (sack tp))" "length ys \<le> length (retransmitted (sack tp))"
proof (cases "seq_off b (snd_una tp) < seq_off b fe")
  case False
  then show ?thesis
    using half by (intro that [where rc = 0 and xs = "[]" and ys = "[]"])
      (simp_all add: trim_lists_def seq_lt_off [of b] cleared_lists [OF ok] board_ok_def nodes_ok_def)
next
  case True
  let ?U = "seq_off b (snd_una tp)" and ?F = "seq_off b fe"
  let ?m = "length (retransmitted (sack tp))"
  obtain tp1 xs where t1: "range_list_trim tp (sacked (sack tp)) (snd_una tp) fe = (tp1, xs)" by fastforce
  have o: "hi < HALF" "ranges_ok b lo hi (sacked (sack tp))" "ranges_ok b lo hi (retransmitted (sack tp))"
      "nodes_ok tp (sacked (sack tp)) ?m"
    using ok by (auto simp: board_ok_def)
  note x = range_list_trim_spec [OF o(2,1) True half(2) t1]
  obtain rc where rc: "tp1 = tp\<lparr>sack := (sack tp)\<lparr>range_count := rc\<rparr>\<rparr>" "unat rc = length xs + ?m"
    using trim_nodes [OF o(4)] x by blast
  let ?tp2 = "tp\<lparr>sack := (sack tp)\<lparr>range_count := rc, sacked := xs\<rparr>\<rparr>"
  obtain tp3 ys where t2: "range_list_trim ?tp2 (retransmitted (sack tp)) (snd_una tp) fe = (tp3, ys)" by fastforce
  note y = range_list_trim_spec [OF o(3,1) True half(2) t2]
  have n2: "nodes_ok ?tp2 (retransmitted (sack tp)) (length xs)"
    using rc x o(4) by (auto simp: nodes_ok_def)
  obtain rc' where rc': "tp3 = ?tp2\<lparr>sack := (sack ?tp2)\<lparr>range_count := rc'\<rparr>\<rparr>" "unat rc' = length ys + length xs"
    using trim_nodes [OF n2] y by blast
  have eq: "trim_lists tp fe = tp\<lparr>sack := (sack tp)\<lparr>range_count := rc', sacked := xs, retransmitted := ys\<rparr>\<rparr>"
    using True half rc rc' t1 t2 by (simp add: trim_lists_def seq_lt_off [of b] Let_def)
  have "ranges_ok b ?U ?F xs" "ranges_ok b ?U ?F ys"
    using x y by (auto elim!: ranges_ok_mono)
  then have "board_ok b ?U ?F (trim_lists tp fe)"
    using rc' x y o(4) half by (simp add: eq board_ok_def nodes_ok_def)
  then show ?thesis using that eq x y by blast
qed

subsection \<open>Applying the blocks of an ACK\<close>

text \<open>The bytes that SACK blocks report inside the flight \<open>[U, F)\<close>.\<close>

definition block_bytes :: "u32 \<Rightarrow> nat \<Rightarrow> nat \<Rightarrow> tcp_sack_block list \<Rightarrow> nat set" where
  "block_bytes b U F bs = (\<Union>k \<in> set bs. {max U (seq_off b (blk_left k))..<min F (seq_off b (blk_right k))})"

definition blocks_near :: "u32 \<Rightarrow> tcp_sack_block list \<Rightarrow> bool" where
  "blocks_near b bs \<longleftrightarrow> (\<forall>k \<in> set bs. in_half b (blk_left k) \<and> in_half b (blk_right k))"

text \<open>
  After \<^verbatim>\<open>sack_degrade\<close>: the lists are empty, and recovery waits for \<^verbatim>\<open>degraded_until\<close>.
\<close>

definition is_degraded :: "tcp_stream \<Rightarrow> bool" where
  "is_degraded tp \<longleftrightarrow> degraded (sack tp) \<and> sacked (sack tp) = [] \<and> retransmitted (sack tp) = [] \<and>
     range_count (sack tp) = 0 \<and> mode (sack tp) = TCP_RECOVERY_NORMAL \<and>
     degraded_until (sack tp) = high_data (sack tp)"

lemma sack_degrade_is_degraded:
  "board_ok b lo hi tp \<Longrightarrow> is_degraded (sack_degrade tp) \<and> snd_una (sack_degrade tp) = snd_una tp"
  by (simp add: sack_degrade_def cleared_lists is_degraded_def)

definition nodes_left :: "(nat \<Rightarrow> bool) \<Rightarrow> nat \<Rightarrow> tcp_stream \<Rightarrow> bool" where
  "nodes_left pool k tp \<longleftrightarrow>
     (\<forall>i < k. pool i) \<and> length (sacked (sack tp)) + length (retransmitted (sack tp)) + k \<le> 128"

text \<open>Streams that differ in the SACKED list and its node count only.\<close>

definition board_frame :: "tcp_stream \<Rightarrow> tcp_stream \<Rightarrow> bool" where
  "board_frame tp tp' \<longleftrightarrow> (\<exists>rc xs. tp' = tp\<lparr>sack := (sack tp)\<lparr>range_count := rc, sacked := xs\<rparr>\<rparr>)"

lemma board_frame_upd: "board_frame tp (tp\<lparr>sack := (sack tp)\<lparr>range_count := rc, sacked := xs\<rparr>\<rparr>)"
  unfolding board_frame_def by blast

lemma board_frame_refl: "board_frame tp tp"
  using board_frame_upd [where tp = tp and rc = "range_count (sack tp)" and xs = "sacked (sack tp)"] by simp

lemma board_frame_trans: "board_frame a b \<Longrightarrow> board_frame b c \<Longrightarrow> board_frame a c"
  unfolding board_frame_def [of a b] board_frame_def [of b c] by (auto simp: board_frame_upd)

lemma board_frame_fields:
  "board_frame tp tp' \<Longrightarrow> snd_una tp' = snd_una tp \<and> retransmitted (sack tp') = retransmitted (sack tp) \<and>
     mode (sack tp') = mode (sack tp) \<and> recovery_point (sack tp') = recovery_point (sack tp) \<and>
     degraded (sack tp') = degraded (sack tp) \<and> high_data (sack tp') = high_data (sack tp)"
  by (auto simp: board_frame_def)

lemma nodes_left_mono: "nodes_left pool k tp \<Longrightarrow> k' \<le> k \<Longrightarrow> nodes_left pool k' tp"
  by (simp add: nodes_left_def)

lemma insert_into_board:
  assumes "board_ok b U F tp" "U \<le> seq_off b left" "seq_off b left < seq_off b right" "seq_off b right \<le> F"
    and "range_insert pool tp (sacked (sack tp)) left right fl = (n, tp1, rs)"
  shows "(n = UINT32_MAX \<and> tp1 = tp \<and> rs = sacked (sack tp) \<and>
      (\<not> pool \<or> length (sacked (sack tp)) + length (retransmitted (sack tp)) = 128)) \<or>
    inserted b U F (length (retransmitted (sack tp))) tp (sacked (sack tp)) left right n tp1 rs"
  using range_insert_spec [OF _ _ assms(2-4) _ assms(5)] assms(1) by (auto simp: board_ok_def)

lemma inserted_board:
  assumes "board_ok b U F tp"
    and "inserted b U F (length (retransmitted (sack tp))) tp (sacked (sack tp)) left right n tp1 rs"
    and "tp2 = tp1\<lparr>sack := (sack tp1)\<lparr>sacked := rs\<rparr>\<rparr>"
  shows "board_ok b U F tp2"
    and "sacked_bytes b tp2 = sacked_bytes b tp \<union> {seq_off b left..<seq_off b right}"
    and "board_frame tp tp2"
    and "length (sacked (sack tp2)) \<le> Suc (length (sacked (sack tp)))"
  using assms by (auto simp: inserted_def board_ok_def nodes_ok_def board_frame_upd)

definition blocks_added ::
  "u32 \<Rightarrow> nat \<Rightarrow> nat \<Rightarrow> nat set \<Rightarrow> tcp_stream \<Rightarrow> nat set \<Rightarrow> tcp_stream \<Rightarrow> u32 option \<Rightarrow> bool" where
  "blocks_added b U F S tp new tp' res \<longleftrightarrow>
     (\<exists>n. res = Some n \<and> unat n = card (sacked_bytes b tp' - S)) \<and> board_frame tp tp' \<and>
     board_ok b U F tp' \<and> sacked_bytes b tp' = sacked_bytes b tp \<union> new"

lemma blocks_added_step:
  "\<lbrakk>blocks_added b U F S tp2 new tp' res; board_frame tp tp2; sacked_bytes b tp2 = sacked_bytes b tp \<union> I\<rbrakk>
   \<Longrightarrow> blocks_added b U F S tp (I \<union> new) tp' res"
  using board_frame_trans by (auto simp: blocks_added_def)

lemma inserted_count:
  assumes "board_ok b U F tp"
    and "inserted b U F (length (retransmitted (sack tp))) tp (sacked (sack tp)) left right n tp1 rs"
    and "tp2 = tp1\<lparr>sack := (sack tp1)\<lparr>sacked := rs\<rparr>\<rparr>"
    and "S \<subseteq> sacked_bytes b tp" "unat newly = card (sacked_bytes b tp - S)"
  shows "unat (newly + n) = card (sacked_bytes b tp2 - S) \<and> n \<noteq> UINT32_MAX"
proof -
  let ?I = "{seq_off b left..<seq_off b right}"
  have n: "unat n = card (?I - sacked_bytes b tp)" using assms(2) by (simp add: inserted_def)
  have b2: "sacked_bytes b tp2 = sacked_bytes b tp \<union> ?I"
    using assms(2,3) by (auto simp: inserted_def)
  have "sacked_bytes b tp2 - S = (sacked_bytes b tp - S) \<union> (?I - sacked_bytes b tp)"
    using assms(4) b2 by auto
  then have sum: "card (sacked_bytes b tp2 - S) = unat newly + unat n"
    using n assms(5) by (simp add: card_Un_disjoint disjoint_iff)
  have "sacked_bytes b tp2 - S \<subseteq> {U..<F}"
    using assms(2,3) ranges_ok_bytes [of b U F rs] by (auto simp: inserted_def)
  then have "card (sacked_bytes b tp2 - S) \<le> F - U" "F < HALF"
    using card_mono [of "{U..<F}"] assms(1) by (auto simp: board_ok_def)
  then have "unat newly + unat n < HALF" using sum by linarith
  then show ?thesis using sum by (auto simp: unat_add_u32 unat_UINT32_MAX)
qed

lemma sack_add_blocks_spec:
  assumes "board_ok b U F tp" "U = seq_off b (snd_una tp)" "F = seq_off b fe" "U < F"
    and "blocks_near b bs" "S \<subseteq> sacked_bytes b tp"
    and "unat newly = card (sacked_bytes b tp - S)"
    and "sack_add_blocks pool tp bs fe newly = (tp', res)"
  shows "(res = None \<and> is_degraded tp' \<and> snd_una tp' = snd_una tp \<and> \<not> nodes_left pool (length bs) tp) \<or>
    blocks_added b U F S tp (block_bytes b U F bs) tp' res"
  using assms
proof (induction bs arbitrary: pool tp newly)
  case Nil
  then show ?case by (auto simp: blocks_added_def block_bytes_def board_frame_refl)
next
  case (Cons k bs)
  let ?l = "seq_off b (blk_left k)" and ?r = "seq_off b (blk_right k)"
  let ?left = "if seq_lt (blk_left k) (snd_una tp) then snd_una tp else blk_left k"
  let ?right = "if seq_gt (blk_right k) fe then fe else blk_right k"
  have half: "?l < HALF" "?r < HALF" "U < HALF" "F < HALF"
    using Cons.prems by (auto simp: blocks_near_def in_half_def board_ok_def)
  have off: "seq_off b ?left = max U ?l" "seq_off b ?right = min F ?r"
    using half Cons.prems(2,3) by (simp_all add: seq_gt_def seq_lt_off [of b] max_def)
  have lt: "seq_lt ?left ?right \<longleftrightarrow> max U ?l < min F ?r"
    using half off by (subst seq_lt_off [of b]) simp_all
  have near: "blocks_near b bs" using Cons.prems(5) by (simp add: blocks_near_def)
  have bb: "block_bytes b U F (k # bs) = {max U ?l..<min F ?r} \<union> block_bytes b U F bs"
    by (simp add: block_bytes_def)
  show ?case
  proof (cases "max U ?l < min F ?r")
    case False
    then have "sack_add_blocks (\<lambda>i. pool (Suc i)) tp bs fe newly = (tp', res)"
      using Cons.prems(8) lt by (simp only: sack_add_blocks.simps Let_def if_True simp_thms)
    note ih = Cons.IH [OF Cons.prems(1-4) near Cons.prems(6,7) this]
    moreover have "block_bytes b U F (k # bs) = block_bytes b U F bs"
      using False unfolding bb by (simp only: not_less atLeastLessThan_empty Un_empty_left)
    moreover have "nodes_left pool (length (k # bs)) tp \<Longrightarrow> nodes_left (\<lambda>i. pool (Suc i)) (length bs) tp"
      by (auto simp: nodes_left_def)
    ultimately show ?thesis by auto
  next
    case True
    obtain added tp1 rs where ins: "range_insert (pool 0) tp (sacked (sack tp)) ?left ?right 1 = (added, tp1, rs)"
      by (metis prod_cases3)
    define tp2 where "tp2 = tp1\<lparr>sack := (sack tp1)\<lparr>sacked := rs\<rparr>\<rparr>"
    have eq: "(if added = UINT32_MAX then (sack_degrade tp2, None)
        else sack_add_blocks (\<lambda>i. pool (Suc i)) tp2 bs fe (newly + added)) = (tp', res)"
      using Cons.prems(8) True lt ins unfolding tp2_def
      by (simp only: sack_add_blocks.simps Let_def simp_thms if_False prod.case)
    have "(added = UINT32_MAX \<and> tp1 = tp \<and> rs = sacked (sack tp) \<and> \<not> nodes_left pool (length (k # bs)) tp) \<or>
        inserted b U F (length (retransmitted (sack tp))) tp (sacked (sack tp)) ?left ?right added tp1 rs"
      using insert_into_board [OF Cons.prems(1) _ _ _ ins] off True by (auto simp: nodes_left_def)
    then show ?thesis
    proof
      assume f: "added = UINT32_MAX \<and> tp1 = tp \<and> rs = sacked (sack tp) \<and> \<not> nodes_left pool (length (k # bs)) tp"
      then have "tp2 = tp" by (simp add: tp2_def)
      then show ?thesis using eq f sack_degrade_is_degraded [OF Cons.prems(1)] by auto
    next
      assume i: "inserted b U F (length (retransmitted (sack tp))) tp (sacked (sack tp)) ?left ?right added tp1 rs"
      note st = inserted_board [OF Cons.prems(1) i tp2_def, unfolded off]
      have cnt: "unat (newly + added) = card (sacked_bytes b tp2 - S)" "added \<noteq> UINT32_MAX"
        using inserted_count [OF Cons.prems(1) i tp2_def Cons.prems(6,7)] off half by auto
      have rec: "sack_add_blocks (\<lambda>i. pool (Suc i)) tp2 bs fe (newly + added) = (tp', res)"
        using eq cnt(2) by simp
      have "S \<subseteq> sacked_bytes b tp2" using Cons.prems(6) st by auto
      note ih = Cons.IH [OF st(1) _ Cons.prems(3,4) near this cnt(1) rec]
      have fr: "snd_una tp2 = snd_una tp" "retransmitted (sack tp2) = retransmitted (sack tp)"
        using board_frame_fields [OF st(3)] by auto
      have "\<not> nodes_left pool (length (k # bs)) tp" if "\<not> nodes_left (\<lambda>i. pool (Suc i)) (length bs) tp2"
        using st(4) fr that by (auto simp: nodes_left_def)
      moreover have "blocks_added b U F S tp (block_bytes b U F (k # bs)) tp' res"
        if "blocks_added b U F S tp2 (block_bytes b U F bs) tp' res"
        unfolding bb using that st(2,3) by (intro blocks_added_step)
      ultimately show ?thesis using ih fr Cons.prems(2) by auto
    qed
  qed
qed

lemma tcp_sack_trim_fields:
  assumes "board_ok b lo hi tp" "in_half b (snd_una tp)" "in_half b fe"
  defines "U \<equiv> seq_off b (snd_una tp)" and "F \<equiv> seq_off b fe" and "tp' \<equiv> tcp_sack_trim tp fe"
  shows "board_ok b U F tp'" "sacked_bytes b tp' = sacked_bytes b tp \<inter> {U..<F}"
    "retransmitted_bytes b tp' = retransmitted_bytes b tp \<inter> {U..<F}"
    "snd_una tp' = snd_una tp" "sack_permitted tp' = sack_permitted tp"
    "degraded (sack tp') \<longleftrightarrow> degraded (sack tp) \<and> seq_lt (snd_una tp) (degraded_until (sack tp))"
    "nodes_left pool k tp \<Longrightarrow> nodes_left pool k tp'"
    "mode (sack tp') = mode (sack tp)" "recovery_point (sack tp') = recovery_point (sack tp)"
proof -
  obtain rc xs ys where
    eq: "trim_lists tp fe = tp\<lparr>sack := (sack tp)\<lparr>range_count := rc, sacked := xs, retransmitted := ys\<rparr>\<rparr>" and
    t: "board_ok b U F (trim_lists tp fe)" "range_bytes b xs = sacked_bytes b tp \<inter> {U..<F}"
       "range_bytes b ys = retransmitted_bytes b tp \<inter> {U..<F}"
       "length xs \<le> length (sacked (sack tp))" "length ys \<le> length (retransmitted (sack tp))"
    using trimmed_lists [OF assms(1)] assms(2,3) unfolding U_def F_def in_half_def by metis
  show "board_ok b U F tp'" "sacked_bytes b tp' = sacked_bytes b tp \<inter> {U..<F}"
    "retransmitted_bytes b tp' = retransmitted_bytes b tp \<inter> {U..<F}"
    "snd_una tp' = snd_una tp" "sack_permitted tp' = sack_permitted tp"
    "degraded (sack tp') \<longleftrightarrow> degraded (sack tp) \<and> seq_lt (snd_una tp) (degraded_until (sack tp))"
    "mode (sack tp') = mode (sack tp)" "recovery_point (sack tp') = recovery_point (sack tp)"
    using t by (simp_all add: tp'_def tcp_sack_trim_def Let_def eq board_ok_def nodes_ok_def) blast
  show "nodes_left pool k tp'" if "nodes_left pool k tp"
    using t(4,5) that by (simp add: tp'_def tcp_sack_trim_def Let_def eq nodes_left_def)
qed

lemma recovery_exit_fields:
  assumes "sack_recovery_exit tp = (e, tp')"
  shows "sacked (sack tp') = sacked (sack tp)" "retransmitted (sack tp') = retransmitted (sack tp)"
    "range_count (sack tp') = range_count (sack tp)" "degraded (sack tp') = degraded (sack tp)"
    "degraded_until (sack tp') = degraded_until (sack tp)" "high_data (sack tp') = high_data (sack tp)"
    "snd_una tp' = snd_una tp"
    "mode (sack tp) = TCP_RECOVERY_NORMAL \<Longrightarrow> mode (sack tp') = TCP_RECOVERY_NORMAL"
  using assms by (auto simp: sack_recovery_exit_def split: if_splits)

text \<open>The steps of \<^verbatim>\<open>tcp_sack_update\<close>: trim, add the blocks that are data, leave recovery.\<close>

definition data_blocks :: "u32 \<Rightarrow> tcp_sack_block list \<Rightarrow> tcp_sack_block list" where
  "data_blocks ack blocks =
     (if first_block_is_dsack ack (take 4 blocks) then tl (take 4 blocks) else take 4 blocks)"

lemma tcp_sack_update_steps:
  assumes upd: "tcp_sack_update pool tp ack blocks fe = (res, tp')"
  defines "tp0 \<equiv> tcp_sack_trim tp fe"
  obtains tp1 newly where
    "(if degraded (sack tp0) \<or> \<not> sack_permitted tp0 \<or> \<not> seq_lt (snd_una tp0) fe then (tp0, None)
      else sack_add_blocks pool tp0 (data_blocks ack blocks) fe 0) = (tp1, newly)"
    "sack_recovery_exit tp1 = (recovery_exited res, tp')"
    "dsack_valid res = first_block_is_dsack ack (take 4 blocks)"
    "newly_sacked_bytes res = (case newly of None \<Rightarrow> 0 | Some n \<Rightarrow> n)"
    "new_sack_information res = (case newly of None \<Rightarrow> False | Some n \<Rightarrow> n \<noteq> 0)"
proof -
  obtain tp1 newly where
    add: "(if degraded (sack tp0) \<or> \<not> sack_permitted tp0 \<or> \<not> seq_lt (snd_una tp0) fe then (tp0, None)
      else sack_add_blocks pool tp0 (data_blocks ack blocks) fe 0) = (tp1, newly)"
    by (metis prod.exhaust)
  obtain e tp2 where ex: "sack_recovery_exit tp1 = (e, tp2)" by fastforce
  show ?thesis
    using upd unfolding tcp_sack_update_def Let_def tp0_def [symmetric] TCP_SACK_MAX_BLOCKS_def
      data_blocks_def [symmetric] add prod.case ex
    by (intro that [OF add]) (auto simp: ex split: option.splits)
qed

lemma data_blocks_sub: "set (data_blocks ack blocks) \<subseteq> set blocks" "length (data_blocks ack blocks) \<le> 4"
proof -
  have "set (tl xs) \<subseteq> set xs" for xs :: "tcp_sack_block list" by (cases xs) auto
  from this [of "take 4 blocks"] show "set (data_blocks ack blocks) \<subseteq> set blocks"
    using set_take_subset [of 4 blocks] unfolding data_blocks_def by (simp split: if_split) blast
  show "length (data_blocks ack blocks) \<le> 4" by (auto simp: data_blocks_def)
qed

lemma card_new_bytes: "(A \<union> B) - A = B - (A :: nat set)"
  by auto

subsection \<open>Properties\<close>


text \<open>
  A flight of 2256 bytes across the wrap of the sequence space, with three SACKed ranges.
\<close>

definition demo_flight :: tcp_stream where
  "demo_flight = tcp_stream_zero\<lparr>snd_una := 4294967040, snd_mss := 100, sack_permitted := True,
     sack := tcp_sack_state_zero\<lparr>sacked := [\<lparr>rng_left = 100, rng_right = 200, rng_flags = 1\<rparr>,
        \<lparr>rng_left = 300, rng_right = 400, rng_flags = 1\<rparr>, \<lparr>rng_left = 500, rng_right = 700, rng_flags = 1\<rparr>],
       range_count := 3, mode := TCP_RECOVERY_SACK, high_data := 2000, high_rxt := 4294967040,
       rescue_rxt := 4294967040, recovery_point := 2000\<rparr>\<rparr>"


lemma demo_flight_ok: "board_ok 4294967040 0 2256 demo_flight"
  by (simp add: demo_flight_def zero_defs board_ok_def nodes_ok_def seq_off_def)


text \<open>
  The hypothesis that the blocks lie near the flight is needed: the option parser only requires the
  right edge to follow the left one, and the clipping in \<^verbatim>\<open>tcp_sack_update\<close> is by serial comparison
  with each flight edge separately. A block that spans almost half the sequence space from beyond
  the flight to before it, not in first place, passes both, and enters the scoreboard of a 1000-byte flight as two
  gigabytes of newly SACKed data.
\<close>

lemma stray_block_accepted:
  "let (res, tp') = tcp_sack_update (\<lambda>_. True) (tcp_stream_zero\<lparr>sack_permitted := True\<rparr>) 0
     [\<lparr>blk_left = 10, blk_right = 20\<rparr>, \<lparr>blk_left = 2147483647, blk_right = 4294967294\<rparr>] 1000
   in newly_sacked_bytes res = 2147483657 \<and> new_sack_information res \<and>
      sacked (sack tp') = [\<lparr>rng_left = 10, rng_right = 20, rng_flags = 1\<rparr>,
        \<lparr>rng_left = 2147483647, rng_right = 4294967294, rng_flags = 1\<rparr>]"
  by code_simp

end
