(* ===== verification/Tcp_Sack_Pipe.thy ===== *)
theory Tcp_Sack_Pipe
  imports Tcp_Sack_Spec
begin

text \<open>
  Loss estimation over the scoreboard: \<^verbatim>\<open>tcp_sack_is_lost\<close> is RFC 6675 IsLost over the set of
  SACKed bytes, and \<^verbatim>\<open>tcp_sack_set_pipe\<close>, with its early exits and its binary search, counts bytes as
  RFC 6675 SetPipe does.
\<close>

subsection \<open>IsLost\<close>

definition ranges_above :: "u32 \<Rightarrow> tcp_sack_range list \<Rightarrow> nat \<Rightarrow> nat" where
  "ranges_above b rs x = length (filter (\<lambda>r. x < seq_off b (rng_left r)) rs)"

definition is_lost_spec :: "u32 \<Rightarrow> tcp_stream \<Rightarrow> nat \<Rightarrow> bool" where
  "is_lost_spec b tp x \<longleftrightarrow>
     3 \<le> ranges_above b (sacked (sack tp)) x \<or>
     2 * unat (sack_smss tp) < card (sacked_bytes b tp \<inter> {x..})"

lemma sack_smss_bounds: "0 < unat (sack_smss tp)" "unat (sack_smss tp) < 65536"
proof -
  have "unat (ucast (snd_mss tp) :: u32) = unat (snd_mss tp)"
    using unat_u16_lt [of "snd_mss tp"] by (simp add: unsigned_ucast_eq take_bit_nat_eq_self)
  moreover have "snd_mss tp \<noteq> 0 \<Longrightarrow> 0 < unat (snd_mss tp)" by (simp add: unat_gt_0)
  ultimately show "0 < unat (sack_smss tp)" "unat (sack_smss tp) < 65536"
    using unat_u16_lt [of "snd_mss tp"] by (simp_all add: sack_smss_def)
qed

lemma bytes_from_Cons:
  assumes "ranges_ok b lo hi (r # rs)"
  shows "card (range_bytes b (r # rs) \<inter> {x..})
    = seq_off b (rng_right r) - max (seq_off b (rng_left r)) x + card (range_bytes b rs \<inter> {x..})"
proof -
  let ?l = "seq_off b (rng_left r)" and ?y = "seq_off b (rng_right r)"
  have "range_bytes b rs \<subseteq> {Suc ?y..}"
    using ranges_ok_bytes [of b "Suc ?y" hi rs] assms by auto
  moreover have "range_bytes b (r # rs) \<inter> {x..} = {max ?l x..<?y} \<union> (range_bytes b rs \<inter> {x..})"
    by auto
  moreover have "{max ?l x..<?y} \<inter> (range_bytes b rs \<inter> {x..}) = {}"
    using calculation(1) by fastforce
  ultimately show ?thesis by (simp add: card_Un_disjoint)
qed

lemma is_lost_loop_spec:
  assumes "ranges_ok b lo hi rs" "hi < HALF" "seq_off b s < HALF" "unat smss < 65536"
    and "unat disc < 3" "unat bytes \<le> 2 * unat smss"
  shows "is_lost_loop smss s rs bytes disc \<longleftrightarrow>
    3 \<le> unat disc + ranges_above b rs (seq_off b s) \<or>
    2 * unat smss < unat bytes + card (range_bytes b rs \<inter> {seq_off b s..})"
  using assms
proof (induction rs arbitrary: lo bytes disc)
  case (Cons r rs)
  let ?x = "seq_off b s" and ?l = "seq_off b (rng_left r)" and ?y = "seq_off b (rng_right r)"
  have r: "lo \<le> ?l" "?l < ?y" "?y \<le> hi" "ranges_ok b (Suc ?y) hi rs" using Cons.prems(1) by auto
  note lt = seq_gt_def seq_lt_off [of b]
  note card = bytes_from_Cons [OF Cons.prems(1), of ?x]
  have half: "?l < HALF" "?y < HALF" using r Cons.prems(2) by linarith+
  show ?case
  proof (cases "?x < ?y")
    case False
    then have "is_lost_loop smss s (r # rs) bytes disc = is_lost_loop smss s rs bytes disc"
      using half Cons.prems(3) by (simp add: lt)
    moreover have "ranges_above b (r # rs) ?x = ranges_above b rs ?x"
      using False r by (simp add: ranges_above_def)
    ultimately show ?thesis using Cons.IH [OF r(4) Cons.prems(2-)] card False by simp
  next
    case True
    define left where "left = (if seq_gt (rng_left r) s then rng_left r else s)"
    define by2 where "by2 = bytes + (rng_right r - left)"
    define d2 where "d2 = (if seq_gt (rng_left r) s then disc + 1 else disc)"
    have left: "seq_off b left = max ?l ?x" using half Cons.prems(3) by (simp add: left_def lt)
    then have d: "unat (rng_right r - left) = ?y - max ?l ?x"
      using True r seq_off_diff [of b left "rng_right r"] by simp
    then have b2: "unat by2 = unat bytes + (?y - max ?l ?x)"
      using Cons.prems(4,6) half by (simp add: by2_def unat_add_u32)
    have d2: "unat d2 = unat disc + (if ?x < ?l then 1 else 0)"
      using half Cons.prems(3,5) by (simp add: d2_def lt unat_add_u32)
    have ra: "ranges_above b (r # rs) ?x = (if ?x < ?l then 1 else 0) + ranges_above b rs ?x"
      by (simp add: ranges_above_def)
    have m2: "unat ((TCP_SACK_DUP_THRESH - 1) * smss) = 2 * unat smss"
      using Cons.prems(4) by (simp add: unat_mult_u32)
    have "seq_lt left (rng_right r)"
      using left True r half Cons.prems(3) by (subst seq_lt_off [of b]) simp_all
    then have step: "is_lost_loop smss s (r # rs) bytes disc \<longleftrightarrow>
        3 \<le> unat d2 \<or> 2 * unat smss < unat by2 \<or> is_lost_loop smss s rs by2 d2"
      using True half Cons.prems(3) m2
      by (simp add: lt left_def by2_def d2_def word_le_nat_alt word_less_nat_alt Let_def)
    show ?thesis
    proof (cases "3 \<le> unat d2 \<or> 2 * unat smss < unat by2")
      case True
      then show ?thesis using step b2 d2 ra card by auto
    next
      case False
      then show ?thesis
        using step Cons.IH [OF r(4) Cons.prems(2-4), of d2 by2] b2 d2 ra card by auto
    qed
  qed
qed (auto simp: ranges_above_def)

lemma is_lost_iff:
  assumes "board_ok b lo hi tp" "seq_off b s < HALF"
  shows "tcp_sack_is_lost tp s \<longleftrightarrow> is_lost_spec b tp (seq_off b s)"
  using is_lost_loop_spec [of b lo hi "sacked (sack tp)" s "sack_smss tp" 0 0] assms sack_smss_bounds(2) [of tp]
  by (simp add: tcp_sack_is_lost_def is_lost_spec_def board_ok_def)

text \<open>Inside a gap without SACKed bytes IsLost does not change.\<close>

lemma range_bytes_mem:
  "\<lbrakk>r \<in> set rs; seq_off b (rng_left r) \<le> x; x < seq_off b (rng_right r)\<rbrakk> \<Longrightarrow> x \<in> range_bytes b rs"
  by (induction rs) auto

lemma is_lost_gap:
  assumes ok: "ranges_ok b lo hi (sacked (sack tp))" and gap: "sacked_bytes b tp \<inter> {x..y} = {}" "x \<le> y"
  shows "is_lost_spec b tp x \<longleftrightarrow> is_lost_spec b tp y"
proof -
  have "x < seq_off b (rng_left r) \<longleftrightarrow> y < seq_off b (rng_left r)" if "r \<in> set (sacked (sack tp))" for r
  proof -
    have "seq_off b (rng_left r) < seq_off b (rng_right r)" using ranges_ok_mem [OF ok that] by simp
    then have "seq_off b (rng_left r) \<in> sacked_bytes b tp"
      using range_bytes_mem [OF that] by simp
    then show ?thesis using gap by fastforce
  qed
  then have "ranges_above b (sacked (sack tp)) x = ranges_above b (sacked (sack tp)) y"
    unfolding ranges_above_def by (metis (mono_tags, lifting) filter_cong)
  moreover have "sacked_bytes b tp \<inter> {x..} = sacked_bytes b tp \<inter> {y..}"
    using gap by fastforce
  ultimately show ?thesis by (simp add: is_lost_spec_def)
qed

subsection \<open>The binary search\<close>

lemma first_not_lost_all:
  assumes "lo \<le> hi" "\<forall>m < hi. tcp_sack_is_lost tp (left + m)"
  shows "first_not_lost tp left lo hi = hi"
  using assms
proof (induction tp left lo hi rule: first_not_lost.induct)
  case (1 tp left lo hi)
  show ?case
  proof (cases "lo < hi")
    case True
    let ?mid = "lo + (hi - lo) div 2"
    have "tcp_sack_is_lost tp (left + ?mid)" using 1(4) midpoint(2) [OF True] by blast
    moreover have "?mid + 1 \<le> hi"
      using midpoint(3) [OF True] True by (simp add: word_le_nat_alt word_less_nat_alt)
    ultimately show ?thesis
      using 1(1) [OF True refl] 1(4) True by (subst first_not_lost.simps) (simp add: Let_def)
  qed (use 1 in \<open>simp add: first_not_lost.simps\<close>)
qed

subsection \<open>Retransmitted bytes of an interval\<close>

lemma overlap_loop_spec:
  assumes "ranges_ok b lo hi rs" "hi < HALF" "seq_off b l < HALF" "seq_off b r < HALF" "seq_off b high < HALF"
    and "unat bytes + card (range_bytes b rs \<inter> {seq_off b l..<seq_off b r} \<inter> {..<seq_off b high}) < 4294967296"
  shows "unat (overlap_loop high rs l r bytes)
    = unat bytes + card (range_bytes b rs \<inter> {seq_off b l..<seq_off b r} \<inter> {..<seq_off b high})"
  using assms
proof (induction rs arbitrary: lo bytes)
  case (Cons x rs)
  let ?x = "seq_off b (rng_left x)" and ?y = "seq_off b (rng_right x)"
  let ?L = "seq_off b l" and ?R = "seq_off b r" and ?H = "seq_off b high"
  let ?W = "{?L..<?R} \<inter> {..<?H}"
  have x: "lo \<le> ?x" "?x < ?y" "?y \<le> hi" "ranges_ok b (Suc ?y) hi rs" using Cons.prems(1) by auto
  have half: "?x < HALF" "?y < HALF" using x Cons.prems(2) by linarith+
  have tail: "range_bytes b rs \<subseteq> {Suc ?y..}" using ranges_ok_bytes [OF x(4)] by auto
  have W: "?W = {?L..<min ?R ?H}" by auto
  have card: "card (range_bytes b (x # rs) \<inter> {?L..<?R} \<inter> {..<?H})
      = (min (min ?R ?H) ?y - max ?L ?x) + card (range_bytes b rs \<inter> {?L..<?R} \<inter> {..<?H})"
    using interval_overlap_card [OF tail, of ?L "min ?R ?H" ?x] unfolding Int_assoc W by (simp add: Int_commute)
  note lt = seq_gt_def seq_lt_off [of b]
  show ?case
  proof (cases "?x < ?R \<and> ?L < ?y")
    case False
    consider "?R \<le> ?x" | "?x < ?R" "?y \<le> ?L" using False by linarith
    then show ?thesis
    proof cases
      case 1
      then have "range_bytes b rs \<inter> {?L..<?R} \<inter> {..<?H} = {}" using tail x(2) by fastforce
      then show ?thesis using 1 half Cons.prems card by (simp add: lt)
    next
      case 2
      then have "overlap_loop high (x # rs) l r bytes = overlap_loop high rs l r bytes"
        using half Cons.prems by (simp add: lt)
      then show ?thesis
        using Cons.IH [OF x(4) Cons.prems(2-5), of bytes] 2 Cons.prems(6) card by simp
    qed
  next
    case True
    define l' where "l' = (if seq_gt l (rng_left x) then l else rng_left x)"
    define r' where "r' = (if seq_lt r (rng_right x) then r else rng_right x)"
    define r'' where "r'' = (if seq_gt r' high then high else r')"
    define by2 where "by2 = (if seq_lt l' r' \<and> seq_lt l' high then bytes + (r'' - l') else bytes)"
    have off: "seq_off b l' = max ?L ?x" "seq_off b r' = min ?R ?y"
      using half Cons.prems(3,4) by (simp_all add: l'_def r'_def lt)
    then have off2: "seq_off b r'' = min (min ?R ?y) ?H"
      using half Cons.prems(4,5) by (auto simp: r''_def lt min_def)
    have cond: "seq_lt l' r' \<and> seq_lt l' high \<longleftrightarrow> max ?L ?x < min (min ?R ?y) ?H"
      using off half Cons.prems(3-5) by (subst (1 2) seq_lt_off [of b]) simp_all
    have b2: "unat by2 = unat bytes + (min (min ?R ?H) ?y - max ?L ?x)"
    proof (cases "max ?L ?x < min (min ?R ?y) ?H")
      case True
      then have d: "unat (r'' - l') = min (min ?R ?H) ?y - max ?L ?x"
        using seq_off_diff [of b l' r''] off off2 by (simp add: min.commute min.left_commute)
      have "unat bytes + (min (min ?R ?H) ?y - max ?L ?x) < 4294967296"
        using card Cons.prems(6) by linarith
      with True cond show ?thesis
        by (simp only: by2_def if_True simp_thms unat_add_u32 d mod_less)
    next
      case False
      then have "min (min ?R ?H) ?y - max ?L ?x = 0" by linarith
      then show ?thesis using False cond by (simp only: by2_def if_False simp_thms add_0_right)
    qed
    have "overlap_loop high (x # rs) l r bytes = overlap_loop high rs l r by2"
      using True half Cons.prems(3,4) unfolding by2_def r''_def l'_def r'_def
      by (simp only: overlap_loop.simps Let_def lt simp_thms if_False)
    then show ?thesis
      using Cons.IH [OF x(4) Cons.prems(2-5), of by2] b2 card Cons.prems(6) by simp
  qed
qed simp

subsection \<open>SetPipe\<close>

text \<open>
  RFC 6675 SetPipe over a set of unsacked bytes: one for each byte that is not lost, and one for
  each byte below HighRxt that was retransmitted.
\<close>

definition pipe_count :: "u32 \<Rightarrow> tcp_stream \<Rightarrow> nat set \<Rightarrow> nat" where
  "pipe_count b tp A = card {x \<in> A. \<not> is_lost_spec b tp x} +
     card (retransmitted_bytes b tp \<inter> A \<inter> {..<seq_off b (high_rxt (sack tp))})"

lemma pipe_count_Un:
  "\<lbrakk>finite A; finite B; A \<inter> B = {}\<rbrakk> \<Longrightarrow> pipe_count b tp (A \<union> B) = pipe_count b tp A + pipe_count b tp B"
proof -
  assume fin: "finite A" "finite B" and disj: "A \<inter> B = {}"
  have "{x \<in> A \<union> B. P x} = {x \<in> A. P x} \<union> {x \<in> B. P x}" for P by auto
  moreover have "R \<inter> (A \<union> B) \<inter> H = (R \<inter> A \<inter> H) \<union> (R \<inter> B \<inter> H)" for R H by auto
  moreover have "card ({x \<in> A. P x} \<union> {x \<in> B. P x}) = card {x \<in> A. P x} + card {x \<in> B. P x}" for P
    using fin disj by (intro card_Un_disjoint) auto
  moreover have "card ((R \<inter> A \<inter> H) \<union> (R \<inter> B \<inter> H)) = card (R \<inter> A \<inter> H) + card (R \<inter> B \<inter> H)" for R H
    using fin disj by (intro card_Un_disjoint) auto
  ultimately show ?thesis unfolding pipe_count_def by presburger
qed

lemma pipe_count_empty [simp]: "pipe_count b tp {} = 0"
  by (simp add: pipe_count_def)

lemma pipe_count_le: "finite A \<Longrightarrow> pipe_count b tp A \<le> 2 * card A"
proof -
  assume "finite A"
  then have "card {x \<in> A. \<not> is_lost_spec b tp x} \<le> card A"
    "card (retransmitted_bytes b tp \<inter> A \<inter> {..<seq_off b (high_rxt (sack tp))}) \<le> card A"
    by (auto intro: card_mono)
  then show ?thesis unfolding pipe_count_def by linarith
qed

lemma pipe_for_unsacked_spec:
  assumes ok: "board_ok b lo hi tp" and high: "seq_off b (high_rxt (sack tp)) < HALF"
    and lr: "seq_off b l < seq_off b r" "seq_off b r < HALF"
    and gap: "sacked_bytes b tp \<inter> {seq_off b l..<seq_off b r} = {}"
  shows "unat (pipe_for_unsacked tp l r) = pipe_count b tp {seq_off b l..<seq_off b r}"
proof -
  let ?L = "seq_off b l" and ?R = "seq_off b r" and ?ov = "retransmitted_overlap tp l r"
  let ?C = "retransmitted_bytes b tp \<inter> {?L..<?R} \<inter> {..<seq_off b (high_rxt (sack tp))}"
  have half: "?L < HALF" using lr by simp
  have C: "card ?C \<le> ?R - ?L" using card_mono [of "{?L..<?R}" ?C] by auto
  then have ov: "unat ?ov = card ?C"
    using overlap_loop_spec [of b lo hi "retransmitted (sack tp)" l r "high_rxt (sack tp)" 0] ok high lr half
    by (simp add: retransmitted_overlap_def board_ok_def)
  have const: "is_lost_spec b tp x \<longleftrightarrow> is_lost_spec b tp ?L" if "x \<in> {?L..<?R}" for x
    using is_lost_gap [of b lo hi tp ?L x] ok gap that by (fastforce simp: board_ok_def)
  have d: "unat (r - l) = ?R - ?L" using seq_off_diff [of b l r] lr by simp
  have lt: "seq_lt l r" using lr half by (simp add: seq_lt_off [of b])
  show ?thesis
  proof (cases "is_lost_spec b tp ?L")
    case False
    then have "{x \<in> {?L..<?R}. \<not> is_lost_spec b tp x} = {?L..<?R}" using const by auto
    moreover have "pipe_for_unsacked tp l r = ?ov + (r - l)"
      using False lt is_lost_iff [OF ok half] by (simp add: pipe_for_unsacked_def Let_def)
    ultimately show ?thesis using ov C d lr by (simp add: pipe_count_def unat_add_u32)
  next
    case True
    then have none: "{x \<in> {?L..<?R}. \<not> is_lost_spec b tp x} = {}" using const by auto
    have "tcp_sack_is_lost tp (l + m)" if "m < r - l" for m
    proof -
      have m: "unat m < ?R - ?L" using that d by (simp add: word_less_nat_alt)
      then have "seq_off b (l + m) = ?L + unat m" using lr by (intro seq_off_add) simp
      then show ?thesis using const [of "?L + unat m"] True m is_lost_iff [OF ok, of "l + m"] lr by simp
    qed
    then have "first_not_lost tp l 0 (r - l) = r - l" by (intro first_not_lost_all) auto
    then have "pipe_for_unsacked tp l r = ?ov"
      using True lt is_lost_iff [OF ok half] by (simp add: pipe_for_unsacked_def Let_def)
    then show ?thesis using ov none by (simp add: pipe_count_def)
  qed
qed

lemma set_pipe_loop_spec:
  assumes ok: "board_ok b U F tp" and high: "seq_off b (high_rxt (sack tp)) < HALF" and F: "F = seq_off b fe"
  shows "\<lbrakk>ranges_ok b (seq_off b cursor) F rs; seq_off b cursor \<le> F;
      sacked_bytes b tp \<inter> {seq_off b cursor..} = range_bytes b rs;
      unat acc + pipe_count b tp ({seq_off b cursor..<F} - range_bytes b rs) < 4294967296;
      set_pipe_loop tp rs fe cursor acc = (c', acc')\<rbrakk>
    \<Longrightarrow> unat acc' + pipe_count b tp {seq_off b c'..<F}
          = unat acc + pipe_count b tp ({seq_off b cursor..<F} - range_bytes b rs) \<and>
        sacked_bytes b tp \<inter> {seq_off b c'..} = {} \<and> seq_off b c' \<le> F"
proof (induction rs arbitrary: cursor acc)
  case (Cons r rs)
  let ?c = "seq_off b cursor" and ?l = "seq_off b (rng_left r)" and ?y = "seq_off b (rng_right r)"
  have r: "?c \<le> ?l" "?l < ?y" "?y \<le> F" "ranges_ok b (Suc ?y) F rs" using Cons.prems(1) by auto
  have FH: "F < HALF" using ok by (simp add: board_ok_def)
  have half: "?c < HALF" "?l < HALF" "?y < HALF" using r FH by linarith+
  have tail: "range_bytes b rs \<subseteq> {Suc ?y..<F}" using ranges_ok_bytes [OF r(4)] .
  have split: "{?c..<F} - range_bytes b (r # rs) = {?c..<?l} \<union> ({?y..<F} - range_bytes b rs)"
    using r tail by fastforce
  have sum: "pipe_count b tp ({?c..<F} - range_bytes b (r # rs))
      = pipe_count b tp {?c..<?l} + pipe_count b tp ({?y..<F} - range_bytes b rs)"
    unfolding split using r by (intro pipe_count_Un) auto
  define acc2 where "acc2 = (if seq_lt cursor (rng_left r)
      then acc + pipe_for_unsacked tp cursor (seq_min (rng_left r) fe) else acc)"
  have acc2: "unat acc2 = unat acc + pipe_count b tp {?c..<?l}"
  proof (cases "?c < ?l")
    case True
    have "seq_min (rng_left r) fe = rng_left r"
      using r half FH F by (simp add: seq_min_def seq_lt_off [of b])
    moreover have "sacked_bytes b tp \<inter> {?c..<?l} = (sacked_bytes b tp \<inter> {?c..}) \<inter> {..<?l}" by auto
    then have "sacked_bytes b tp \<inter> {?c..<?l} = {}"
      unfolding Cons.prems(3) using tail r(1,2) by fastforce
    then have "unat (pipe_for_unsacked tp cursor (rng_left r)) = pipe_count b tp {?c..<?l}"
      using pipe_for_unsacked_spec [OF ok high True half(2)] by simp
    ultimately show ?thesis
      using True half sum Cons.prems(4) by (simp add: acc2_def seq_lt_off [of b] unat_add_u32 del: range_bytes.simps)
  qed (use half in \<open>simp add: acc2_def seq_lt_off [of b]\<close>)
  have "set_pipe_loop tp rs fe (rng_right r) acc2 = (c', acc')"
    using Cons.prems(5) half r FH F by (simp add: acc2_def seq_gt_def seq_lt_off [of b])
  moreover have "sacked_bytes b tp \<inter> {?y..} = range_bytes b rs"
  proof -
    have "sacked_bytes b tp \<inter> {?y..} = (sacked_bytes b tp \<inter> {?c..}) \<inter> {?y..}" using r by auto
    also have "\<dots> = range_bytes b rs" unfolding Cons.prems(3) using tail by fastforce
    finally show ?thesis .
  qed
  moreover have "ranges_ok b ?y F rs" using r(4) by (rule ranges_ok_mono) auto
  moreover have "unat acc2 + pipe_count b tp ({?y..<F} - range_bytes b rs) < 4294967296"
    using acc2 sum Cons.prems(4) by linarith
  ultimately show ?case
    using Cons.IH [of "rng_right r" acc2] r(3) acc2 sum by simp
qed simp

subsection \<open>Properties\<close>

text \<open>
  Claim C16. \<^verbatim>\<open>tcp_sack_is_lost\<close> is RFC 6675 IsLost: a byte is lost when three separate SACKed ranges
  start above it, or when more than two segments' worth of SACKed bytes lie above it. The loop with
  its 32-bit counters and early return computes exactly that.
\<close>

theorem is_lost_is_rfc6675:
  assumes "board_ok b lo hi tp" "in_half b s"
  shows "tcp_sack_is_lost tp s \<longleftrightarrow>
    3 \<le> length (filter (\<lambda>r. seq_off b s < seq_off b (rng_left r)) (sacked (sack tp))) \<or>
    2 * unat (sack_smss tp) < card (sacked_bytes b tp \<inter> {seq_off b s..})"
  using is_lost_iff [OF assms(1), of s] assms(2) by (simp add: is_lost_spec_def ranges_above_def in_half_def)

theorem is_lost_is_rfc6675_witness:
  "tcp_sack_is_lost demo_flight 4294967040"
proof -
  have "sacked (sack demo_flight) = [\<lparr>rng_left = 100, rng_right = 200, rng_flags = 1\<rparr>,
      \<lparr>rng_left = 300, rng_right = 400, rng_flags = 1\<rparr>, \<lparr>rng_left = 500, rng_right = 700, rng_flags = 1\<rparr>]"
    by (simp add: demo_flight_def zero_defs)
  then show ?thesis
    using is_lost_is_rfc6675 [OF demo_flight_ok, of 4294967040] by (simp add: seq_off_def)
qed

text \<open>
  Claim C15. \<^verbatim>\<open>tcp_sack_set_pipe\<close> is RFC 6675 SetPipe: over the unsacked bytes of the flight it counts
  each byte that is not lost plus each byte below HighRxt that was retransmitted, with no 32-bit
  overflow, and stores the result. The binary search for the first byte that is not lost is exact
  because IsLost is constant between two SACKed ranges.
\<close>

theorem set_pipe_is_rfc6675:
  assumes ok: "board_ok b (seq_off b (snd_una tp)) (seq_off b fe) tp"
    and le: "seq_off b (snd_una tp) \<le> seq_off b fe" and high: "in_half b (high_rxt (sack tp))"
  shows "let unsacked = {seq_off b (snd_una tp)..<seq_off b fe} - sacked_bytes b tp;
             (p, tp') = tcp_sack_set_pipe tp fe
         in unat p = card {x \<in> unsacked. \<not> is_lost_spec b tp x}
              + card (retransmitted_bytes b tp \<inter> unsacked \<inter> {..<seq_off b (high_rxt (sack tp))})
            \<and> tp' = tp\<lparr>sack := (sack tp)\<lparr>pipe := p\<rparr>\<rparr>"
proof -
  let ?U = "seq_off b (snd_una tp)" and ?F = "seq_off b fe"
  obtain c acc where loop: "set_pipe_loop tp (sacked (sack tp)) fe (snd_una tp) 0 = (c, acc)" by fastforce
  have o: "?F < HALF" "ranges_ok b ?U ?F (sacked (sack tp))" using ok by (auto simp: board_ok_def)
  have h: "seq_off b (high_rxt (sack tp)) < HALF" using high by (simp add: in_half_def)
  have "pipe_count b tp ({?U..<?F} - sacked_bytes b tp) \<le> 2 * card ({?U..<?F} - sacked_bytes b tp)"
    by (rule pipe_count_le) simp
  also have "card ({?U..<?F} - sacked_bytes b tp) \<le> ?F - ?U"
    using card_mono [of "{?U..<?F}" "{?U..<?F} - sacked_bytes b tp"] by auto
  finally have "pipe_count b tp ({?U..<?F} - sacked_bytes b tp) < 4294967296" using o(1) by linarith
  then have s: "unat acc + pipe_count b tp {seq_off b c..<?F} = pipe_count b tp ({?U..<?F} - sacked_bytes b tp)"
      "sacked_bytes b tp \<inter> {seq_off b c..} = {}" "seq_off b c \<le> ?F"
    using set_pipe_loop_spec [OF ok h refl o(2) le _ _ loop] ranges_ok_bytes [OF o(2)] by fastforce+
  define p where "p = (if seq_lt c fe then acc + pipe_for_unsacked tp c fe else acc)"
  have "unat p = pipe_count b tp ({?U..<?F} - sacked_bytes b tp)"
  proof (cases "seq_off b c < ?F")
    case True
    then have "unat (pipe_for_unsacked tp c fe) = pipe_count b tp {seq_off b c..<?F}"
      using s(2) by (intro pipe_for_unsacked_spec [OF ok h True o(1)]) fastforce
    then show ?thesis
      using True s o(1) unat_u32_lt \<open>pipe_count b tp ({?U..<?F} - sacked_bytes b tp) < 4294967296\<close>
      by (simp add: p_def seq_lt_off [of b] unat_add_u32)
  qed (use s o(1) in \<open>simp add: p_def seq_lt_off [of b]\<close>)
  then show ?thesis
    by (simp add: tcp_sack_set_pipe_def loop Let_def p_def [symmetric] pipe_count_def)
qed

theorem set_pipe_is_rfc6675_witness:
  "unat (fst (tcp_sack_set_pipe demo_flight 2000))
     = card {x \<in> {0..<2256} - sacked_bytes 4294967040 demo_flight. \<not> is_lost_spec 4294967040 demo_flight x}"
  using set_pipe_is_rfc6675 [of 4294967040 demo_flight 2000] demo_flight_ok
  by (simp add: Let_def in_half_def seq_off_def demo_flight_def zero_defs split: prod.splits)

end
