(* ===== verification/Tcp_Sack_Next.thy ===== *)
theory Tcp_Sack_Next
  imports Tcp_Sack_Pipe
begin

text \<open>
  Segment selection over the scoreboard: what \<^verbatim>\<open>tcp_sack_schedule_next\<close> chooses under the four
  NextSeg rules of RFC 6675, and what committing the choice records.
\<close>

subsection \<open>Finding gaps\<close>

lemma seq_min_off:
  "\<lbrakk>seq_off b x < HALF; seq_off b y < HALF\<rbrakk> \<Longrightarrow> seq_off b (seq_min x y) = min (seq_off b x) (seq_off b y)"
  by (simp add: seq_min_def seq_lt_off [of b] min_def)

lemma find_unsacked_Some:
  assumes "ranges_ok b lo hi rs" "hi < HALF" "seq_off b c < HALF" "seq_off b R < HALF"
    and "find_unsacked rs c R = Some (l, r)"
  shows "seq_off b c \<le> seq_off b l \<and> seq_off b l < seq_off b r \<and> seq_off b r \<le> seq_off b R \<and>
    {seq_off b l..<seq_off b r} \<inter> range_bytes b rs = {} \<and> {seq_off b c..<seq_off b l} \<subseteq> range_bytes b rs"
  using assms
proof (induction rs arbitrary: lo c)
  case Nil
  then show ?case by (auto simp: seq_lt_off [of b] split: if_splits)
next
  case (Cons x rs)
  let ?c = "seq_off b c" and ?x = "seq_off b (rng_left x)" and ?y = "seq_off b (rng_right x)"
  have x: "lo \<le> ?x" "?x < ?y" "?y \<le> hi" "ranges_ok b (Suc ?y) hi rs" using Cons.prems(1) by auto
  have half: "?x < HALF" "?y < HALF" using x Cons.prems(2) by linarith+
  have tail: "range_bytes b rs \<subseteq> {Suc ?y..<hi}" using ranges_ok_bytes [OF x(4)] .
  have cR: "?c < seq_off b R"
    using find_unsacked_lt [OF Cons.prems(5)] Cons.prems(3,4) by (simp add: seq_lt_off [of b])
  show ?case
  proof (cases "?c < ?x")
    case True
    then have "l = c" "seq_off b r = min ?x (seq_off b R)"
      using Cons.prems(3-5) x half cR by (auto simp: seq_lt_off [of b] seq_min_off)
    then show ?thesis using True cR tail x(2) by fastforce
  next
    case False
    define c2 where "c2 = (if seq_gt (rng_right x) c then rng_right x else c)"
    have c2: "seq_off b c2 = max ?c ?y" "seq_off b c2 < HALF"
      using half Cons.prems(3) by (simp_all add: c2_def seq_gt_def seq_lt_off [of b])
    have "find_unsacked rs c2 R = Some (l, r)"
      using Cons.prems(3-5) False half cR by (simp add: c2_def seq_lt_off [of b])
    note ih = Cons.IH [OF x(4) Cons.prems(2) c2(2) Cons.prems(4) this]
    have "{?c..<seq_off b l} \<subseteq> {?x..<?y} \<union> {max ?c ?y..<seq_off b l}" using False by auto
    then show ?thesis using ih unfolding c2(1) by auto
  qed
qed

lemma find_unsacked_None:
  assumes "ranges_ok b lo hi rs" "hi < HALF" "seq_off b c < HALF" "seq_off b R < HALF"
    and "find_unsacked rs c R = None"
  shows "{seq_off b c..<seq_off b R} \<subseteq> range_bytes b rs"
  using assms
proof (induction rs arbitrary: lo c)
  case Nil
  then show ?case by (auto simp: seq_lt_off [of b] split: if_splits)
next
  case (Cons x rs)
  let ?c = "seq_off b c" and ?x = "seq_off b (rng_left x)" and ?y = "seq_off b (rng_right x)"
  have x: "lo \<le> ?x" "?x < ?y" "?y \<le> hi" "ranges_ok b (Suc ?y) hi rs" using Cons.prems(1) by auto
  have half: "?x < HALF" "?y < HALF" using x Cons.prems(2) by linarith+
  show ?case
  proof (cases "?c < seq_off b R")
    case True
    define c2 where "c2 = (if seq_gt (rng_right x) c then rng_right x else c)"
    have c2: "seq_off b c2 = max ?c ?y" "seq_off b c2 < HALF"
      using half Cons.prems(3) by (simp_all add: c2_def seq_gt_def seq_lt_off [of b])
    have "?x \<le> ?c" "find_unsacked rs c2 R = None"
      using Cons.prems(3-5) half True x(2)
      by (auto simp: c2_def seq_lt_off [of b] split: if_splits)
    moreover have "{?c..<seq_off b R} \<subseteq> {?x..<?y} \<union> {max ?c ?y..<seq_off b R}"
      using \<open>?x \<le> ?c\<close> by auto
    ultimately show ?thesis
      using Cons.IH [OF x(4) Cons.prems(2) c2(2) Cons.prems(4)] unfolding c2(1) by auto
  qed simp
qed

lemma highest_sacked_off:
  assumes "ranges_ok b lo hi rs" "hi < HALF" "seq_off b u \<le> hi"
  shows "seq_off b u \<le> seq_off b (foldl (\<lambda>h r. if seq_gt (rng_right r) h then rng_right r else h) u rs) \<and>
    seq_off b (foldl (\<lambda>h r. if seq_gt (rng_right r) h then rng_right r else h) u rs) \<le> hi \<and>
    range_bytes b rs \<subseteq> {..<seq_off b (foldl (\<lambda>h r. if seq_gt (rng_right r) h then rng_right r else h) u rs)}"
  using assms
proof (induction rs arbitrary: lo u)
  case (Cons x rs)
  let ?u = "if seq_gt (rng_right x) u then rng_right x else u"
  have x: "ranges_ok b (Suc (seq_off b (rng_right x))) hi rs" "seq_off b (rng_right x) \<le> hi"
    using Cons.prems(1) by auto
  have u: "seq_off b ?u = max (seq_off b u) (seq_off b (rng_right x))"
    using Cons.prems x by (simp add: seq_gt_def seq_lt_off [of b])
  then show ?case using Cons.IH [OF x(1) Cons.prems(2), of ?u] x(2) Cons.prems(3) by fastforce
qed simp

lemma find_highest_unsacked_Some:
  assumes "ranges_ok b lo hi rs" "hi < HALF" "seq_off b c < HALF" "seq_off b R < HALF"
    and "S \<inter> {seq_off b c..} = range_bytes b rs \<inter> {seq_off b c..}" "U \<le> seq_off b c"
    and "\<forall>l r. found = Some (l, r) \<longrightarrow> U \<le> seq_off b l \<and> seq_off b l < seq_off b r \<and>
           seq_off b r \<le> seq_off b R \<and> {seq_off b l..<seq_off b r} \<inter> S = {}"
    and "find_highest_unsacked rs c R found = Some (l, r)"
  shows "U \<le> seq_off b l \<and> seq_off b l < seq_off b r \<and> seq_off b r \<le> seq_off b R \<and>
    {seq_off b l..<seq_off b r} \<inter> S = {}"
  using assms
proof (induction rs arbitrary: lo c found)
  case Nil
  have "{seq_off b c..<seq_off b R} \<inter> S \<subseteq> S \<inter> {seq_off b c..}" by auto
  then show ?case using Nil by (auto simp: seq_lt_off [of b] split: if_splits)
next
  case (Cons x rs)
  let ?c = "seq_off b c" and ?x = "seq_off b (rng_left x)" and ?y = "seq_off b (rng_right x)"
  have x: "lo \<le> ?x" "?x < ?y" "?y \<le> hi" "ranges_ok b (Suc ?y) hi rs" using Cons.prems(1) by auto
  have half: "?x < HALF" "?y < HALF" using x Cons.prems(2) by linarith+
  have tail: "range_bytes b rs \<subseteq> {Suc ?y..<hi}" using ranges_ok_bytes [OF x(4)] .
  show ?case
  proof (cases "?c < seq_off b R")
    case False
    then show ?thesis using Cons.prems(3,4,7,8) by (simp add: seq_lt_off [of b])
  next
    case True
    define c2 where "c2 = (if seq_gt (rng_right x) c then rng_right x else c)"
    define f2 where "f2 = (if seq_lt c (rng_left x) then Some (c, seq_min (rng_left x) R) else found)"
    have c2: "seq_off b c2 = max ?c ?y" "seq_off b c2 < HALF"
      using half Cons.prems(3) by (simp_all add: c2_def seq_gt_def seq_lt_off [of b])
    have rec: "find_highest_unsacked rs c2 R f2 = Some (l, r)"
      using Cons.prems(3,4,8) True by (simp add: c2_def f2_def seq_lt_off [of b])
    have "S \<inter> {max ?c ?y..} = (S \<inter> {?c..}) \<inter> {max ?c ?y..}" by auto
    also have "\<dots> = range_bytes b rs \<inter> {max ?c ?y..}" unfolding Cons.prems(5) by auto
    finally have S2: "S \<inter> {seq_off b c2..} = range_bytes b rs \<inter> {seq_off b c2..}" by (simp only: c2)
    have "{?c..<?x} \<inter> S \<subseteq> (S \<inter> {?c..}) \<inter> {..<?x}" by auto
    also have "\<dots> = {}" unfolding Cons.prems(5) using tail x(2) by fastforce
    finally have gap: "{?c..<?x} \<inter> S = {}" by blast
    have "\<forall>l r. f2 = Some (l, r) \<longrightarrow> U \<le> seq_off b l \<and> seq_off b l < seq_off b r \<and>
        seq_off b r \<le> seq_off b R \<and> {seq_off b l..<seq_off b r} \<inter> S = {}"
      using gap Cons.prems(3,4,6,7) half True by (auto simp: f2_def seq_lt_off [of b] seq_min_off)
    then show ?thesis
      using Cons.IH [OF x(4) Cons.prems(2) c2(2) Cons.prems(4) S2 _ _ rec] Cons.prems(6) c2(1) by simp
  qed
qed

text \<open>No unsacked byte of \<open>A\<close> is lost.\<close>

definition none_lost :: "u32 \<Rightarrow> tcp_stream \<Rightarrow> nat set \<Rightarrow> bool" where
  "none_lost b tp A \<longleftrightarrow> (\<forall>x \<in> A - sacked_bytes b tp. \<not> is_lost_spec b tp x)"

definition lost_gap :: "u32 \<Rightarrow> tcp_stream \<Rightarrow> nat \<Rightarrow> nat \<Rightarrow> u32 \<times> u32 \<Rightarrow> bool" where
  "lost_gap b tp c H g \<longleftrightarrow> (let l = seq_off b (fst g); r = seq_off b (snd g) in
     c \<le> l \<and> l < r \<and> r \<le> H \<and> {l..<r} \<inter> sacked_bytes b tp = {} \<and> is_lost_spec b tp l \<and>
     none_lost b tp {c..<l})"

lemma none_lost_join: "none_lost b tp {x..<y} \<Longrightarrow> none_lost b tp {y..<z} \<Longrightarrow> none_lost b tp {x..<z}"
  unfolding none_lost_def by (metis Diff_iff atLeastLessThan_iff not_le)

lemma none_lost_sub: "A \<subseteq> sacked_bytes b tp \<Longrightarrow> none_lost b tp A"
  by (auto simp: none_lost_def)

lemma none_lost_gap:
  assumes "ranges_ok b lo hi (sacked (sack tp))" "{l..<r} \<inter> sacked_bytes b tp = {}" "\<not> is_lost_spec b tp l"
  shows "none_lost b tp {l..<r}"
  unfolding none_lost_def
proof
  fix x assume x: "x \<in> {l..<r} - sacked_bytes b tp"
  then have "sacked_bytes b tp \<inter> {l..x} = {}" using assms(2) by fastforce
  then show "\<not> is_lost_spec b tp x" using is_lost_gap [OF assms(1)] assms(3) x by simp
qed

lemma next_lost_gap_spec:
  assumes "board_ok b lo hi tp" "seq_off b c < HALF" "seq_off b H < HALF"
  shows "case next_lost_gap tp c H of
           Some g \<Rightarrow> lost_gap b tp (seq_off b c) (seq_off b H) g
         | None \<Rightarrow> none_lost b tp {seq_off b c..<seq_off b H}"
  using assms
proof (induction tp c H rule: next_lost_gap.induct)
  case (1 tp c H)
  have ok: "ranges_ok b lo hi (sacked (sack tp))" "hi < HALF" using 1(2) by (auto simp: board_ok_def)
  show ?case
  proof (cases "find_unsacked (sacked (sack tp)) c H")
    case None
    then show ?thesis
      using find_unsacked_None [OF ok 1(3,4)] by (simp add: next_lost_gap.simps [of tp c H] none_lost_sub)
  next
    case (Some lr)
    obtain l r where lr: "lr = (l, r)" by fastforce
    note f = find_unsacked_Some [OF ok 1(3,4) Some [unfolded lr]]
    have half: "seq_off b l < HALF" "seq_off b r < HALF" using f 1(4) by linarith+
    have below: "none_lost b tp {seq_off b c..<seq_off b l}" using f by (simp add: none_lost_sub)
    show ?thesis
    proof (cases "tcp_sack_is_lost tp l")
      case True
      then have "next_lost_gap tp c H = Some (l, r)" using Some lr by (simp add: next_lost_gap.simps [of tp c H])
      then show ?thesis
        using f below True is_lost_iff [OF 1(2) half(1)] by (simp add: lost_gap_def Let_def)
    next
      case False
      then have eq: "next_lost_gap tp c H = next_lost_gap tp r H"
        using Some lr by (simp add: next_lost_gap.simps [of tp c H])
      have "none_lost b tp {seq_off b l..<seq_off b r}"
        using none_lost_gap [OF ok(1)] f False is_lost_iff [OF 1(2) half(1)] by blast
      with below have nl: "none_lost b tp {seq_off b c..<seq_off b r}" by (rule none_lost_join)
      note ih = 1(1) [OF Some lr [symmetric] False 1(2) half(2) 1(4)]
      have "seq_off b c \<le> seq_off b r" using f by linarith
      then show ?thesis unfolding eq
        using ih none_lost_join [OF nl] by (auto simp: lost_gap_def Let_def split: option.splits)
    qed
  qed
qed

lemma candidate_set_spec:
  assumes "seq_off b s < seq_off b e" "seq_off b e < HALF" "candidate_set tp k rule resc s e = (found, tp')"
  shows "found \<and> (\<exists>e'. pending (sack tp') = \<lparr>kind = k, nextseg_rule = rule, rescue = resc, cand_seq = s, cand_end = e'\<rparr> \<and>
    seq_off b s < seq_off b e' \<and> seq_off b e' \<le> seq_off b e \<and>
    seq_off b e' = min (seq_off b e) (seq_off b s + unat (sack_smss tp)))"
proof -
  have d: "unat (e - s) = seq_off b e - seq_off b s" using assms seq_off_diff [of b s e] by simp
  have "seq_off b (s + sack_smss tp) = seq_off b s + unat (sack_smss tp)"
    using assms(1,2) sack_smss_bounds(2) [of tp] by (intro seq_off_add) linarith
  then show ?thesis
    using assms d sack_smss_bounds(1) [of tp]
    by (auto simp: candidate_set_def seq_lt_off [of b] word_less_nat_alt Let_def split: if_splits)
qed

subsection \<open>The chosen segment\<close>

text \<open>A retransmission of at most one segment inside the flight that repeats no SACKed byte.\<close>

definition good_retransmit :: "u32 \<Rightarrow> tcp_stream \<Rightarrow> nat \<Rightarrow> nat \<Rightarrow> tcp_recovery_candidate \<Rightarrow> bool" where
  "good_retransmit b tp U F p \<longleftrightarrow> (let s = seq_off b (cand_seq p); e = seq_off b (cand_end p) in
     kind p = TCP_RECOVERY_TX_RETRANSMIT \<and> U \<le> s \<and> s < e \<and> e \<le> F \<and>
     e - s \<le> unat (sack_smss tp) \<and> {s..<e} \<inter> sacked_bytes b tp = {})"

lemma candidate_retransmit:
  assumes "U \<le> seq_off b l" "seq_off b l < seq_off b r" "seq_off b r \<le> F" "F < HALF"
    and "{seq_off b l..<seq_off b r} \<inter> sacked_bytes b tp = {}"
    and "candidate_set tp TCP_RECOVERY_TX_RETRANSMIT rule resc l r = (found, tp')"
  shows "found \<and> good_retransmit b tp U F (pending (sack tp')) \<and> nextseg_rule (pending (sack tp')) = rule \<and>
    cand_seq (pending (sack tp')) = l"
proof -
  obtain e where e: "found" "pending (sack tp') = \<lparr>kind = TCP_RECOVERY_TX_RETRANSMIT, nextseg_rule = rule,
      rescue = resc, cand_seq = l, cand_end = e\<rparr>"
      "seq_off b l < seq_off b e" "seq_off b e \<le> seq_off b r"
      "seq_off b e = min (seq_off b r) (seq_off b l + unat (sack_smss tp))"
    using candidate_set_spec [OF assms(2) _ assms(6)] assms(3,4) by auto
  have "{seq_off b l..<seq_off b e} \<inter> sacked_bytes b tp = {}" using assms(5) e(4) by fastforce
  moreover have "seq_off b e - seq_off b l \<le> unat (sack_smss tp)" using e(5) by linarith
  ultimately show ?thesis using e(1-4) assms(1,3) by (simp add: good_retransmit_def Let_def)
qed

lemma rescue_start:
  assumes "seq_off b l < seq_off b r" "seq_off b r < HALF"
  shows "seq_off b (if r - l > sack_smss tp then r - sack_smss tp else l)
    = max (seq_off b l) (seq_off b r - unat (sack_smss tp))"
proof -
  have d: "unat (r - l) = seq_off b r - seq_off b l" using seq_off_diff [of b l r] assms(1) by simp
  show ?thesis
  proof (cases "r - l > sack_smss tp")
    case True
    then have gt: "unat (sack_smss tp) < seq_off b r - seq_off b l" using d by (simp add: word_less_nat_alt)
    then have "unat (sack_smss tp) \<le> unat (r - b)" by (simp add: seq_off_def)
    moreover have "r - sack_smss tp - b = (r - b) - sack_smss tp" by simp
    ultimately have "seq_off b (r - sack_smss tp) = seq_off b r - unat (sack_smss tp)"
      by (simp only: seq_off_def) (simp add: unat_sub word_le_nat_alt)
    then show ?thesis using True gt by simp
  next
    case False
    then have "seq_off b r - seq_off b l \<le> unat (sack_smss tp)" using d by (simp add: word_less_nat_alt)
    then show ?thesis using False by simp
  qed
qed

lemma next_rescue_spec:
  assumes ok: "board_ok b U F tp" and UF: "U = seq_off b (snd_una tp)" "F = seq_off b (high_data (sack tp))" "U \<le> F"
    and nr: "next_rescue tp = (found, tp')" and found: "found"
  shows "good_retransmit b tp U F (pending (sack tp')) \<and> nextseg_rule (pending (sack tp')) = 4"
proof -
  have FH: "F < HALF" and rok: "ranges_ok b U F (sacked (sack tp))" using ok by (auto simp: board_ok_def)
  obtain l r where lr: "find_highest_unsacked (sacked (sack tp)) (snd_una tp) (high_data (sack tp)) None = Some (l, r)"
    and c: "candidate_set tp TCP_RECOVERY_TX_RETRANSMIT 4 True
        (if r - l > sack_smss tp then r - sack_smss tp else l) r = (found, tp')"
    using nr found by (auto simp: next_rescue_def Let_def split: if_splits option.splits)
  have h: "U \<le> seq_off b l \<and> seq_off b l < seq_off b r \<and> seq_off b r \<le> F \<and>
      {seq_off b l..<seq_off b r} \<inter> sacked_bytes b tp = {}"
    using find_highest_unsacked_Some [OF rok FH _ _ refl _ _ lr] FH UF by auto
  let ?s = "if r - l > sack_smss tp then r - sack_smss tp else l"
  have s: "seq_off b ?s = max (seq_off b l) (seq_off b r - unat (sack_smss tp))"
    by (rule rescue_start) (use h FH in linarith)+
  have lo: "seq_off b l \<le> seq_off b ?s" unfolding s by simp
  have "U \<le> seq_off b ?s" using h lo by linarith
  moreover have "seq_off b ?s < seq_off b r" unfolding s using h sack_smss_bounds(1) [of tp] by linarith
  moreover have "{seq_off b ?s..<seq_off b r} \<subseteq> {seq_off b l..<seq_off b r}" using lo by auto
  then have "{seq_off b ?s..<seq_off b r} \<inter> sacked_bytes b tp = {}" using h by blast
  ultimately show ?thesis using candidate_retransmit [OF _ _ _ FH _ c] h by blast
qed

text \<open>The state in which fast recovery asks for the next segment.\<close>

definition in_sack_recovery :: "u32 \<Rightarrow> tcp_stream \<Rightarrow> u32 \<Rightarrow> bool" where
  "in_sack_recovery b tp sndbuf_end \<longleftrightarrow>
     board_ok b (seq_off b (snd_una tp)) (seq_off b (high_data (sack tp))) tp \<and>
     seq_off b (snd_una tp) \<le> seq_off b (high_data (sack tp)) \<and>
     seq_off b (high_data (sack tp)) \<le> seq_off b sndbuf_end \<and> in_half b sndbuf_end \<and>
     in_half b (high_rxt (sack tp)) \<and> mode (sack tp) = TCP_RECOVERY_SACK \<and>
     \<not> degraded (sack tp) \<and> kind (pending (sack tp)) = TCP_RECOVERY_TX_NONE"

lemma schedule_next_cases:
  assumes rec: "in_sack_recovery b tp se"
    and run: "tcp_sack_schedule_next tp se allow = (found, tp')"
  defines "U \<equiv> seq_off b (snd_una tp)" and "F \<equiv> seq_off b (high_data (sack tp))"
    and "L \<equiv> max (seq_off b (snd_una tp)) (seq_off b (high_rxt (sack tp)))"
    and "H \<equiv> seq_off b (highest_sacked tp)" and "p \<equiv> pending (sack tp')"
  obtains "found" "good_retransmit b tp U F p" "nextseg_rule p = 1"
      "is_lost_spec b tp (seq_off b (cand_seq p))" "none_lost b tp {L..<seq_off b (cand_seq p)}"
    | "found" "none_lost b tp {L..<H}" "allow" "kind p = TCP_RECOVERY_TX_NEW_DATA" "nextseg_rule p = 2"
      "cand_seq p = high_data (sack tp)" "F < seq_off b (cand_end p)" "seq_off b (cand_end p) \<le> seq_off b se"
      "seq_off b (cand_end p) - F \<le> unat (sack_smss tp)"
    | "found" "none_lost b tp {L..<H}" "\<not> (allow \<and> F < seq_off b se)" "good_retransmit b tp U F p"
      "nextseg_rule p = 3" "L \<le> seq_off b (cand_seq p)" "{L..<seq_off b (cand_seq p)} \<subseteq> sacked_bytes b tp"
    | "found" "{L..<H} \<subseteq> sacked_bytes b tp" "\<not> (allow \<and> F < seq_off b se)" "good_retransmit b tp U F p"
      "nextseg_rule p = 4"
    | "\<not> found" "{L..<H} \<subseteq> sacked_bytes b tp" "\<not> (allow \<and> F < seq_off b se)"
proof -
  define left where "left = (if seq_gt (high_rxt (sack tp)) (snd_una tp) then high_rxt (sack tp) else snd_una tp)"
  have r: "board_ok b U F tp" "U \<le> F" "F \<le> seq_off b se" "seq_off b se < HALF" "F < HALF" "U < HALF"
      "seq_off b (high_rxt (sack tp)) < HALF"
    using rec unfolding in_sack_recovery_def U_def F_def in_half_def by auto
  have rok: "ranges_ok b U F (sacked (sack tp))" using r(1) by (simp add: board_ok_def)
  have L: "seq_off b left = L" "L < HALF" "U \<le> L"
    using r by (auto simp: left_def L_def U_def seq_gt_def seq_lt_off [of b])
  have HF: "H \<le> F" "H < HALF"
    using highest_sacked_off [OF rok r(5), of "snd_una tp"] r unfolding H_def highest_sacked_def U_def by auto
  have eq: "(found, tp') = (case next_lost_gap tp left (highest_sacked tp) of
      Some (l, r) \<Rightarrow> candidate_set tp TCP_RECOVERY_TX_RETRANSMIT 1 False l r
    | None \<Rightarrow> if allow \<and> seq_lt (high_data (sack tp)) se
        then candidate_set tp TCP_RECOVERY_TX_NEW_DATA 2 False (high_data (sack tp)) se
        else (case find_unsacked (sacked (sack tp)) left (highest_sacked tp) of
            Some (l, r) \<Rightarrow> candidate_set tp TCP_RECOVERY_TX_RETRANSMIT 3 False l r
          | None \<Rightarrow> next_rescue tp))"
    using run rec unfolding tcp_sack_schedule_next_def in_sack_recovery_def left_def Let_def by simp
  note gap = next_lost_gap_spec [OF r(1), of left "highest_sacked tp", folded H_def, unfolded L(1), OF L(2) HF(2)]
  have new: "seq_lt (high_data (sack tp)) se \<longleftrightarrow> F < seq_off b se"
    using r(4,5) by (simp add: F_def seq_lt_off [of b])
  show ?thesis
  proof (cases "next_lost_gap tp left (highest_sacked tp)")
    case (Some g)
    obtain l r' where g: "g = (l, r')" by fastforce
    have lg: "lost_gap b tp L H (l, r')" using gap Some g by simp
    have c: "candidate_set tp TCP_RECOVERY_TX_RETRANSMIT 1 False l r' = (found, tp')" using eq Some g by simp
    have "found \<and> good_retransmit b tp U F p \<and> nextseg_rule p = 1 \<and> cand_seq p = l"
      unfolding p_def using lg L(3) HF(1)
      by (intro candidate_retransmit [OF _ _ _ r(5) _ c]) (auto simp: lost_gap_def Let_def)
    then show ?thesis using lg that(1) by (simp add: lost_gap_def Let_def)
  next
    case None
    then have nl: "none_lost b tp {L..<H}" using gap by simp
    show ?thesis
    proof (cases "allow \<and> F < seq_off b se")
      case True
      then have c: "candidate_set tp TCP_RECOVERY_TX_NEW_DATA 2 False (high_data (sack tp)) se = (found, tp')"
        using eq None new by simp
      from candidate_set_spec [OF _ r(4) c] True obtain e where
        "found" "p = \<lparr>kind = TCP_RECOVERY_TX_NEW_DATA, nextseg_rule = 2, rescue = False,
           cand_seq = high_data (sack tp), cand_end = e\<rparr>"
        "F < seq_off b e" "seq_off b e \<le> seq_off b se" "seq_off b e = min (seq_off b se) (F + unat (sack_smss tp))"
        unfolding p_def F_def by blast
      then show ?thesis using True nl that(2) by simp
    next
      case noallow: False
      show ?thesis
      proof (cases "find_unsacked (sacked (sack tp)) left (highest_sacked tp)")
        case (Some g)
        obtain l r' where g: "g = (l, r')" by fastforce
        have f: "L \<le> seq_off b l \<and> seq_off b l < seq_off b r' \<and> seq_off b r' \<le> H \<and>
            {seq_off b l..<seq_off b r'} \<inter> sacked_bytes b tp = {} \<and> {L..<seq_off b l} \<subseteq> sacked_bytes b tp"
          using find_unsacked_Some [OF rok r(5), of left "highest_sacked tp" l r'] Some g L HF by (simp add: H_def)
        have c: "candidate_set tp TCP_RECOVERY_TX_RETRANSMIT 3 False l r' = (found, tp')"
          using eq None Some g noallow new by auto
        have "U \<le> seq_off b l" "seq_off b r' \<le> F" using f L(3) HF(1) by linarith+
        then have "found \<and> good_retransmit b tp U F p \<and> nextseg_rule p = 3 \<and> cand_seq p = l"
          unfolding p_def using f by (intro candidate_retransmit [OF _ _ _ r(5) _ c]) blast+
        then show ?thesis using f nl noallow that(3) by simp
      next
        case nogap: None
        have sub: "{L..<H} \<subseteq> sacked_bytes b tp"
          using find_unsacked_None [OF rok r(5), of left "highest_sacked tp"] nogap L HF by (simp add: H_def)
        have "next_rescue tp = (found, tp')" using eq None nogap noallow new by auto
        then show ?thesis
          using next_rescue_spec [OF r(1) U_def [THEN meta_eq_to_obj_eq] F_def [THEN meta_eq_to_obj_eq] r(2)]
            sub noallow that(4,5) unfolding p_def by blast
      qed
    qed
  qed
qed

subsection \<open>Properties\<close>


lemma demo_flight_recovers: "in_sack_recovery 4294967040 demo_flight 3000"
  by (simp add: in_sack_recovery_def demo_flight_def zero_defs board_ok_def nodes_ok_def seq_off_def in_half_def)

lemma demo_flight_next:
  "fst (tcp_sack_schedule_next demo_flight 3000 True)"
  "pending (sack (snd (tcp_sack_schedule_next demo_flight 3000 True)))
     = \<lparr>kind = TCP_RECOVERY_TX_RETRANSMIT, nextseg_rule = 1, rescue = False,
        cand_seq = 4294967040, cand_end = 4294967140\<rparr>"
  by code_simp+




end
