(* ===== verification/Tcp_Memory.thy ===== *)
theory Tcp_Memory
  imports Tcp_Stream
begin

text \<open>
  Owner-local TCP object pools, \<^verbatim>\<open>pro-stack/tcp_memory.c\<close>, and the resource gauges of
  \<^verbatim>\<open>pro-stack/resource.h\<close>. DPDK's mempool is not part of the repository: its operations are a record
  argument \<open>mp\<close> over an abstract pool state \<open>'p\<close>, and what the code relies on is \<open>mempool_laws\<close>. A
  pool pointer that may be NULL is an option. Object contents live with their users.
\<close>

subsection \<open>Resource gauges (resource.h)\<close>

record resource_metric =
  rm_capacity :: u64
  rm_current :: u64
  rm_peak :: u64
  rm_exhausted :: u64
  rm_unavailable :: u64
  rm_busy :: u64
  rm_limit :: u64

definition resource_metric_zero :: resource_metric where
  "resource_metric_zero = \<lparr>rm_capacity = 0, rm_current = 0, rm_peak = 0, rm_exhausted = 0,
     rm_unavailable = 0, rm_busy = 0, rm_limit = 0\<rparr>"

definition resource_acquire :: "resource_metric \<Rightarrow> u64 \<Rightarrow> resource_metric" where
  "resource_acquire r n =
     (let r = r\<lparr>rm_current := rm_current r + n\<rparr>
      in if rm_current r > rm_peak r then r\<lparr>rm_peak := rm_current r\<rparr> else r)"

definition resource_release :: "resource_metric \<Rightarrow> u64 \<Rightarrow> resource_metric" where
  "resource_release r n = r\<lparr>rm_current := rm_current r - n\<rparr>"

subsection \<open>DPDK mempool interface\<close>

record 'p rte_mempool_ops =
  mp_get :: "'p \<Rightarrow> 'p option"
  mp_put :: "'p \<Rightarrow> 'p"
  mp_avail :: "'p \<Rightarrow> u32"

text \<open>
  Documented behaviour of a pool without per-lcore cache used by one lcore: a get fails exactly
  when nothing is available, and get and put move the count by one.
\<close>

definition mempool_laws :: "'p rte_mempool_ops \<Rightarrow> bool" where
  "mempool_laws mp \<longleftrightarrow>
     (\<forall>p. mp_get mp p = None \<longleftrightarrow> mp_avail mp p = 0) \<and>
     (\<forall>p p'. mp_get mp p = Some p' \<longrightarrow> mp_avail mp p' = mp_avail mp p - 1) \<and>
     (\<forall>p. mp_avail mp p \<noteq> UINT32_MAX \<longrightarrow> mp_avail mp (mp_put mp p) = mp_avail mp p + 1)"

subsection \<open>State\<close>

datatype tcp_memory_kind =
    TCP_MEMORY_TX_CHUNK | TCP_MEMORY_RX_BLOB | TCP_MEMORY_OFO_SEG | TCP_MEMORY_FRAGMENT
  | TCP_MEMORY_SACK_RANGE | TCP_MEMORY_PAYLOAD

definition tcp_memory_kinds :: "tcp_memory_kind list" where
  "tcp_memory_kinds = [TCP_MEMORY_TX_CHUNK, TCP_MEMORY_RX_BLOB, TCP_MEMORY_OFO_SEG,
     TCP_MEMORY_FRAGMENT, TCP_MEMORY_SACK_RANGE, TCP_MEMORY_PAYLOAD]"

record 'p tcp_owner_memory =
  mem_pools :: "tcp_memory_kind \<Rightarrow> 'p option"
  mem_capacity :: "tcp_memory_kind \<Rightarrow> u32"
  mem_alloc_fail :: "tcp_memory_kind \<Rightarrow> u64"
  mem_peak_in_use :: "tcp_memory_kind \<Rightarrow> u32"
  mem_unavailable :: "tcp_memory_kind \<Rightarrow> u64"
  mem_sndbuf_bytes :: resource_metric
  mem_unacked_bytes :: resource_metric
  mem_time_wait :: resource_metric
  mem_lcore_id :: u16

record tcp_memory_snapshot =
  snap_capacity :: "tcp_memory_kind \<Rightarrow> u32"
  snap_available :: "tcp_memory_kind \<Rightarrow> u32"
  snap_alloc_fail :: "tcp_memory_kind \<Rightarrow> u64"
  snap_peak_in_use :: "tcp_memory_kind \<Rightarrow> u32"

definition TCP_MEMORY_LOW_WATER :: u32 where [simp]: "TCP_MEMORY_LOW_WATER = 64"
definition TCP_MEMORY_HIGH_WATER :: u32 where [simp]: "TCP_MEMORY_HIGH_WATER = 128"

fun tcp_memory_counts :: "tcp_memory_kind \<Rightarrow> u32" where
  "tcp_memory_counts TCP_MEMORY_TX_CHUNK = 8191"
| "tcp_memory_counts TCP_MEMORY_RX_BLOB = 4095"
| "tcp_memory_counts TCP_MEMORY_OFO_SEG = 4095"
| "tcp_memory_counts TCP_MEMORY_FRAGMENT = 4095"
| "tcp_memory_counts TCP_MEMORY_SACK_RANGE = 8191"
| "tcp_memory_counts TCP_MEMORY_PAYLOAD = 8191"

definition tcp_owner_memory_zero :: "'p tcp_owner_memory" where
  "tcp_owner_memory_zero =
     \<lparr>mem_pools = \<lambda>_. None, mem_capacity = \<lambda>_. 0, mem_alloc_fail = \<lambda>_. 0, mem_peak_in_use = \<lambda>_. 0, mem_unavailable = \<lambda>_. 0,
      mem_sndbuf_bytes = resource_metric_zero, mem_unacked_bytes = resource_metric_zero,
      mem_time_wait = resource_metric_zero, mem_lcore_id = 0\<rparr>"

subsection \<open>Operations\<close>

definition tcp_memory_update_peak ::
  "'p rte_mempool_ops \<Rightarrow> 'p tcp_owner_memory \<Rightarrow> tcp_memory_kind \<Rightarrow> 'p tcp_owner_memory" where
  "tcp_memory_update_peak mp memory k =
     (let available = (case mem_pools memory k of None \<Rightarrow> 0 | Some p \<Rightarrow> mp_avail mp p);
          used = mem_capacity memory k - available
      in if used > mem_peak_in_use memory k
         then memory\<lparr>mem_peak_in_use := (mem_peak_in_use memory)(k := used)\<rparr> else memory)"

definition tcp_memory_get ::
  "'p rte_mempool_ops \<Rightarrow> 'p tcp_owner_memory \<Rightarrow> tcp_memory_kind \<Rightarrow> bool \<times> 'p tcp_owner_memory" where
  "tcp_memory_get mp memory k =
     (case mem_pools memory k of
        None \<Rightarrow> (False, memory\<lparr>mem_alloc_fail := (mem_alloc_fail memory)(k := mem_alloc_fail memory k + 1),
                             mem_unavailable := (mem_unavailable memory)(k := mem_unavailable memory k + 1)\<rparr>)
      | Some p \<Rightarrow>
          (case mp_get mp p of
             None \<Rightarrow> (False, memory\<lparr>mem_alloc_fail := (mem_alloc_fail memory)(k := mem_alloc_fail memory k + 1)\<rparr>)
           | Some p' \<Rightarrow> (True, tcp_memory_update_peak mp (memory\<lparr>mem_pools := (mem_pools memory)(k := Some p')\<rparr>) k)))"

definition tcp_memory_put ::
  "'p rte_mempool_ops \<Rightarrow> 'p tcp_owner_memory \<Rightarrow> tcp_memory_kind \<Rightarrow> 'p tcp_owner_memory" where
  "tcp_memory_put mp memory k =
     (case mem_pools memory k of None \<Rightarrow> memory
      | Some p \<Rightarrow> memory\<lparr>mem_pools := (mem_pools memory)(k := Some (mp_put mp p))\<rparr>)"

text \<open>
  \<open>create\<close> is \<^verbatim>\<open>rte_mempool_create\<close> for a kind with its object count; \<open>None\<close> is its failure.
\<close>

definition tcp_owner_memory_fini :: "'p tcp_owner_memory \<Rightarrow> 'p tcp_owner_memory" where
  "tcp_owner_memory_fini memory = tcp_owner_memory_zero"

fun init_kinds ::
  "(tcp_memory_kind \<Rightarrow> u32 \<Rightarrow> 'p option) \<Rightarrow> 'p tcp_owner_memory \<Rightarrow> tcp_memory_kind list \<Rightarrow> int \<times> 'p tcp_owner_memory" where
  "init_kinds create memory [] = (0, memory)"
| "init_kinds create memory (k # ks) =
     (case create k (tcp_memory_counts k) of
        None \<Rightarrow> (- 1, tcp_owner_memory_fini memory)
      | Some p \<Rightarrow> init_kinds create
          (memory\<lparr>mem_pools := (mem_pools memory)(k := Some p),
                  mem_capacity := (mem_capacity memory)(k := tcp_memory_counts k)\<rparr>) ks)"

definition tcp_owner_memory_init ::
  "(tcp_memory_kind \<Rightarrow> u32 \<Rightarrow> 'p option) \<Rightarrow> u16 \<Rightarrow> int \<times> 'p tcp_owner_memory" where
  "tcp_owner_memory_init create lcore =
     init_kinds create (tcp_owner_memory_zero\<lparr>mem_lcore_id := lcore\<rparr>) tcp_memory_kinds"

definition tcp_owner_memory_snapshot ::
  "'p rte_mempool_ops \<Rightarrow> 'p tcp_owner_memory \<Rightarrow> tcp_memory_snapshot" where
  "tcp_owner_memory_snapshot mp memory =
     \<lparr>snap_capacity = mem_capacity memory,
      snap_available = (\<lambda>k. case mem_pools memory k of None \<Rightarrow> 0 | Some p \<Rightarrow> mp_avail mp p),
      snap_alloc_fail = mem_alloc_fail memory, snap_peak_in_use = mem_peak_in_use memory\<rparr>"

definition tcp_owner_memory_below_low_water :: "'p rte_mempool_ops \<Rightarrow> 'p tcp_owner_memory \<Rightarrow> bool" where
  "tcp_owner_memory_below_low_water mp memory \<longleftrightarrow>
     list_ex (\<lambda>k. case mem_pools memory k of None \<Rightarrow> False | Some p \<Rightarrow> mp_avail mp p < TCP_MEMORY_LOW_WATER)
       tcp_memory_kinds"

definition tcp_owner_memory_above_high_water :: "'p rte_mempool_ops \<Rightarrow> 'p tcp_owner_memory \<Rightarrow> bool" where
  "tcp_owner_memory_above_high_water mp memory \<longleftrightarrow>
     list_all (\<lambda>k. case mem_pools memory k of None \<Rightarrow> True | Some p \<Rightarrow> \<not> mp_avail mp p \<le> TCP_MEMORY_HIGH_WATER)
       tcp_memory_kinds"

definition tcp_memory_ofo_seg_alloc where
  "tcp_memory_ofo_seg_alloc mp memory = tcp_memory_get mp memory TCP_MEMORY_OFO_SEG"

definition tcp_memory_ofo_seg_free where
  "tcp_memory_ofo_seg_free mp memory = tcp_memory_put mp memory TCP_MEMORY_OFO_SEG"

definition tcp_memory_payload_alloc where
  "tcp_memory_payload_alloc mp memory = tcp_memory_get mp memory TCP_MEMORY_PAYLOAD"

definition tcp_memory_payload_free where
  "tcp_memory_payload_free mp memory = tcp_memory_put mp memory TCP_MEMORY_PAYLOAD"

subsection \<open>Accounting\<close>

text \<open>Objects of a kind that are checked out.\<close>

definition in_use :: "'p rte_mempool_ops \<Rightarrow> 'p tcp_owner_memory \<Rightarrow> tcp_memory_kind \<Rightarrow> nat" where
  "in_use mp memory k =
     (case mem_pools memory k of None \<Rightarrow> 0 | Some p \<Rightarrow> unat (mem_capacity memory k) - unat (mp_avail mp p))"

text \<open>No pool holds more objects than it was created with, and the peaks cover the use.\<close>

definition memory_ok :: "'p rte_mempool_ops \<Rightarrow> 'p tcp_owner_memory \<Rightarrow> bool" where
  "memory_ok mp memory \<longleftrightarrow>
     (\<forall>k. (case mem_pools memory k of None \<Rightarrow> True | Some p \<Rightarrow> mp_avail mp p \<le> mem_capacity memory k) \<and>
          in_use mp memory k \<le> unat (mem_peak_in_use memory k) \<and>
          unat (mem_peak_in_use memory k) \<le> unat (mem_capacity memory k))"

lemma get_cases:
  assumes "mempool_laws mp"
  obtains "fst (tcp_memory_get mp memory k) = False"
      "mem_pools (snd (tcp_memory_get mp memory k)) = mem_pools memory"
      "mem_capacity (snd (tcp_memory_get mp memory k)) = mem_capacity memory"
      "mem_peak_in_use (snd (tcp_memory_get mp memory k)) = mem_peak_in_use memory"
      "mem_pools memory k = None \<or> in_use mp memory k = unat (mem_capacity memory k)"
  | p p' where "fst (tcp_memory_get mp memory k) = True" "mem_pools memory k = Some p"
      "mp_avail mp p \<noteq> 0" "mp_avail mp p' = mp_avail mp p - 1"
      "mem_pools (snd (tcp_memory_get mp memory k)) = (mem_pools memory)(k := Some p')"
      "mem_capacity (snd (tcp_memory_get mp memory k)) = mem_capacity memory"
      "mem_peak_in_use (snd (tcp_memory_get mp memory k)) =
        (mem_peak_in_use memory)(k := max (mem_peak_in_use memory k) (mem_capacity memory k - mp_avail mp p'))"
proof (cases "mem_pools memory k")
  case None
  then show ?thesis using that(1) by (simp add: tcp_memory_get_def)
next
  case (Some p)
  show ?thesis
  proof (cases "mp_get mp p")
    case None
    moreover have "mp_avail mp p = 0" using None assms by (auto simp: mempool_laws_def)
    ultimately show ?thesis using Some that(1) by (simp add: tcp_memory_get_def in_use_def)
  next
    case (Some p')
    moreover have "mp_avail mp p \<noteq> 0" "mp_avail mp p' = mp_avail mp p - 1"
      using Some assms unfolding mempool_laws_def by (metis option.distinct(1))+
    ultimately show ?thesis
      using \<open>mem_pools memory k = Some p\<close> that(2) [of p p']
      by (cases "mem_peak_in_use memory k < mem_capacity memory k - mp_avail mp p'")
         (simp_all add: tcp_memory_get_def tcp_memory_update_peak_def Let_def max.absorb1 max.absorb2)
  qed
qed

lemma avail_pred: "a \<noteq> 0 \<Longrightarrow> unat (a - 1 :: u32) = unat a - 1"
  by (simp add: unat_sub word_le_nat_alt unat_gt_0 Suc_leI)

lemma get_ok:
  assumes "mempool_laws mp" "memory_ok mp memory"
  shows "memory_ok mp (snd (tcp_memory_get mp memory k)) \<and>
    in_use mp (snd (tcp_memory_get mp memory k)) =
      (in_use mp memory)(k := in_use mp memory k + (if fst (tcp_memory_get mp memory k) then 1 else 0))"
proof (rule get_cases [OF assms(1), of memory k], goal_cases)
  case 1
  have "in_use mp (snd (tcp_memory_get mp memory k)) = in_use mp memory"
    unfolding in_use_def [abs_def] 1(2,3) by (rule refl)
  then show ?thesis using assms(2) 1(1) unfolding memory_ok_def 1(2-4) by simp
next
  case (2 p p')
  let ?a = "unat (mp_avail mp p)" and ?c = "unat (mem_capacity memory k)"
  have a: "0 < ?a" "?a \<le> ?c" "unat (mp_avail mp p') = ?a - 1"
    using 2(2-4) assms(2) avail_pred by (auto simp: memory_ok_def word_le_nat_alt unat_gt_0 split: option.splits)
  then have "unat (mem_capacity memory k - mp_avail mp p') = ?c - (?a - 1)"
    by (simp add: unat_sub word_le_nat_alt)
  then have peak: "unat (max (mem_peak_in_use memory k) (mem_capacity memory k - mp_avail mp p')) =
      max (unat (mem_peak_in_use memory k)) (?c - (?a - 1))"
    by (simp add: max_def word_le_nat_alt)
  have "memory_ok mp (snd (tcp_memory_get mp memory k))"
    unfolding memory_ok_def in_use_def 2(5-7)
    using assms(2) a peak by (auto simp: memory_ok_def in_use_def word_le_nat_alt)
  moreover have "in_use mp (snd (tcp_memory_get mp memory k)) = (in_use mp memory)(k := in_use mp memory k + 1)"
    using 2(2) a unfolding in_use_def [abs_def] 2(5,6) by (auto simp: fun_eq_iff)
  ultimately show ?thesis using 2(1) by simp
qed

lemma put_ok:
  assumes "mempool_laws mp" "memory_ok mp memory" "0 < in_use mp memory k"
  shows "memory_ok mp (tcp_memory_put mp memory k) \<and>
    in_use mp (tcp_memory_put mp memory k) = (in_use mp memory)(k := in_use mp memory k - 1)"
proof -
  obtain p where p: "mem_pools memory k = Some p" "unat (mp_avail mp p) < unat (mem_capacity memory k)"
    using assms(3) by (auto simp: in_use_def split: option.splits)
  then have "mp_avail mp p \<noteq> UINT32_MAX"
    using unat_u32_le [of "mem_capacity memory k"] unat_UINT32_MAX by auto
  then have "mp_avail mp (mp_put mp p) = mp_avail mp p + 1"
    using assms(1) by (simp add: mempool_laws_def)
  moreover have "unat (mp_avail mp p + 1) = unat (mp_avail mp p) + 1"
    using p(2) unat_u32_lt [of "mem_capacity memory k"] by (simp add: unat_add_u32)
  ultimately have a: "unat (mp_avail mp (mp_put mp p)) = unat (mp_avail mp p) + 1" by simp
  show ?thesis
  proof
    show "memory_ok mp (tcp_memory_put mp memory k)"
      unfolding memory_ok_def
    proof
      fix j
      show "(case mem_pools (tcp_memory_put mp memory k) j of None \<Rightarrow> True
           | Some q \<Rightarrow> mp_avail mp q \<le> mem_capacity (tcp_memory_put mp memory k) j) \<and>
          in_use mp (tcp_memory_put mp memory k) j \<le> unat (mem_peak_in_use (tcp_memory_put mp memory k) j) \<and>
          unat (mem_peak_in_use (tcp_memory_put mp memory k) j) \<le> unat (mem_capacity (tcp_memory_put mp memory k) j)"
        using assms(2) p a
        by (cases "j = k") (auto simp: memory_ok_def in_use_def tcp_memory_put_def word_le_nat_alt
              split: option.splits dest!: spec [of _ j])
    qed
    show "in_use mp (tcp_memory_put mp memory k) = (in_use mp memory)(k := in_use mp memory k - 1)"
      using p a by (auto simp: fun_eq_iff in_use_def tcp_memory_put_def split: option.split)
  qed
qed

subsection \<open>Start-up\<close>

lemma init_kinds_ok:
  "init_kinds create memory ks = (rc, memory') \<Longrightarrow>
     (rc = 0 \<and> (\<forall>k \<in> set ks. create k (tcp_memory_counts k) \<noteq> None) \<and> 
        mem_pools memory' = (\<lambda>k. if k \<in> set ks then create k (tcp_memory_counts k) else mem_pools memory k) \<and>
        mem_capacity memory' = (\<lambda>k. if k \<in> set ks then tcp_memory_counts k else mem_capacity memory k) \<and>
        mem_peak_in_use memory' = mem_peak_in_use memory) \<or>
     (rc = - 1 \<and> (\<exists>k \<in> set ks. create k (tcp_memory_counts k) = None) \<and> memory' = tcp_owner_memory_zero)"
proof (induction ks arbitrary: memory)
  case (Cons k ks)
  show ?case
  proof (cases "create k (tcp_memory_counts k)")
    case None
    then show ?thesis using Cons.prems by (auto simp: tcp_owner_memory_fini_def)
  next
    case (Some p)
    then show ?thesis using Cons.IH [of "memory\<lparr>mem_pools := (mem_pools memory)(k := Some p),
        mem_capacity := (mem_capacity memory)(k := tcp_memory_counts k)\<rparr>"] Cons.prems
      by (auto simp: fun_eq_iff)
  qed
qed simp

lemma all_kinds: "set tcp_memory_kinds = UNIV"
proof -
  have "k \<in> set tcp_memory_kinds" for k by (cases k) (simp_all add: tcp_memory_kinds_def)
  then show ?thesis by blast
qed


text \<open>A pool that counts its objects satisfies the laws.\<close>

definition counting_pool :: "u32 rte_mempool_ops" where
  "counting_pool = \<lparr>mp_get = \<lambda>n. if n = 0 then None else Some (n - 1), mp_put = \<lambda>n. n + 1, mp_avail = \<lambda>n. n\<rparr>"

lemma counting_pool_laws: "mempool_laws counting_pool"
  by (auto simp: mempool_laws_def counting_pool_def split: if_splits)


end
