(* ===== verification/Tcp_Ofo.thy ===== *)
theory Tcp_Ofo
  imports Tcp_Memory
begin

text \<open>
  Out-of-order reassembly, \<^verbatim>\<open>pro-stack/tcp_ofo.c\<close>: the queue of a stream, the owner's pressure
  policy and metrics, and the object pools. The three states an operation works on, the stream, the
  policy state of the calling packet worker and its TCP memory, are one record; a packet worker
  always has the latter two. A data pointer with its length is a list of bytes. The
  element of the tree for a segment is its sequence number with its address.
\<close>

subsection \<open>Constants\<close>

definition TCP_RCVBUF_SIZE :: u32 where [simp]: "TCP_RCVBUF_SIZE = 256 * 1024"
definition TCP_OFO_MAX_BYTES :: u32 where [simp]: "TCP_OFO_MAX_BYTES = TCP_RCVBUF_SIZE"
definition TCP_OFO_OWNER_MAX_BYTES :: u64 where [simp]: "TCP_OFO_OWNER_MAX_BYTES = 4 * 1024 * 1024"
definition TCP_OFO_PRESSURE_ENTER_PERCENT :: u64 where [simp]: "TCP_OFO_PRESSURE_ENTER_PERCENT = 75"
definition TCP_OFO_PRESSURE_EXIT_PERCENT :: u64 where [simp]: "TCP_OFO_PRESSURE_EXIT_PERCENT = 50"
definition TCP_OFO_PRESSURE_NEAR_DISTANCE :: u32 where [simp]: "TCP_OFO_PRESSURE_NEAR_DISTANCE = 16 * 1024"
definition TCP_OFO_PRESSURE_MEDIUM_DISTANCE :: u32 where [simp]: "TCP_OFO_PRESSURE_MEDIUM_DISTANCE = 64 * 1024"
definition TCP_OFO_PRESSURE_NEAR_MAX_SEGS :: u32 where [simp]: "TCP_OFO_PRESSURE_NEAR_MAX_SEGS = 8"
definition TCP_OFO_PRESSURE_MEDIUM_MAX_SEGS :: u32 where [simp]: "TCP_OFO_PRESSURE_MEDIUM_MAX_SEGS = 16"
definition TCP_OFO_PRESSURE_FAR_MAX_SEGS :: u32 where [simp]: "TCP_OFO_PRESSURE_FAR_MAX_SEGS = 24"
definition TCP_OFO_PRESSURE_NEAR_MAX_BYTES :: u32 where [simp]: "TCP_OFO_PRESSURE_NEAR_MAX_BYTES = 16 * 1024"
definition TCP_OFO_PRESSURE_MEDIUM_MAX_BYTES :: u32 where [simp]: "TCP_OFO_PRESSURE_MEDIUM_MAX_BYTES = 32 * 1024"
definition TCP_OFO_PRESSURE_FAR_MAX_BYTES :: u32 where [simp]: "TCP_OFO_PRESSURE_FAR_MAX_BYTES = 48 * 1024"

subsection \<open>State\<close>

record tcp_ofo_metrics =
  om_segments_current :: u64
  om_segments_peak :: u64
  om_bytes_current :: u64
  om_bytes_peak :: u64
  om_accepted_segments :: u64
  om_accepted_bytes :: u64
  om_released_segments :: u64
  om_released_bytes :: u64
  om_reorder_distance_max :: u64
  om_drop_rcvbuf :: u64
  om_drop_seg_limit :: u64
  om_drop_byte_limit :: u64
  om_drop_owner_limit :: u64
  om_drop_alloc :: u64
  om_drop_pressure :: u64
  om_pressure_transitions :: u64
  om_pressure_active :: u64

record tcp_ofo_owner_state =
  metrics :: tcp_ofo_metrics
  lifetime_segments_peak :: u64
  lifetime_bytes_peak :: u64
  pressure :: bool

definition tcp_ofo_metrics_zero :: tcp_ofo_metrics where
  "tcp_ofo_metrics_zero =
     \<lparr>om_segments_current = 0, om_segments_peak = 0, om_bytes_current = 0, om_bytes_peak = 0,
      om_accepted_segments = 0, om_accepted_bytes = 0, om_released_segments = 0,
      om_released_bytes = 0, om_reorder_distance_max = 0, om_drop_rcvbuf = 0,
      om_drop_seg_limit = 0, om_drop_byte_limit = 0, om_drop_owner_limit = 0, om_drop_alloc = 0,
      om_drop_pressure = 0, om_pressure_transitions = 0, om_pressure_active = 0\<rparr>"

record 'p ofo_world =
  w_tp :: tcp_stream
  w_st :: tcp_ofo_owner_state
  w_mem :: "'p tcp_owner_memory"

subsection \<open>Sequence numbers and the receive window\<close>

definition tcp_ofo_seq_lt :: "u32 \<Rightarrow> u32 \<Rightarrow> bool" where
  "tcp_ofo_seq_lt a b \<longleftrightarrow> sint (a - b) < 0"

definition tcp_ofo_seq_leq :: "u32 \<Rightarrow> u32 \<Rightarrow> bool" where
  "tcp_ofo_seq_leq a b \<longleftrightarrow> sint (a - b) \<le> 0"

definition tcp_ofo_seq_gt :: "u32 \<Rightarrow> u32 \<Rightarrow> bool" where
  "tcp_ofo_seq_gt a b \<longleftrightarrow> sint (a - b) > 0"

definition tcp_ofo_rcv_wnd :: "tcp_stream \<Rightarrow> u32" where
  "tcp_ofo_rcv_wnd tp = (if rcvbuf_used tp \<ge> rcvbuf_size tp then 0 else rcvbuf_size tp - rcvbuf_used tp)"

interpretation ofo_sq: serial_order tcp_ofo_seq_lt
  by unfold_locales (simp add: tcp_ofo_seq_lt_def sint_diff_neg_iff)

subsection \<open>Pressure and metrics\<close>

definition tcp_ofo_owner_limit :: u64 where
  "tcp_ofo_owner_limit = TCP_OFO_OWNER_MAX_BYTES"

definition tcp_ofo_set_pressure :: "tcp_ofo_owner_state \<Rightarrow> bool \<Rightarrow> tcp_ofo_owner_state" where
  "tcp_ofo_set_pressure st p =
     (if pressure st = p then st
      else st\<lparr>pressure := p, metrics := (metrics st)\<lparr>om_pressure_transitions := om_pressure_transitions (metrics st) + 1\<rparr>\<rparr>)"

definition pool_available ::
  "'p rte_mempool_ops \<Rightarrow> 'p tcp_owner_memory \<Rightarrow> tcp_memory_kind \<Rightarrow> u32" where
  "pool_available mp memory k = (case mem_pools memory k of None \<Rightarrow> UINT32_MAX | Some p \<Rightarrow> mp_avail mp p)"

definition tcp_ofo_update_pressure ::
  "'p rte_mempool_ops \<Rightarrow> 'p tcp_owner_memory \<Rightarrow> tcp_ofo_owner_state \<Rightarrow> tcp_ofo_owner_state" where
  "tcp_ofo_update_pressure mp memory st =
     (let ofo_available = pool_available mp memory TCP_MEMORY_OFO_SEG;
          payload_available = pool_available mp memory TCP_MEMORY_PAYLOAD;
          owner_limit = tcp_ofo_owner_limit;
          enter_bytes = owner_limit * TCP_OFO_PRESSURE_ENTER_PERCENT div 100;
          exit_bytes = owner_limit * TCP_OFO_PRESSURE_EXIT_PERCENT div 100
      in if \<not> pressure st then
           (if ofo_available \<le> TCP_MEMORY_LOW_WATER \<or> payload_available \<le> TCP_MEMORY_LOW_WATER \<or>
               om_bytes_current (metrics st) \<ge> enter_bytes
            then tcp_ofo_set_pressure st True else st)
         else if ofo_available \<ge> TCP_MEMORY_HIGH_WATER \<and> payload_available \<ge> TCP_MEMORY_HIGH_WATER \<and>
                 om_bytes_current (metrics st) \<le> exit_bytes
              then tcp_ofo_set_pressure st False else st)"

definition tcp_ofo_metrics_reset_owner :: tcp_ofo_owner_state where
  "tcp_ofo_metrics_reset_owner = \<lparr>metrics = tcp_ofo_metrics_zero, lifetime_segments_peak = 0,
     lifetime_bytes_peak = 0, pressure = False\<rparr>"

definition tcp_ofo_resource_snapshot :: "tcp_ofo_owner_state \<Rightarrow> resource_metric \<times> resource_metric" where
  "tcp_ofo_resource_snapshot st =
     (resource_metric_zero\<lparr>rm_current := om_segments_current (metrics st), rm_peak := lifetime_segments_peak st\<rparr>,
      resource_metric_zero\<lparr>rm_capacity := tcp_ofo_owner_limit, rm_current := om_bytes_current (metrics st),
        rm_peak := lifetime_bytes_peak st\<rparr>)"

definition tcp_ofo_metrics_take ::
  "'p rte_mempool_ops \<Rightarrow> 'p tcp_owner_memory \<Rightarrow> tcp_ofo_owner_state \<Rightarrow> tcp_ofo_metrics \<times> tcp_ofo_owner_state" where
  "tcp_ofo_metrics_take mp memory st =
     (let st = tcp_ofo_update_pressure mp memory st;
          active = (if pressure st then 1 else 0);
          out = (metrics st)\<lparr>om_pressure_active := active\<rparr>
      in (out, st\<lparr>metrics := tcp_ofo_metrics_zero\<lparr>om_segments_current := om_segments_current out,
              om_segments_peak := om_segments_current out, om_bytes_current := om_bytes_current out,
              om_bytes_peak := om_bytes_current out, om_pressure_active := active\<rparr>\<rparr>))"

definition tcp_ofo_owner_can_reserve :: "tcp_ofo_owner_state \<Rightarrow> u32 \<Rightarrow> bool" where
  "tcp_ofo_owner_can_reserve st bytes \<longleftrightarrow>
     bytes = 0 \<or> \<not> (om_bytes_current (metrics st) > tcp_ofo_owner_limit \<or>
                     ucast bytes > tcp_ofo_owner_limit - om_bytes_current (metrics st))"

definition tcp_ofo_metrics_release :: "tcp_ofo_owner_state \<Rightarrow> u32 \<Rightarrow> bool \<Rightarrow> tcp_ofo_owner_state" where
  "tcp_ofo_metrics_release st bytes segment =
     (let m = metrics st;
          m = m\<lparr>om_bytes_current := (if ucast bytes \<ge> om_bytes_current m then 0 else om_bytes_current m - ucast bytes)\<rparr>;
          m = m\<lparr>om_released_bytes := om_released_bytes m + ucast bytes\<rparr>;
          m = (if segment then
                 m\<lparr>om_segments_current := (if om_segments_current m \<noteq> 0 then om_segments_current m - 1 else 0),
                   om_released_segments := om_released_segments m + 1\<rparr>
               else m)
      in st\<lparr>metrics := m\<rparr>)"

record tcp_ofo_limits =
  lim_segments :: u32
  lim_bytes :: u32

definition tcp_ofo_effective_limits ::
  "'p rte_mempool_ops \<Rightarrow> 'p tcp_owner_memory \<Rightarrow> tcp_ofo_owner_state \<Rightarrow> u32 \<Rightarrow> tcp_ofo_limits \<times> tcp_ofo_owner_state" where
  "tcp_ofo_effective_limits mp memory st reorder_distance =
     (let st = tcp_ofo_update_pressure mp memory st in
      (if \<not> pressure st then \<lparr>lim_segments = of_nat TCP_OFO_MAX_SEGS, lim_bytes = TCP_OFO_MAX_BYTES\<rparr>
       else if reorder_distance \<le> TCP_OFO_PRESSURE_NEAR_DISTANCE then
         \<lparr>lim_segments = TCP_OFO_PRESSURE_NEAR_MAX_SEGS, lim_bytes = TCP_OFO_PRESSURE_NEAR_MAX_BYTES\<rparr>
       else if reorder_distance \<le> TCP_OFO_PRESSURE_MEDIUM_DISTANCE then
         \<lparr>lim_segments = TCP_OFO_PRESSURE_MEDIUM_MAX_SEGS, lim_bytes = TCP_OFO_PRESSURE_MEDIUM_MAX_BYTES\<rparr>
       else \<lparr>lim_segments = TCP_OFO_PRESSURE_FAR_MAX_SEGS, lim_bytes = TCP_OFO_PRESSURE_FAR_MAX_BYTES\<rparr>,
       st))"

definition tcp_ofo_metrics_accept :: "tcp_ofo_owner_state \<Rightarrow> u32 \<Rightarrow> tcp_ofo_owner_state" where
  "tcp_ofo_metrics_accept st bytes =
     (let m = metrics st;
          m = m\<lparr>om_segments_current := om_segments_current m + 1, om_bytes_current := om_bytes_current m + ucast bytes\<rparr>;
          sp = (if om_segments_current m > lifetime_segments_peak st then om_segments_current m else lifetime_segments_peak st);
          bp = (if om_bytes_current m > lifetime_bytes_peak st then om_bytes_current m else lifetime_bytes_peak st);
          m = m\<lparr>om_accepted_segments := om_accepted_segments m + 1, om_accepted_bytes := om_accepted_bytes m + ucast bytes\<rparr>;
          m = (if om_segments_current m > om_segments_peak m then m\<lparr>om_segments_peak := om_segments_current m\<rparr> else m);
          m = (if om_bytes_current m > om_bytes_peak m then m\<lparr>om_bytes_peak := om_bytes_current m\<rparr> else m)
      in st\<lparr>metrics := m, lifetime_segments_peak := sp, lifetime_bytes_peak := bp\<rparr>)"

definition tcp_ofo_rcvbuf_sub :: "tcp_stream \<Rightarrow> u32 \<Rightarrow> tcp_stream" where
  "tcp_ofo_rcvbuf_sub tp bytes =
     tp\<lparr>rcvbuf_used := (if bytes \<ge> rcvbuf_used tp then 0 else rcvbuf_used tp - bytes)\<rparr>"

subsection \<open>The index and the list\<close>

type_synonym ofo_ref = "u32 \<times> nat"

definition ofo_ref :: "tcp_ofo_seg \<Rightarrow> ofo_ref" where
  "ofo_ref s = (seg_seq s, seg_ptr s)"

fun lower_bound_loop :: "ofo_ref rb_node \<Rightarrow> u32 \<Rightarrow> ofo_ref option \<Rightarrow> ofo_ref option" where
  "lower_bound_loop RbNil seq result = result"
| "lower_bound_loop (RbNode c l k r) seq result =
     (if tcp_ofo_seq_lt (fst k) seq then lower_bound_loop r seq result else lower_bound_loop l seq (Some k))"

definition tcp_ofo_lower_bound :: "tcp_stream \<Rightarrow> u32 \<Rightarrow> ofo_ref option" where
  "tcp_ofo_lower_bound tp seq = lower_bound_loop (ofo_tree tp) seq None"

text \<open>The part of the queue before a segment, and the queue from the segment on.\<close>

definition queue_before :: "tcp_ofo_seg list \<Rightarrow> ofo_ref option \<Rightarrow> tcp_ofo_seg list" where
  "queue_before segs node = takeWhile (\<lambda>s. node \<noteq> Some (ofo_ref s)) segs"

definition queue_from :: "tcp_ofo_seg list \<Rightarrow> ofo_ref option \<Rightarrow> tcp_ofo_seg list" where
  "queue_from segs node = dropWhile (\<lambda>s. node \<noteq> Some (ofo_ref s)) segs"

definition seg_end :: "tcp_ofo_seg \<Rightarrow> u32" where
  "seg_end s = seg_seq s + seg_len s"

text \<open>The walk over buffered segments; \<open>None\<close> is the early \<^verbatim>\<open>return false\<close>.\<close>

fun buffered_loop ::
  "tcp_ofo_seg list \<Rightarrow> u32 \<Rightarrow> u32 \<Rightarrow> tcp_ofo_seg option \<Rightarrow> (u32 \<times> tcp_ofo_seg option) option" where
  "buffered_loop [] position fin lst = Some (position, lst)"
| "buffered_loop (n # ns) position fin lst =
     (if \<not> tcp_ofo_seq_lt position fin then Some (position, lst)
      else if tcp_ofo_seq_gt (seg_seq n) position then None
      else buffered_loop ns (if tcp_ofo_seq_gt (seg_end n) position then seg_end n else position) fin (Some n))"

definition tcp_ofo_range_buffered :: "tcp_stream \<Rightarrow> u32 \<Rightarrow> u32 \<Rightarrow> bool \<Rightarrow> bool" where
  "tcp_ofo_range_buffered tp seq len has_fin =
     (let node = tcp_ofo_lower_bound tp seq;
          pre = queue_before (ofo tp) node;
          nodes = queue_from (ofo tp) node;
          nodes = (if pre \<noteq> [] \<and> tcp_ofo_seq_gt (seg_end (last pre)) seq then last pre # nodes else nodes);
          fin = seq + len
      in case buffered_loop nodes seq fin None of
           None \<Rightarrow> False
         | Some (position, lst) \<Rightarrow>
             if tcp_ofo_seq_lt position fin then False
             else if \<not> has_fin then True
             else if (case lst of None \<Rightarrow> False | Some s \<Rightarrow> seg_has_fin s \<and> seg_end s = fin) then True
             else (case queue_from (ofo tp) (tcp_ofo_lower_bound tp fin) of
                     [] \<Rightarrow> False
                   | s # _ \<Rightarrow> tcp_ofo_lower_bound tp fin \<noteq> None \<and> seg_seq s = fin \<and> seg_len s = 0 \<and> seg_has_fin s))"

definition tcp_ofo_record_rcv_window_drop ::
  "('p, 'x) ofo_world_scheme \<Rightarrow> u32 \<Rightarrow> u32 \<Rightarrow> bool \<Rightarrow> ('p, 'x) ofo_world_scheme" where
  "tcp_ofo_record_rcv_window_drop w seq len has_fin =
     (if \<not> tcp_ofo_range_buffered (w_tp w) seq len has_fin
      then w\<lparr>w_st := (w_st w)\<lparr>metrics := (metrics (w_st w))\<lparr>om_drop_rcvbuf := om_drop_rcvbuf (metrics (w_st w)) + 1\<rparr>\<rparr>\<rparr>
      else w)"

text \<open>The vacant link a new key descends to.\<close>

fun insert_link :: "u32 \<Rightarrow> ofo_ref rb_node \<Rightarrow> ofo_ref rb_parent list \<Rightarrow> ofo_ref rb_parent list" where
  "insert_link seq RbNil ps = ps"
| "insert_link seq (RbNode c l k r) ps =
     (if tcp_ofo_seq_lt seq (fst k) then insert_link seq l (IsLeft c k r # ps)
      else insert_link seq r (IsRight c k l # ps))"

text \<open>The missing grandparent of \<open>rb_insert_color\<close> does not occur in a red-black tree.\<close>

definition tcp_ofo_tree_insert :: "ofo_ref rb_node \<Rightarrow> tcp_ofo_seg \<Rightarrow> ofo_ref rb_node" where
  "tcp_ofo_tree_insert root seg =
     (case rb_insert_color (rb_link_node (ofo_ref seg)) (insert_link (seg_seq seg) root []) of Some t \<Rightarrow> t | None \<Rightarrow> root)"

definition tcp_ofo_list_insert_before ::
  "tcp_ofo_seg list \<Rightarrow> tcp_ofo_seg \<Rightarrow> ofo_ref option \<Rightarrow> tcp_ofo_seg list" where
  "tcp_ofo_list_insert_before segs seg before =
     queue_before segs before @ seg # queue_from segs before"

definition tcp_ofo_unlink :: "('p, 'x) ofo_world_scheme \<Rightarrow> tcp_ofo_seg \<Rightarrow> ('p, 'x) ofo_world_scheme" where
  "tcp_ofo_unlink w seg =
     (let tp = w_tp w;
          tp = tp\<lparr>ofo_tree := rb_erase (ofo_ref seg) (ofo_tree tp)\<rparr>;
          tp = tp\<lparr>ofo := queue_before (ofo tp) (Some (ofo_ref seg)) @ tl (queue_from (ofo tp) (Some (ofo_ref seg)))\<rparr>;
          tp = tp\<lparr>ofo_count := ofo_count tp - 1, ofo_bytes := ofo_bytes tp - seg_len seg\<rparr>;
          st = tcp_ofo_metrics_release (w_st w) (seg_len seg) True;
          tp = (if ofo_count tp = 0 then tp\<lparr>ofo_reorder_distance_peak := 0\<rparr> else tp)
      in w\<lparr>w_tp := tp, w_st := st\<rparr>)"

definition tcp_ofo_rekey_after_trim ::
  "('p, 'x) ofo_world_scheme \<Rightarrow> tcp_ofo_seg \<Rightarrow> u32 \<Rightarrow> tcp_ofo_seg \<times> ('p, 'x) ofo_world_scheme" where
  "tcp_ofo_rekey_after_trim w seg skip =
     (let tp = w_tp w;
          tree = rb_erase (ofo_ref seg) (ofo_tree tp);
          seg' = seg\<lparr>seg_seq := seg_seq seg + skip, seg_data_off := seg_data_off seg + skip, seg_len := seg_len seg - skip\<rparr>;
          segs = queue_before (ofo tp) (Some (ofo_ref seg)) @ seg' # tl (queue_from (ofo tp) (Some (ofo_ref seg)));
          tp = tp\<lparr>ofo := segs, ofo_bytes := ofo_bytes tp - skip\<rparr>;
          st = tcp_ofo_metrics_release (w_st w) skip False;
          tp = tcp_ofo_rcvbuf_sub tp skip;
          tp = tp\<lparr>ofo_tree := tcp_ofo_tree_insert tree seg'\<rparr>
      in (seg', w\<lparr>w_tp := tp, w_st := st\<rparr>))"

text \<open>A segment has payload storage exactly when it was linked with payload.\<close>

definition tcp_ofo_seg_free ::
  "'p rte_mempool_ops \<Rightarrow> ('p, 'x) ofo_world_scheme \<Rightarrow> tcp_ofo_seg \<Rightarrow> ('p, 'x) ofo_world_scheme" where
  "tcp_ofo_seg_free mp w seg =
     (let memory = w_mem w;
          memory = (if seg_data seg \<noteq> [] then tcp_memory_payload_free mp memory else memory)
      in w\<lparr>w_mem := tcp_memory_ofo_seg_free mp memory\<rparr>)"

fun purge_loop ::
  "'p rte_mempool_ops \<Rightarrow> ('p, 'x) ofo_world_scheme \<Rightarrow> tcp_ofo_seg list \<Rightarrow> ('p, 'x) ofo_world_scheme" where
  "purge_loop mp w [] = w"
| "purge_loop mp w (seg # segs) =
     purge_loop mp (tcp_ofo_seg_free mp
       (tcp_ofo_unlink (w\<lparr>w_tp := tcp_ofo_rcvbuf_sub (w_tp w) (seg_len seg)\<rparr>) seg) seg) segs"

definition tcp_ofo_purge ::
  "'p rte_mempool_ops \<Rightarrow> ('p, 'x) ofo_world_scheme \<Rightarrow> ('p, 'x) ofo_world_scheme" where
  "tcp_ofo_purge mp w =
     (let w = purge_loop mp w (ofo (w_tp w))
      in w\<lparr>w_tp := (w_tp w)\<lparr>ofo_tree := RbNil, ofo := [], ofo_count := 0, ofo_bytes := 0,
             ofo_reorder_distance_peak := 0, sack_recent_valid := False, sack_history := [],
             dsack_pending := False\<rparr>\<rparr>)"

subsection \<open>Admission\<close>

text \<open>The distances and limits \<^verbatim>\<open>tcp_ofo_link\<close> computes first.\<close>

definition link_limits ::
  "'p rte_mempool_ops \<Rightarrow> ('p, 'x) ofo_world_scheme \<Rightarrow> u32 \<Rightarrow> u32 \<times> tcp_ofo_limits \<times> tcp_ofo_owner_state" where
  "link_limits mp w seq =
     (let tp = w_tp w; st = w_st w;
          reorder_distance = (if tcp_ofo_seq_gt seq (recv_ack tp) then seq - recv_ack tp else 0);
          episode_distance = (if reorder_distance < ofo_reorder_distance_peak tp
            then ofo_reorder_distance_peak tp else reorder_distance);
          st = (if ucast reorder_distance > om_reorder_distance_max (metrics st)
                then st\<lparr>metrics := (metrics st)\<lparr>om_reorder_distance_max := ucast reorder_distance\<rparr>\<rparr> else st)
      in (episode_distance, tcp_ofo_effective_limits mp (w_mem w) st episode_distance))"

text \<open>Why a segment is refused, in the order of the checks, and the counters it moves.\<close>

datatype ofo_drop = DROP_RCVBUF | DROP_SEG_LIMIT | DROP_BYTE_LIMIT | DROP_OWNER_LIMIT | DROP_ALLOC

definition link_refusal ::
  "tcp_stream \<Rightarrow> tcp_ofo_limits \<Rightarrow> tcp_ofo_owner_state \<Rightarrow> u32 \<Rightarrow> ofo_drop option" where
  "link_refusal tp limits st len =
     (if len > tcp_ofo_rcv_wnd tp then Some DROP_RCVBUF
      else if ucast (ofo_count tp) \<ge> lim_segments limits then Some DROP_SEG_LIMIT
      else if ofo_bytes tp > lim_bytes limits \<or> len > lim_bytes limits - ofo_bytes tp then Some DROP_BYTE_LIMIT
      else if \<not> tcp_ofo_owner_can_reserve st len then Some DROP_OWNER_LIMIT
      else if len > TCP_MEMORY_CHUNK_SIZE then Some DROP_ALLOC
      else None)"

fun count_drop :: "tcp_ofo_limits \<Rightarrow> ofo_drop \<Rightarrow> tcp_ofo_metrics \<Rightarrow> tcp_ofo_metrics" where
  "count_drop limits DROP_RCVBUF m = m\<lparr>om_drop_rcvbuf := om_drop_rcvbuf m + 1\<rparr>"
| "count_drop limits DROP_SEG_LIMIT m =
     (let m = m\<lparr>om_drop_seg_limit := om_drop_seg_limit m + 1\<rparr>
      in if lim_segments limits < of_nat TCP_OFO_MAX_SEGS then m\<lparr>om_drop_pressure := om_drop_pressure m + 1\<rparr> else m)"
| "count_drop limits DROP_BYTE_LIMIT m =
     (let m = m\<lparr>om_drop_byte_limit := om_drop_byte_limit m + 1\<rparr>
      in if lim_bytes limits < TCP_OFO_MAX_BYTES then m\<lparr>om_drop_pressure := om_drop_pressure m + 1\<rparr> else m)"
| "count_drop limits DROP_OWNER_LIMIT m = m\<lparr>om_drop_owner_limit := om_drop_owner_limit m + 1\<rparr>"
| "count_drop limits DROP_ALLOC m = m\<lparr>om_drop_alloc := om_drop_alloc m + 1\<rparr>"

text \<open>
  The part of \<^verbatim>\<open>tcp_ofo_link\<close> before it allocates: \<open>Inl\<close> is an early return with that code, \<open>Inr\<close>
  carries the episode distance of an admitted segment.
\<close>

definition ofo_admit ::
  "'p rte_mempool_ops \<Rightarrow> ('p, 'x) ofo_world_scheme \<Rightarrow> u32 \<Rightarrow> byte list \<Rightarrow> bool \<Rightarrow> tcp_ofo_seg option
   \<Rightarrow> (int + u32) \<times> ('p, 'x) ofo_world_scheme" where
  "ofo_admit mp w seq data has_fin before =
     (let len = of_nat (length data) :: u32 in
      if len = 0 \<and> \<not> has_fin then (Inl 0, w)
      else if map_option seg_seq before = Some seq then (Inl 0, w)
      else case link_limits mp w seq of (episode_distance, limits, st) \<Rightarrow>
        (case link_refusal (w_tp w) limits st len of
           Some d \<Rightarrow> (Inl (- 1), w\<lparr>w_st := st\<lparr>metrics := count_drop limits d (metrics st)\<rparr>\<rparr>)
         | None \<Rightarrow> (Inr episode_distance, w\<lparr>w_st := st\<rparr>)))"

definition count_drop_alloc :: "('p, 'x) ofo_world_scheme \<Rightarrow> ('p, 'x) ofo_world_scheme" where
  "count_drop_alloc w =
     w\<lparr>w_st := (w_st w)\<lparr>metrics := (metrics (w_st w))\<lparr>om_drop_alloc := om_drop_alloc (metrics (w_st w)) + 1\<rparr>\<rparr>\<rparr>"

text \<open>An address that no queued segment has, for the object the pool hands out.\<close>

definition fresh_ptr :: "tcp_ofo_seg list \<Rightarrow> nat" where
  "fresh_ptr segs = Suc (foldr max (map seg_ptr segs) 0)"

definition tcp_ofo_link ::
  "'p rte_mempool_ops \<Rightarrow> ('p, 'x) ofo_world_scheme \<Rightarrow> u32 \<Rightarrow> byte list \<Rightarrow> bool \<Rightarrow> tcp_ofo_seg option
   \<Rightarrow> int \<times> ('p, 'x) ofo_world_scheme" where
  "tcp_ofo_link mp w seq data has_fin before =
     (case ofo_admit mp w seq data has_fin before of
        (Inl rc, w) \<Rightarrow> (rc, w)
      | (Inr episode_distance, w) \<Rightarrow>
        (let len = of_nat (length data) :: u32;
             (ok, memory) = tcp_memory_ofo_seg_alloc mp (w_mem w) in
         if \<not> ok then (- 1, count_drop_alloc (w\<lparr>w_mem := memory\<rparr>))
         else let (ok, memory) = (if len > 0 then tcp_memory_payload_alloc mp memory else (True, memory)) in
         if \<not> ok then (- 1, count_drop_alloc (w\<lparr>w_mem := tcp_memory_ofo_seg_free mp memory\<rparr>))
         else let seg = \<lparr>seg_ptr = fresh_ptr (ofo (w_tp w)), seg_seq = seq, seg_len = len, seg_data_off = 0, seg_has_fin = has_fin, seg_data = data\<rparr>;
                  tp = w_tp w;
                  tp = tp\<lparr>ofo_tree := tcp_ofo_tree_insert (ofo_tree tp) seg,
                    ofo := tcp_ofo_list_insert_before (ofo tp) seg (map_option ofo_ref before),
                    ofo_count := ofo_count tp + 1, ofo_bytes := ofo_bytes tp + len,
                    ofo_reorder_distance_peak := episode_distance, rcvbuf_used := rcvbuf_used tp + len\<rparr>;
                  st = tcp_ofo_update_pressure mp memory (tcp_ofo_metrics_accept (w_st w) len)
              in (0, w\<lparr>w_tp := tp, w_st := st, w_mem := memory\<rparr>)))"

subsection \<open>Insertion and delivery\<close>

text \<open>The overlap-trimming loop; the last argument is the queue from \<^verbatim>\<open>cur\<close> on.\<close>

fun queue_insert_loop ::
  "'p rte_mempool_ops \<Rightarrow> ('p, 'x) ofo_world_scheme \<Rightarrow> u32 \<Rightarrow> byte list \<Rightarrow> bool \<Rightarrow> tcp_ofo_seg list
   \<Rightarrow> int \<times> ('p, 'x) ofo_world_scheme" where
  "queue_insert_loop mp w seq data has_fin [] = tcp_ofo_link mp w seq data has_fin None"
| "queue_insert_loop mp w seq data has_fin (cur # nxt) =
     (let len = of_nat (length data) :: u32; cur_end = seg_end cur; seg_end = seq + len; skip = cur_end - seq in
      if len = 0 then tcp_ofo_link mp w seq data has_fin (Some cur)
      else if tcp_ofo_seq_leq cur_end seq then queue_insert_loop mp w seq data has_fin nxt
      else if tcp_ofo_seq_leq seg_end (seg_seq cur) then tcp_ofo_link mp w seq data has_fin (Some cur)
      else if tcp_ofo_seq_lt seq (seg_seq cur) then
        (let left = seg_seq cur - seq in
         case tcp_ofo_link mp w seq (take (unat left) data) False (Some cur) of (rc, w) \<Rightarrow>
           if rc \<noteq> 0 then (- 1, w)
           else if skip > len \<or> (skip = len \<and> \<not> has_fin) then (0, w)
           else queue_insert_loop mp w cur_end (drop (unat skip) data) has_fin nxt)
      else if skip > len \<or> (skip = len \<and> \<not> has_fin) then (0, w)
      else queue_insert_loop mp w cur_end (drop (unat skip) data) has_fin nxt)"

text \<open>The segment the loop starts at: the predecessor when it reaches into the new range.\<close>

definition overlap_start :: "tcp_stream \<Rightarrow> u32 \<Rightarrow> ofo_ref option" where
  "overlap_start tp seq =
     (let before = tcp_ofo_lower_bound tp seq;
          prev_node = (case before of Some k \<Rightarrow> rb_prev k (ofo_tree tp) | None \<Rightarrow> rb_last (ofo_tree tp))
      in case prev_node of
           Some pk \<Rightarrow> (case queue_from (ofo tp) (Some pk) of
               prev # _ \<Rightarrow> if tcp_ofo_seq_gt (seg_end prev) seq then prev_node else before
             | [] \<Rightarrow> before)
         | None \<Rightarrow> before)"

definition insert_in_window ::
  "'p rte_mempool_ops \<Rightarrow> ('p, 'x) ofo_world_scheme \<Rightarrow> u32 \<Rightarrow> byte list \<Rightarrow> bool \<Rightarrow> int \<times> ('p, 'x) ofo_world_scheme" where
  "insert_in_window mp w seq data has_fin =
     (let tp = w_tp w;
          wnd_end = recv_ack tp + tcp_ofo_rcv_wnd tp;
          len = of_nat (length data) :: u32 in
      if \<not> tcp_ofo_seq_lt seq wnd_end then
        (if tcp_ofo_range_buffered tp seq len has_fin then (0, w)
         else (0, tcp_ofo_record_rcv_window_drop w seq len has_fin))
      else let (data, has_fin) = (if tcp_ofo_seq_gt (seq + len) wnd_end
                 then (take (unat (wnd_end - seq)) data, False) else (data, has_fin))
      in if data = [] \<and> \<not> has_fin then (0, w)
         else queue_insert_loop mp w seq data has_fin (queue_from (ofo tp) (overlap_start tp seq)))"

definition tcp_ofo_queue_insert ::
  "'p rte_mempool_ops \<Rightarrow> ('p, 'x) ofo_world_scheme \<Rightarrow> u32 \<Rightarrow> byte list \<Rightarrow> bool \<Rightarrow> int \<times> ('p, 'x) ofo_world_scheme" where
  "tcp_ofo_queue_insert mp w seq data has_fin =
     (let rcv_nxt = recv_ack (w_tp w); len = of_nat (length data) :: u32 in
      if tcp_ofo_seq_lt seq rcv_nxt then
        (let skip = rcv_nxt - seq in
         if skip > len \<or> (skip = len \<and> \<not> has_fin) then (0, w)
         else insert_in_window mp w rcv_nxt (drop (unat skip) data) has_fin)
      else insert_in_window mp w seq data has_fin)"

text \<open>
  Delivery of the contiguous prefix. The callbacks act on the receive side and leave the queue
  alone, so that the loop runs over the queue it starts with; a NULL callback is \<open>None\<close>.
\<close>

fun drain_loop ::
  "'p rte_mempool_ops \<Rightarrow> (('p, 'x) ofo_world_scheme \<Rightarrow> byte list \<Rightarrow> int \<times> ('p, 'x) ofo_world_scheme) option
   \<Rightarrow> (('p, 'x) ofo_world_scheme \<Rightarrow> ('p, 'x) ofo_world_scheme) option
   \<Rightarrow> ('p, 'x) ofo_world_scheme \<Rightarrow> tcp_ofo_seg list \<Rightarrow> ('p, 'x) ofo_world_scheme" where
  "drain_loop mp deliver eof w [] = w"
| "drain_loop mp deliver eof w (seg # segs) =
     (let rcv = recv_ack (w_tp w); skip = rcv - seg_seq seg in
      if tcp_ofo_seq_gt (seg_seq seg) rcv then w
      else if tcp_ofo_seq_lt (seg_seq seg) rcv \<and> (skip > seg_len seg \<or> (skip = seg_len seg \<and> \<not> seg_has_fin seg)) then
        drain_loop mp deliver eof (tcp_ofo_seg_free mp
          (tcp_ofo_unlink (w\<lparr>w_tp := tcp_ofo_rcvbuf_sub (w_tp w) (seg_len seg)\<rparr>) seg) seg) segs
      else let (seg, w) = (if tcp_ofo_seq_lt (seg_seq seg) rcv then tcp_ofo_rekey_after_trim w seg skip else (seg, w));
               (rc, w) = (if seg_len seg > 0 then
                   (case deliver of None \<Rightarrow> (- 1, w)
                    | Some f \<Rightarrow> f w (take (unat (seg_len seg)) (drop (unat (seg_data_off seg)) (seg_data seg))))
                 else (0, w))
      in if rc \<noteq> 0 then w
         else let w = tcp_ofo_seg_free mp (tcp_ofo_unlink w seg) seg;
                  w = w\<lparr>w_tp := (w_tp w)\<lparr>recv_ack := recv_ack (w_tp w) + seg_len seg\<rparr>\<rparr>
              in if seg_has_fin seg then
                   let w = w\<lparr>w_tp := (w_tp w)\<lparr>recv_ack := recv_ack (w_tp w) + 1\<rparr>\<rparr>;
                       w = (case eof of Some f \<Rightarrow> f w
                            | None \<Rightarrow> if status (w_tp w) = TCP_STATUS_ESTABLISHED
                                then w\<lparr>w_tp := (w_tp w)\<lparr>status := TCP_STATUS_CLOSE_WAIT\<rparr>\<rparr> else w)
                   in tcp_ofo_purge mp w
                 else drain_loop mp deliver eof w segs)"

definition tcp_ofo_drain where
  "tcp_ofo_drain mp deliver eof w = drain_loop mp deliver eof w (ofo (w_tp w))"

end
