(* ===== verification/Tcp_Sndbuf.thy ===== *)
theory Tcp_Sndbuf
  imports Tcp_Memory
begin

text \<open>
  The TCP send buffer of \<^verbatim>\<open>pro-stack/tcp.c\<close>: application bytes kept in a chain of 2048-byte chunks
  until they are acknowledged. The owner's memory is threaded through. The chain refines a list of
  bytes: appending, removing an acknowledged prefix and looking up a sequence number are the list
  operations of the same names.
\<close>

subsection \<open>Operations\<close>

definition tcp_payload_release :: "'p rte_mempool_ops \<Rightarrow> 'p tcp_owner_memory \<Rightarrow> 'p tcp_owner_memory" where
  "tcp_payload_release mp memory = tcp_memory_payload_free mp memory"

definition tcp_memory_tx_chunk_alloc where
  "tcp_memory_tx_chunk_alloc mp memory = tcp_memory_get mp memory TCP_MEMORY_TX_CHUNK"

definition tcp_memory_tx_chunk_free where
  "tcp_memory_tx_chunk_free mp memory = tcp_memory_put mp memory TCP_MEMORY_TX_CHUNK"

definition tcp_sndbuf_init :: "u32 \<Rightarrow> tcp_sndbuf" where
  "tcp_sndbuf_init isn = \<lparr>sb_chunks = [], sb_len = 0, sb_head_seq = isn, sb_unacked = 0\<rparr>"

fun free_chunks :: "'p rte_mempool_ops \<Rightarrow> 'p tcp_owner_memory \<Rightarrow> tcp_tx_chunk list \<Rightarrow> 'p tcp_owner_memory" where
  "free_chunks mp memory [] = memory"
| "free_chunks mp memory (c # cs) =
     free_chunks mp (tcp_memory_tx_chunk_free mp (tcp_payload_release mp memory)) cs"

definition tcp_sndbuf_free ::
  "'p rte_mempool_ops \<Rightarrow> 'p tcp_owner_memory \<Rightarrow> tcp_sndbuf \<Rightarrow> tcp_sndbuf \<times> 'p tcp_owner_memory" where
  "tcp_sndbuf_free mp memory sb =
     (let memory = memory\<lparr>mem_sndbuf_bytes := resource_release (mem_sndbuf_bytes memory) (ucast (sb_len sb)),
            mem_unacked_bytes := resource_release (mem_unacked_bytes memory) (ucast (sb_unacked sb))\<rparr>
      in (sb\<lparr>sb_unacked := 0, sb_chunks := [], sb_len := 0\<rparr>, free_chunks mp memory (sb_chunks sb)))"

definition tcp_sndbuf_reset ::
  "'p rte_mempool_ops \<Rightarrow> 'p tcp_owner_memory \<Rightarrow> tcp_sndbuf \<Rightarrow> u32 \<Rightarrow> tcp_sndbuf \<times> 'p tcp_owner_memory" where
  "tcp_sndbuf_reset mp memory sb seq =
     (case tcp_sndbuf_free mp memory sb of (sb, memory) \<Rightarrow> (sb\<lparr>sb_head_seq := seq\<rparr>, memory))"

text \<open>The tail chunk if it has room, a new one otherwise; \<open>None\<close> when a pool is exhausted.\<close>

definition append_chunk ::
  "'p rte_mempool_ops \<Rightarrow> 'p tcp_owner_memory \<Rightarrow> tcp_sndbuf \<Rightarrow> (tcp_tx_chunk list \<times> tcp_tx_chunk) option \<times> 'p tcp_owner_memory" where
  "append_chunk mp memory sb =
     (if sb_chunks sb \<noteq> [] \<and> length (chunk_data (last (sb_chunks sb))) < unat TCP_MEMORY_CHUNK_SIZE
      then (Some (butlast (sb_chunks sb), last (sb_chunks sb)), memory)
      else let (ok, memory) = tcp_memory_tx_chunk_alloc mp memory in
           if \<not> ok then (None, memory)
           else let (ok, memory) = tcp_memory_payload_alloc mp memory in
           if \<not> ok then (None, tcp_memory_tx_chunk_free mp memory)
           else (Some (sb_chunks sb, \<lparr>chunk_seq = sb_head_seq sb + sb_len sb, chunk_data = [], chunk_off = 0\<rparr>), memory))"

lemma append_chunk_room:
  "append_chunk mp memory sb = (Some (cs, c), memory') \<Longrightarrow> length (chunk_data c) < unat TCP_MEMORY_CHUNK_SIZE"
  by (auto simp: append_chunk_def split: if_splits prod.splits)

function append_loop ::
  "'p rte_mempool_ops \<Rightarrow> 'p tcp_owner_memory \<Rightarrow> tcp_sndbuf \<Rightarrow> byte list \<Rightarrow> nat \<Rightarrow> nat \<times> tcp_sndbuf \<times> 'p tcp_owner_memory" where
  "append_loop mp memory sb data copied =
     (if data = [] then (copied, sb, memory)
      else case append_chunk mp memory sb of
        (None, memory) \<Rightarrow> (copied, sb, memory)
      | (Some (cs, c), memory) \<Rightarrow>
          let space = unat TCP_MEMORY_CHUNK_SIZE - length (chunk_data c);
              k = min (length data) space;
              sb = sb\<lparr>sb_chunks := cs @ [c\<lparr>chunk_data := chunk_data c @ take k data\<rparr>], sb_len := sb_len sb + of_nat k\<rparr>;
              memory = memory\<lparr>mem_sndbuf_bytes := resource_acquire (mem_sndbuf_bytes memory) (of_nat k)\<rparr>
          in append_loop mp memory sb (drop k data) (copied + k))"
  by pat_completeness auto
termination
  by (relation "measure (\<lambda>(mp, memory, sb, data, copied). length data)")
     (auto dest!: append_chunk_room [OF sym])

declare append_loop.simps [simp del]

text \<open>\<open>None\<close> is the code's -1: nothing could be stored.\<close>

definition tcp_sndbuf_append ::
  "'p rte_mempool_ops \<Rightarrow> 'p tcp_owner_memory \<Rightarrow> tcp_sndbuf \<Rightarrow> byte list \<Rightarrow> nat option \<times> tcp_sndbuf \<times> 'p tcp_owner_memory" where
  "tcp_sndbuf_append mp memory sb data =
     (if data = [] then (Some 0, sb, memory)
      else case append_loop mp memory sb data 0 of (copied, sb, memory) \<Rightarrow>
        (if copied = 0 then None else Some copied, sb, memory))"

text \<open>Bytes of a chunk that are not acknowledged, \<^verbatim>\<open>chunk->len - chunk->off\<close>.\<close>

definition chunk_left :: "tcp_tx_chunk \<Rightarrow> nat" where
  "chunk_left c = length (chunk_data c) - chunk_off c"

fun remove_loop ::
  "'p rte_mempool_ops \<Rightarrow> 'p tcp_owner_memory \<Rightarrow> tcp_sndbuf \<Rightarrow> tcp_tx_chunk list \<Rightarrow> u32 \<Rightarrow> tcp_sndbuf \<times> 'p tcp_owner_memory" where
  "remove_loop mp memory sb [] len = (sb\<lparr>sb_chunks := []\<rparr>, memory)"
| "remove_loop mp memory sb (c # cs) len =
     (if len = 0 then (sb\<lparr>sb_chunks := c # cs\<rparr>, memory)
      else let available = of_nat (chunk_left c);
               k = (if len < available then len else available);
               c = c\<lparr>chunk_off := chunk_off c + unat k\<rparr>;
               sb = sb\<lparr>sb_len := sb_len sb - k, sb_head_seq := sb_head_seq sb + k\<rparr>;
               len = len - k
           in if chunk_off c = length (chunk_data c)
              then remove_loop mp (tcp_memory_tx_chunk_free mp (tcp_payload_release mp memory)) sb cs len
              else (sb\<lparr>sb_chunks := c # cs\<rparr>, memory))"

definition tcp_sndbuf_remove ::
  "'p rte_mempool_ops \<Rightarrow> 'p tcp_owner_memory \<Rightarrow> tcp_sndbuf \<Rightarrow> u32 \<Rightarrow> tcp_sndbuf \<times> 'p tcp_owner_memory" where
  "tcp_sndbuf_remove mp memory sb len =
     (if len = 0 then (sb, memory)
      else let len = (if len > sb_len sb then sb_len sb else len);
               acked = (if len < sb_unacked sb then len else sb_unacked sb);
               sb = sb\<lparr>sb_unacked := sb_unacked sb - acked\<rparr>;
               memory = memory\<lparr>mem_sndbuf_bytes := resource_release (mem_sndbuf_bytes memory) (ucast len),
                 mem_unacked_bytes := resource_release (mem_unacked_bytes memory) (ucast acked)\<rparr>
           in remove_loop mp memory sb (sb_chunks sb) len)"

definition tcp_seq_lt :: "u32 \<Rightarrow> u32 \<Rightarrow> bool" where
  "tcp_seq_lt a b \<longleftrightarrow> sint (a - b) < 0"

fun peek_loop :: "tcp_tx_chunk list \<Rightarrow> u32 \<Rightarrow> byte list option" where
  "peek_loop [] skip = None"
| "peek_loop (c # cs) skip =
     (let bytes = of_nat (chunk_left c) in
      if skip < bytes then Some (drop (chunk_off c + unat skip) (chunk_data c))
      else peek_loop cs (skip - bytes))"

text \<open>The contiguous bytes from \<open>seq\<close> to the end of its chunk; \<open>available\<close> is their number.\<close>

definition tcp_sndbuf_peek :: "tcp_sndbuf \<Rightarrow> u32 \<Rightarrow> byte list option" where
  "tcp_sndbuf_peek sb seq =
     (if tcp_seq_lt seq (sb_head_seq sb) \<or> \<not> tcp_seq_lt seq (sb_head_seq sb + sb_len sb) then None
      else peek_loop (sb_chunks sb) (seq - sb_head_seq sb))"

subsection \<open>The buffer as a list of bytes\<close>

definition chunk_bytes :: "tcp_tx_chunk \<Rightarrow> byte list" where
  "chunk_bytes c = drop (chunk_off c) (chunk_data c)"

definition sndbuf_bytes :: "tcp_sndbuf \<Rightarrow> byte list" where
  "sndbuf_bytes sb = concat (map chunk_bytes (sb_chunks sb))"

text \<open>Every chunk holds unacknowledged bytes, and its sequence number is that of its first byte.\<close>

fun chunks_ok :: "u32 \<Rightarrow> tcp_tx_chunk list \<Rightarrow> bool" where
  "chunks_ok seq [] \<longleftrightarrow> True"
| "chunks_ok seq (c # cs) \<longleftrightarrow>
     chunk_off c < length (chunk_data c) \<and> length (chunk_data c) \<le> unat TCP_MEMORY_CHUNK_SIZE \<and>
     chunk_seq c + of_nat (chunk_off c) = seq \<and> chunks_ok (seq + of_nat (length (chunk_bytes c))) cs"

definition sndbuf_ok :: "tcp_sndbuf \<Rightarrow> bool" where
  "sndbuf_ok sb \<longleftrightarrow> chunks_ok (sb_head_seq sb) (sb_chunks sb) \<and>
     unat (sb_len sb) = length (sndbuf_bytes sb) \<and> unat (sb_len sb) < HALF \<and> sb_unacked sb \<le> sb_len sb"

lemma chunks_ok_append:
  "chunks_ok seq (xs @ ys) \<longleftrightarrow>
     chunks_ok seq xs \<and> chunks_ok (seq + of_nat (length (concat (map chunk_bytes xs)))) ys"
  by (induction xs arbitrary: seq) (auto simp: add.assoc)

interpretation tcp_sq: serial_order tcp_seq_lt
  by unfold_locales (simp add: tcp_seq_lt_def sint_diff_neg_iff)

lemma last_chunk:
  assumes "chunks_ok seq (cs @ [c])"
  shows "chunks_ok seq cs" "chunk_seq c + of_nat (chunk_off c) = seq + of_nat (length (concat (map chunk_bytes cs)))"
    "chunk_off c < length (chunk_data c)"
  using assms by (auto simp: chunks_ok_append)

lemma append_chunk_ok:
  assumes "sndbuf_ok sb" "append_chunk mp memory sb = (Some (cs, c), memory')"
  shows "concat (map chunk_bytes (cs @ [c])) = sndbuf_bytes sb" "chunks_ok (sb_head_seq sb) cs"
    "chunk_seq c + of_nat (chunk_off c) = sb_head_seq sb + of_nat (length (concat (map chunk_bytes cs)))"
    "chunk_off c \<le> length (chunk_data c)" "length (chunk_data c) < 2048"
proof -
  have ok: "chunks_ok (sb_head_seq sb) (sb_chunks sb)" "unat (sb_len sb) = length (sndbuf_bytes sb)"
    using assms(1) by (auto simp: sndbuf_ok_def)
  show "length (chunk_data c) < 2048" using append_chunk_room [OF assms(2)] by simp
  let ?old = "sb_chunks sb \<noteq> [] \<and> length (chunk_data (last (sb_chunks sb))) < unat TCP_MEMORY_CHUNK_SIZE"
  have "concat (map chunk_bytes (cs @ [c])) = sndbuf_bytes sb \<and> chunks_ok (sb_head_seq sb) cs \<and>
    chunk_seq c + of_nat (chunk_off c) = sb_head_seq sb + of_nat (length (concat (map chunk_bytes cs))) \<and>
    chunk_off c \<le> length (chunk_data c)"
  proof (cases ?old)
    case True
    then have "sb_chunks sb = cs @ [c]" using assms(2) by (auto simp: append_chunk_def)
    then show ?thesis using ok last_chunk [of "sb_head_seq sb" cs c] by (simp add: sndbuf_bytes_def)
  next
    case False
    then have c: "cs = sb_chunks sb" "c = \<lparr>chunk_seq = sb_head_seq sb + sb_len sb, chunk_data = [], chunk_off = 0\<rparr>"
      using assms(2) by (auto simp: append_chunk_def split: if_splits prod.splits)
    have "sb_len sb = of_nat (unat (sb_len sb))" by simp
    then have "sb_len sb = of_nat (length (sndbuf_bytes sb))" unfolding ok(2) .
    then show ?thesis using c ok by (simp add: sndbuf_bytes_def chunk_bytes_def)
  qed
  then show "concat (map chunk_bytes (cs @ [c])) = sndbuf_bytes sb" "chunks_ok (sb_head_seq sb) cs"
    "chunk_seq c + of_nat (chunk_off c) = sb_head_seq sb + of_nat (length (concat (map chunk_bytes cs)))"
    "chunk_off c \<le> length (chunk_data c)" by auto
qed

lemma append_step_ok:
  assumes "sndbuf_ok sb" "append_chunk mp memory sb = (Some (cs, c), memory')"
    and "0 < k" "k \<le> length data" "k \<le> 2048 - length (chunk_data c)" "unat (sb_len sb) + length data < HALF"
  defines "sb' \<equiv> sb\<lparr>sb_chunks := cs @ [c\<lparr>chunk_data := chunk_data c @ take k data\<rparr>], sb_len := sb_len sb + of_nat k\<rparr>"
  shows "sndbuf_ok sb'" "sndbuf_bytes sb' = sndbuf_bytes sb @ take k data" "unat (sb_len sb') = unat (sb_len sb) + k"
proof -
  note a = append_chunk_ok [OF assms(1,2)]
  have bytes: "sndbuf_bytes sb' = sndbuf_bytes sb @ take k data"
    using a(1,4) by (simp add: sb'_def sndbuf_bytes_def chunk_bytes_def flip: a(1))
  have k: "unat (of_nat k :: u32) = k" using assms(4,6) by (simp add: unat_of_nat)
  then have len: "unat (sb_len sb') = unat (sb_len sb) + k"
    using assms(4,6) by (simp add: sb'_def unat_add_u32)
  have "sb_unacked sb \<le> sb_len sb'" using assms(1) len by (simp add: sndbuf_ok_def word_le_nat_alt)
  moreover have "unat (sb_len sb') < HALF" "unat (sb_len sb') = length (sndbuf_bytes sb')"
    using len bytes assms(1,4,6) by (simp_all add: sndbuf_ok_def)
  moreover have "chunks_ok (sb_head_seq sb') (sb_chunks sb')"
    using a(2-5) assms(3-5) by (simp add: sb'_def chunks_ok_append)
  ultimately show "sndbuf_ok sb'" by (simp add: sndbuf_ok_def sb'_def)
  show "sndbuf_bytes sb' = sndbuf_bytes sb @ take k data" "unat (sb_len sb') = unat (sb_len sb) + k"
    using bytes len by auto
qed

lemma append_loop_ok:
  assumes "sndbuf_ok sb" "unat (sb_len sb) + length data < HALF"
    and "append_loop mp memory sb data copied = (n, sb', memory')"
  shows "copied \<le> n \<and> n \<le> copied + length data \<and> sndbuf_ok sb' \<and>
    sndbuf_bytes sb' = sndbuf_bytes sb @ take (n - copied) data \<and>
    sb_head_seq sb' = sb_head_seq sb \<and> sb_unacked sb' = sb_unacked sb"
  using assms
proof (induction mp memory sb data copied rule: append_loop.induct)
  case (1 mp memory sb data copied)
  show ?case
  proof (cases "data = []")
    case True
    then show ?thesis using 1(2-) by (simp add: append_loop.simps)
  next
    case False
    show ?thesis
    proof (cases "fst (append_chunk mp memory sb)")
      case None
      then show ?thesis using 1(2-) False by (auto simp: append_loop.simps split: prod.splits)
    next
      case (Some p)
      then obtain cs c m where ac: "append_chunk mp memory sb = (Some (cs, c), m)" by (metis prod.collapse)
      define k where "k = min (length data) (2048 - length (chunk_data c))"
      define sb1 where "sb1 = sb\<lparr>sb_chunks := cs @ [c\<lparr>chunk_data := chunk_data c @ take k data\<rparr>], sb_len := sb_len sb + of_nat k\<rparr>"
      define m1 where "m1 = m\<lparr>mem_sndbuf_bytes := resource_acquire (mem_sndbuf_bytes m) (of_nat k)\<rparr>"
      have k: "0 < k" "k \<le> length data" "k \<le> 2048 - length (chunk_data c)"
        using False append_chunk_ok(5) [OF 1(2) ac] by (auto simp: k_def)
      note st = append_step_ok [OF 1(2) ac k 1(3), folded sb1_def]
      have run: "append_loop mp m1 sb1 (drop k data) (copied + k) = (n, sb', memory')"
        using 1(4) False by (subst (asm) append_loop.simps) (simp add: ac Let_def k_def sb1_def m1_def)
      have "copied + k \<le> n \<and> n \<le> copied + k + length (drop k data) \<and> sndbuf_ok sb' \<and>
          sndbuf_bytes sb' = sndbuf_bytes sb1 @ take (n - (copied + k)) (drop k data) \<and>
          sb_head_seq sb' = sb_head_seq sb1 \<and> sb_unacked sb' = sb_unacked sb1"
        using 1(1) [OF False ac [symmetric] refl refl refl refl refl refl] st run k 1(3)
        by (simp add: k_def sb1_def m1_def)
      moreover have "take k data @ take (n - (copied + k)) (drop k data) = take (n - copied) data" if "copied + k \<le> n"
        using take_add [of k "n - (copied + k)" data] that by simp
      ultimately show ?thesis using st(2) k(2) by (auto simp: sb1_def)
    qed
  qed
qed

lemma chunk_left_word: "length (chunk_data c) \<le> 2048 \<Longrightarrow> unat (of_nat (chunk_left c) :: u32) = chunk_left c"
proof -
  assume "length (chunk_data c) \<le> 2048"
  then have "chunk_left c \<le> 2048" by (simp add: chunk_left_def)
  then show ?thesis by (simp add: unat_of_nat)
qed

lemma remove_loop_ok:
  assumes "chunks_ok (sb_head_seq sb) cs" "unat (sb_len sb) = length (concat (map chunk_bytes cs))"
    and "unat len \<le> unat (sb_len sb)" "remove_loop mp memory sb cs len = (sb', memory')"
  shows "chunks_ok (sb_head_seq sb') (sb_chunks sb') \<and> unat (sb_len sb') = unat (sb_len sb) - unat len \<and>
    sndbuf_bytes sb' = drop (unat len) (concat (map chunk_bytes cs)) \<and>
    sb_head_seq sb' = sb_head_seq sb + len \<and> sb_unacked sb' = sb_unacked sb"
  using assms
proof (induction mp memory sb cs len rule: remove_loop.induct)
  case (1 mp memory sb len)
  then have "unat len = 0" by simp
  then have "len = 0" by (simp add: unat_0_iff)
  then show ?case using 1 by (auto simp: sndbuf_bytes_def)
next
  case (2 mp memory sb c cs len)
  show ?case
  proof (cases "len = 0")
    case True
    then show ?thesis using 2(2-) by (auto simp: sndbuf_bytes_def)
  next
    case False
    let ?n = "chunk_left c"
    let ?av = "of_nat ?n :: u32"
    have c: "chunk_off c < length (chunk_data c)" "length (chunk_data c) \<le> 2048"
        "chunk_seq c + of_nat (chunk_off c) = sb_head_seq sb" "chunks_ok (sb_head_seq sb + of_nat (length (chunk_bytes c))) cs"
      using 2(2) by auto
    have nd: "?n = length (chunk_data c) - chunk_off c" by (simp add: chunk_left_def)
    have av: "unat ?av = ?n" using chunk_left_word [OF c(2)] .
    have cb: "length (chunk_bytes c) = ?n" using nd by (simp add: chunk_bytes_def)
    let ?k = "if len < ?av then len else ?av"
    have k: "unat ?k = min (unat len) ?n" using av by (auto simp: word_less_nat_alt)
    let ?c = "c\<lparr>chunk_off := chunk_off c + unat ?k\<rparr>"
    let ?sb = "sb\<lparr>sb_len := sb_len sb - ?k, sb_head_seq := sb_head_seq sb + ?k\<rparr>"
    have le: "unat ?k \<le> unat (sb_len sb)" using k 2(4) by simp
    then have slen: "unat (sb_len ?sb) = unat (sb_len sb) - unat ?k" by (simp add: unat_sub word_le_nat_alt)
    show ?thesis
    proof (cases "?n \<le> unat len")
      case True
      then have ka: "?k = ?av" using av by (auto simp: word_less_nat_alt)
      then have off: "chunk_off ?c = length (chunk_data c)" using av c(1) nd by simp
      let ?m = "tcp_memory_tx_chunk_free mp (tcp_payload_release mp memory)"
      have run: "remove_loop mp ?m ?sb cs (len - ?k) = (sb', memory')"
        using 2(5) False off by (simp add: Let_def)
      have lk: "unat (len - ?k) = unat len - ?n" using ka True av by (simp add: unat_sub word_le_nat_alt)
      have h: "chunks_ok (sb_head_seq ?sb) cs" using c(4) cb ka by simp
      have l: "unat (sb_len ?sb) = length (concat (map chunk_bytes cs))" using slen 2(3) cb ka av by simp
      have le2: "unat (len - ?k) \<le> unat (sb_len ?sb)" using lk slen 2(4) ka av by simp
      have off2: "chunk_off ?c = length (chunk_data ?c)" using off by simp
      have "chunks_ok (sb_head_seq sb') (sb_chunks sb') \<and> unat (sb_len sb') = unat (sb_len ?sb) - unat (len - ?k) \<and>
          sndbuf_bytes sb' = drop (unat (len - ?k)) (concat (map chunk_bytes cs)) \<and>
          sb_head_seq sb' = sb_head_seq ?sb + (len - ?k) \<and> sb_unacked sb' = sb_unacked ?sb"
        by (rule 2(1) [OF False refl refl refl refl refl off2 h l le2 run])
      then show ?thesis using lk slen ka av True cb by (elim conjE) simp
    next
      case F: False
      then have kl: "?k = len" using av by (auto simp: word_less_nat_alt)
      then have off: "chunk_off ?c \<noteq> length (chunk_data c)" using F nd by simp
      have sb': "sb' = ?sb\<lparr>sb_chunks := ?c # cs\<rparr>" using 2(5) False off by (simp add: Let_def)
      have cb': "chunk_bytes ?c = drop (unat len) (chunk_bytes c)" using kl by (simp add: chunk_bytes_def add.commute)
      have "sb_head_seq sb + len + of_nat (length (chunk_bytes ?c)) = sb_head_seq sb + of_nat (length (chunk_bytes c))"
        using F cb' cb by (simp add: of_nat_diff)
      then show ?thesis
        using c F kl slen cb' cb nd by (simp add: sb' sndbuf_bytes_def add.assoc [symmetric])
    qed
  qed
qed

lemma peek_loop_ok:
  assumes "chunks_ok seq cs" "length (concat (map chunk_bytes cs)) < HALF" "unat skip < length (concat (map chunk_bytes cs))"
  shows "\<exists>bs rest. peek_loop cs skip = Some bs \<and> bs \<noteq> [] \<and> drop (unat skip) (concat (map chunk_bytes cs)) = bs @ rest"
  using assms
proof (induction cs skip arbitrary: seq rule: peek_loop.induct)
  case (2 c cs skip)
  let ?n = "chunk_left c"
  have nd: "?n = length (chunk_data c) - chunk_off c" by (simp add: chunk_left_def)
  have n: "unat (of_nat ?n :: u32) = ?n" "length (chunk_bytes c) = ?n"
    using 2(2) chunk_left_word [of c] nd by (simp_all add: chunk_bytes_def)
  show ?case
  proof (cases "unat skip < ?n")
    case True
    then have lt: "skip < of_nat ?n" using n(1) by (simp add: word_less_nat_alt)
    have "drop (unat skip) (chunk_bytes c) = drop (chunk_off c + unat skip) (chunk_data c)"
      by (simp add: chunk_bytes_def add.commute)
    then show ?thesis using lt True n(2) by (auto simp: chunk_bytes_def Let_def)
  next
    case False
    then have nlt: "\<not> skip < of_nat ?n" using n(1) by (simp add: word_less_nat_alt)
    have sk: "unat (skip - of_nat ?n) = unat skip - ?n" using False n(1) by (simp add: unat_sub word_le_nat_alt)
    have "\<exists>bs rest. peek_loop cs (skip - of_nat ?n) = Some bs \<and> bs \<noteq> [] \<and>
        drop (unat (skip - of_nat ?n)) (concat (map chunk_bytes cs)) = bs @ rest"
      using 2(1) [OF refl nlt, of "seq + of_nat (length (chunk_bytes c))"] 2(2-) sk n(2) False by simp
    then show ?thesis using nlt sk n(2) False by (auto simp: Let_def)
  qed
qed simp

subsection \<open>Properties\<close>

lemma remove_ok:
  assumes "sndbuf_ok sb" "tcp_sndbuf_remove mp memory sb len = (sb', memory')"
  shows "sndbuf_ok sb' \<and> sndbuf_bytes sb' = drop (unat len) (sndbuf_bytes sb) \<and>
    sb_head_seq sb' = sb_head_seq sb + of_nat (min (unat len) (length (sndbuf_bytes sb)))"
proof (cases "len = 0")
  case True
  then show ?thesis using assms by (simp add: tcp_sndbuf_remove_def)
next
  case False
  have ok: "chunks_ok (sb_head_seq sb) (sb_chunks sb)" "unat (sb_len sb) = length (sndbuf_bytes sb)"
    "unat (sb_len sb) < HALF" "unat (sb_unacked sb) \<le> unat (sb_len sb)"
    using assms(1) by (auto simp: sndbuf_ok_def word_le_nat_alt)
  define n where "n = (if len > sb_len sb then sb_len sb else len)"
  define a where "a = (if n < sb_unacked sb then n else sb_unacked sb)"
  let ?sb = "sb\<lparr>sb_unacked := sb_unacked sb - a\<rparr>"
  have n: "unat n = min (unat len) (unat (sb_len sb))" by (auto simp: n_def word_less_nat_alt)
  have a: "unat a = min (unat n) (unat (sb_unacked sb))" by (auto simp: a_def word_less_nat_alt)
  then have ua: "unat (sb_unacked ?sb) = unat (sb_unacked sb) - unat a" by (simp add: unat_sub word_le_nat_alt)
  obtain m where run: "remove_loop mp m ?sb (sb_chunks sb) n = (sb', memory')"
    using assms(2) False unfolding tcp_sndbuf_remove_def Let_def n_def [symmetric] a_def [symmetric] by simp
  have bytes: "concat (map chunk_bytes (sb_chunks sb)) = sndbuf_bytes sb" by (simp add: sndbuf_bytes_def)
  have f: "chunks_ok (sb_head_seq sb') (sb_chunks sb') \<and> unat (sb_len sb') = unat (sb_len sb) - unat n \<and>
      sndbuf_bytes sb' = drop (unat n) (sndbuf_bytes sb) \<and> sb_head_seq sb' = sb_head_seq sb + n \<and>
      sb_unacked sb' = sb_unacked ?sb"
    using remove_loop_ok [of ?sb "sb_chunks sb" n mp m sb' memory'] ok run n bytes by auto
  then have "unat (sb_len sb') = length (sndbuf_bytes sb')" using ok(2) by simp
  moreover have "unat (sb_unacked sb') \<le> unat (sb_len sb')" "unat (sb_len sb') < HALF"
    using f ua a ok(3,4) by auto
  ultimately have "sndbuf_ok sb'" using f unfolding sndbuf_ok_def word_le_nat_alt by blast
  moreover have "drop (unat n) (sndbuf_bytes sb) = drop (unat len) (sndbuf_bytes sb)"
    using n ok(2) by (simp add: min_def)
  moreover have "n = of_nat (min (unat len) (length (sndbuf_bytes sb)))"
    unfolding n [unfolded ok(2), symmetric] by simp
  ultimately show ?thesis using f by simp
qed

text \<open>
  Claim C7. The send buffer is a faithful queue of bytes: appending stores a prefix of the offered
  bytes at the end of the buffer and reports its length (or fails without storing anything),
  removing acknowledged bytes drops exactly that many from the front and advances the head
  sequence number with them, and both keep the chunk chain, its sequence numbers and its counters
  consistent.
\<close>

theorem sndbuf_refines_byte_queue:
  assumes "sndbuf_ok sb" "unat (sb_len sb) + length data < HALF"
    and "tcp_sndbuf_append mp memory sb data = (r, sb1, memory1)"
    and "tcp_sndbuf_remove mp memory1 sb1 acked = (sb2, memory2)"
  shows "(let n = (case r of None \<Rightarrow> 0 | Some n \<Rightarrow> n) in
      n \<le> length data \<and> sndbuf_ok sb1 \<and> sndbuf_bytes sb1 = sndbuf_bytes sb @ take n data \<and>
      sb_head_seq sb1 = sb_head_seq sb) \<and>
    sndbuf_ok sb2 \<and> sndbuf_bytes sb2 = drop (unat acked) (sndbuf_bytes sb1) \<and>
    sb_head_seq sb2 = sb_head_seq sb1 + of_nat (min (unat acked) (length (sndbuf_bytes sb1)))"
proof -
  obtain n m where l: "data \<noteq> [] \<Longrightarrow> append_loop mp memory sb data 0 = (n, sb1, m) \<and> r = (if n = 0 then None else Some n)"
    using assms(3) by (auto simp: tcp_sndbuf_append_def split: prod.splits if_splits)
  have "let n = (case r of None \<Rightarrow> 0 | Some n \<Rightarrow> n) in
      n \<le> length data \<and> sndbuf_ok sb1 \<and> sndbuf_bytes sb1 = sndbuf_bytes sb @ take n data \<and> sb_head_seq sb1 = sb_head_seq sb"
  proof (cases "data = []")
    case True
    then show ?thesis using assms(1,3) by (auto simp: tcp_sndbuf_append_def)
  next
    case False
    then show ?thesis using l append_loop_ok [OF assms(1,2), of mp memory 0 n sb1 m] by (simp add: Let_def)
  qed
  then show ?thesis using remove_ok [OF _ assms(4)] by (auto simp: Let_def)
qed

text \<open>A buffer holding \<open>xs\<close> in one chunk.\<close>

definition demo_sndbuf :: "u32 \<Rightarrow> byte list \<Rightarrow> tcp_sndbuf" where
  "demo_sndbuf seq xs = \<lparr>sb_chunks = [\<lparr>chunk_seq = seq, chunk_data = xs, chunk_off = 0\<rparr>],
     sb_len = of_nat (length xs), sb_head_seq = seq, sb_unacked = 0\<rparr>"

definition demo_memory :: "u32 tcp_owner_memory" where
  "demo_memory = snd (tcp_owner_memory_init (\<lambda>k n. Some n) 0)"

theorem sndbuf_refines_byte_queue_witness:
  "\<exists>r sb1 m1 sb2 m2. tcp_sndbuf_append counting_pool demo_memory (demo_sndbuf 7 [1, 2, 3]) [4, 5] = (r, sb1, m1) \<and>
     tcp_sndbuf_remove counting_pool m1 sb1 4 = (sb2, m2) \<and> sndbuf_bytes sb2 = drop 4 (sndbuf_bytes sb1) \<and>
     sndbuf_ok sb2"
proof -
  obtain r sb1 m1 where a: "tcp_sndbuf_append counting_pool demo_memory (demo_sndbuf 7 [1, 2, 3]) [4, 5] = (r, sb1, m1)"
    by (metis prod_cases3)
  obtain sb2 m2 where b: "tcp_sndbuf_remove counting_pool m1 sb1 4 = (sb2, m2)" by fastforce
  have ok: "sndbuf_ok (demo_sndbuf 7 [1, 2, 3])" "unat (sb_len (demo_sndbuf 7 [1, 2, 3])) + length [4, 5 :: byte] < HALF"
    by (simp_all add: demo_sndbuf_def sndbuf_ok_def sndbuf_bytes_def chunk_bytes_def)
  show ?thesis using sndbuf_refines_byte_queue [OF ok a b] a b by auto
qed

text \<open>
  Claim C8. Looking up a sequence number for (re)transmission: every sequence number between the
  head and the end of the buffer is found, whatever the wrap-around, and yields a non-empty run of
  exactly the bytes at that position; any other sequence number of the window is refused.
\<close>

theorem sndbuf_peek_is_lookup:
  assumes "sndbuf_ok sb" "seq_off (sb_head_seq sb) seq < HALF"
  shows "if seq_off (sb_head_seq sb) seq < unat (sb_len sb)
    then \<exists>bs rest. tcp_sndbuf_peek sb seq = Some bs \<and> bs \<noteq> [] \<and>
      drop (seq_off (sb_head_seq sb) seq) (sndbuf_bytes sb) = bs @ rest
    else tcp_sndbuf_peek sb seq = None"
proof -
  let ?h = "sb_head_seq sb"
  have ok: "chunks_ok ?h (sb_chunks sb)" "unat (sb_len sb) = length (sndbuf_bytes sb)" "unat (sb_len sb) < HALF"
    using assms(1) by (auto simp: sndbuf_ok_def)
  have e: "seq_off ?h (?h + sb_len sb) = unat (sb_len sb)" by (simp add: seq_off_def)
  have lt: "tcp_seq_lt seq (?h + sb_len sb) \<longleftrightarrow> seq_off ?h seq < unat (sb_len sb)" "\<not> tcp_seq_lt seq ?h"
    using tcp_sq.lt_window [of ?h seq "?h + sb_len sb"] tcp_sq.lt_window [of ?h seq ?h] assms(2) e ok(3)
    by (simp_all add: in_half_def)
  show ?thesis
  proof (cases "seq_off ?h seq < unat (sb_len sb)")
    case True
    then show ?thesis
      using peek_loop_ok [OF ok(1), of "seq - ?h"] ok(2,3) lt
      by (simp add: tcp_sndbuf_peek_def seq_off_def sndbuf_bytes_def)
  qed (simp add: tcp_sndbuf_peek_def lt)
qed

theorem sndbuf_peek_is_lookup_witness:
  "\<exists>bs rest. tcp_sndbuf_peek (demo_sndbuf 4294967295 [1, 2, 3]) 1 = Some bs \<and> bs \<noteq> [] \<and> [3] = bs @ rest"
proof -
  have ok: "sndbuf_ok (demo_sndbuf 4294967295 [1, 2, 3])"
      "seq_off (sb_head_seq (demo_sndbuf 4294967295 [1, 2, 3])) 1 < HALF"
    by (simp_all add: demo_sndbuf_def sndbuf_ok_def sndbuf_bytes_def chunk_bytes_def seq_off_def)
  have "seq_off 4294967295 1 = 2" by (simp add: seq_off_def)
  then show ?thesis using sndbuf_peek_is_lookup [OF ok]
    by (simp add: demo_sndbuf_def sndbuf_bytes_def chunk_bytes_def)
qed

end
