(* ===== verification/Tcp_Options.thy ===== *)
theory Tcp_Options
  imports Serial Tcp_Sack
begin

text \<open>
  TCP option wire format and negotiation, \<^verbatim>\<open>pro-stack/tcp_options.c\<close>. The local Timestamp clock is an
  argument \<open>now\<close>. The option area of a fragment, an array of ten 32-bit words in memory, is its list
  of forty bytes. The parser reads the bytes after the fixed header through a function from
  offsets to bytes, so that what it reads is visible. An \<open>option\<close> result is the code's 0 / -1.
\<close>

subsection \<open>Constants and objects\<close>

definition TCP_OPT_EOL :: u8 where [simp]: "TCP_OPT_EOL = 0"
definition TCP_OPT_NOP :: u8 where [simp]: "TCP_OPT_NOP = 1"
definition TCP_OPT_MSS :: u8 where [simp]: "TCP_OPT_MSS = 2"
definition TCP_OPT_WSCALE :: u8 where [simp]: "TCP_OPT_WSCALE = 3"
definition TCP_OPT_SACK_PERMITTED :: u8 where [simp]: "TCP_OPT_SACK_PERMITTED = 4"
definition TCP_OPT_SACK :: u8 where [simp]: "TCP_OPT_SACK = 5"
definition TCP_OPT_TIMESTAMP :: u8 where [simp]: "TCP_OPT_TIMESTAMP = 8"
definition TCP_MIN_MSS :: u16 where [simp]: "TCP_MIN_MSS = 536"
definition TCP_PAWS_IDLE_MS :: u32 where [simp]: "TCP_PAWS_IDLE_MS = 24 * 24 * 60 * 60 * 1000"

text \<open>The flag bits of DPDK's \<^verbatim>\<open>rte_tcp.h\<close>, the wire values of RFC 9293.\<close>

definition RTE_TCP_FIN_FLAG :: u8 where [simp]: "RTE_TCP_FIN_FLAG = 1"
definition RTE_TCP_SYN_FLAG :: u8 where [simp]: "RTE_TCP_SYN_FLAG = 2"
definition RTE_TCP_RST_FLAG :: u8 where [simp]: "RTE_TCP_RST_FLAG = 4"
definition RTE_TCP_PSH_FLAG :: u8 where [simp]: "RTE_TCP_PSH_FLAG = 8"
definition RTE_TCP_ACK_FLAG :: u8 where [simp]: "RTE_TCP_ACK_FLAG = 16"

record tcp_options_rx =
  rx_mss :: u16
  rx_wscale :: u8
  rx_wscale_present :: bool
  rx_sack_permitted_present :: bool
  rx_opt_sacks :: "tcp_sack_block list"
  rx_opt_timestamp_present :: bool
  rx_opt_tsval :: u32
  rx_opt_tsecr :: u32

subsection \<open>Helpers\<close>

definition tcp_options_now_ms :: "u64 \<Rightarrow> u64 \<Rightarrow> u32" where
  "tcp_options_now_ms cycles hz = ucast (cycles * 1000 div hz)"

definition tcp_options_ts_now :: "tcp_stream \<Rightarrow> u32 \<Rightarrow> u32 \<times> tcp_stream" where
  "tcp_options_ts_now tp now = (now, tp\<lparr>ts_last_val := now\<rparr>)"

definition tcp_options_seq_at_or_after :: "u32 \<Rightarrow> u32 \<Rightarrow> bool" where
  "tcp_options_seq_at_or_after seq boundary \<longleftrightarrow> sint (seq - boundary) \<ge> 0"

definition tcp_options_seq_after :: "u32 \<Rightarrow> u32 \<Rightarrow> bool" where
  "tcp_options_seq_after seq boundary \<longleftrightarrow> sint (seq - boundary) > 0"

text \<open>Big-endian storage of a 32-bit value, \<^verbatim>\<open>rte_cpu_to_be_32\<close> and a copy.\<close>

definition be32 :: "u32 \<Rightarrow> byte list" where
  "be32 x = [ucast (drop_bit 24 x), ucast (drop_bit 16 x), ucast (drop_bit 8 x), ucast x]"

definition be32_at :: "(nat \<Rightarrow> byte) \<Rightarrow> nat \<Rightarrow> u32" where
  "be32_at m i = push_bit 24 (ucast (m i)) OR push_bit 16 (ucast (m (i + 1)))
                 OR push_bit 8 (ucast (m (i + 2))) OR ucast (m (i + 3))"

definition tcp_options_append :: "tcp_fragment \<Rightarrow> byte list \<Rightarrow> tcp_fragment option" where
  "tcp_options_append f data =
     (let offset = nat (frag_opt_len f) * 4; len = length data in
      if offset + len > 40 then None
      else Some (f\<lparr>frag_options := take offset (frag_options f) @ data @ drop (offset + len) (frag_options f),
                   frag_opt_len := int ((offset + len + 4 - 1) div 4)\<rparr>))"

definition tcp_options_emit_mss :: "tcp_fragment \<Rightarrow> u16 \<Rightarrow> tcp_fragment option" where
  "tcp_options_emit_mss f mss =
     tcp_options_append f [TCP_OPT_MSS, 4, ucast (drop_bit 8 mss), ucast mss]"

definition tcp_options_emit_wscale :: "tcp_fragment \<Rightarrow> u8 \<Rightarrow> tcp_fragment option" where
  "tcp_options_emit_wscale f wscale = tcp_options_append f [TCP_OPT_NOP, TCP_OPT_WSCALE, 3, wscale]"

definition tcp_options_emit_timestamp :: "tcp_fragment \<Rightarrow> u32 \<Rightarrow> u32 \<Rightarrow> tcp_fragment option" where
  "tcp_options_emit_timestamp f tsval tsecr =
     tcp_options_append f ([TCP_OPT_NOP, TCP_OPT_NOP, TCP_OPT_TIMESTAMP, 10] @ be32 tsval @ be32 tsecr)"

definition tcp_options_emit_sack_permitted :: "tcp_fragment \<Rightarrow> tcp_fragment option" where
  "tcp_options_emit_sack_permitted f = tcp_options_append f [TCP_OPT_SACK_PERMITTED, 2]"

subsection \<open>Receiver SACK blocks\<close>

definition tcp_options_block_contains :: "tcp_sack_block \<Rightarrow> tcp_sack_block \<Rightarrow> bool" where
  "tcp_options_block_contains outer inner \<longleftrightarrow>
     \<not> tcp_options_seq_after (blk_left outer) (blk_left inner) \<and>
     \<not> tcp_options_seq_after (blk_right inner) (blk_right outer)"

definition tcp_options_add_distinct ::
  "tcp_sack_block list \<Rightarrow> nat \<Rightarrow> tcp_sack_block \<Rightarrow> tcp_sack_block list" where
  "tcp_options_add_distinct out capacity block =
     (if list_ex (\<lambda>o1. tcp_options_block_contains o1 block) out then out
      else if length out \<ge> capacity then out else out @ [block])"

text \<open>The list without its first related entry, or \<open>None\<close> when there is none.\<close>

fun drop_related :: "tcp_sack_block \<Rightarrow> tcp_sack_block list \<Rightarrow> tcp_sack_block list option" where
  "drop_related block [] = None"
| "drop_related block (h # hs) =
     (if tcp_options_block_contains h block \<or> tcp_options_block_contains block h then Some hs
      else map_option (Cons h) (drop_related block hs))"

definition tcp_options_history_push :: "tcp_stream \<Rightarrow> tcp_sack_block \<Rightarrow> tcp_stream" where
  "tcp_options_history_push tp block =
     tp\<lparr>sack_history := (case drop_related block (sack_history tp) of
          Some hs \<Rightarrow> block # hs
        | None \<Rightarrow> take TCP_SACK_MAX_BLOCKS (block # sack_history tp))\<rparr>"

text \<open>The merging loop over the out-of-order queue; the accumulator holds the blocks in reverse.\<close>

fun normalize_ofo :: "u32 \<Rightarrow> tcp_ofo_seg list \<Rightarrow> tcp_sack_block list \<Rightarrow> tcp_sack_block list" where
  "normalize_ofo rcv [] acc = rev acc"
| "normalize_ofo rcv (seg # segs) acc =
     (let left = seg_seq seg; right = seg_seq seg + seg_len seg in
      if seg_len seg = 0 \<or> \<not> tcp_options_seq_after right rcv then normalize_ofo rcv segs acc
      else let left = (if tcp_options_seq_after rcv left then rcv else left) in
        (case acc of
           prev # rest \<Rightarrow>
             if \<not> tcp_options_seq_after left (blk_right prev) then
               normalize_ofo rcv segs
                 (if tcp_options_seq_after right (blk_right prev) then prev\<lparr>blk_right := right\<rparr> # rest
                  else acc)
             else if length acc = TCP_OFO_MAX_SEGS then rev acc
             else normalize_ofo rcv segs (\<lparr>blk_left = left, blk_right = right\<rparr> # acc)
         | [] \<Rightarrow> normalize_ofo rcv segs [\<lparr>blk_left = left, blk_right = right\<rparr>]))"

definition find_recent :: "tcp_stream \<Rightarrow> tcp_sack_block list \<Rightarrow> tcp_sack_block option" where
  "find_recent tp normalized =
     (if sack_recent_valid tp then
        List.find (\<lambda>n. tcp_options_seq_after (blk_right n) (blk_left (sack_recent tp)) \<and>
                       tcp_options_seq_after (blk_right (sack_recent tp)) (blk_left n)) normalized
      else None)"

definition emit_dsack ::
  "tcp_stream \<Rightarrow> tcp_sack_block list \<Rightarrow> nat \<Rightarrow> tcp_sack_block list \<times> tcp_stream" where
  "emit_dsack tp normalized capacity =
     (if dsack_pending tp \<and> capacity \<noteq> 0 then
        let out = tcp_options_add_distinct [] capacity (dsack_block tp);
            out = (if tcp_options_seq_after (blk_right (dsack_block tp)) (recv_ack tp) then
                     (case List.find (\<lambda>n. tcp_options_block_contains n (dsack_block tp)) normalized of
                        None \<Rightarrow> out | Some n \<Rightarrow> tcp_options_add_distinct out capacity n)
                   else out)
        in (out, tp\<lparr>dsack_pending := False\<rparr>)
      else ([], tp))"

fun emit_history ::
  "tcp_sack_block list \<Rightarrow> tcp_sack_block list \<Rightarrow> nat \<Rightarrow> tcp_sack_block list \<Rightarrow> tcp_sack_block list" where
  "emit_history normalized [] capacity out = out"
| "emit_history normalized (h # hs) capacity out =
     (if length out < capacity then
        emit_history normalized hs capacity
          (case List.find (\<lambda>n. tcp_options_block_contains n h) normalized of
             None \<Rightarrow> out | Some n \<Rightarrow> tcp_options_add_distinct out capacity n)
      else out)"

fun emit_remaining :: "tcp_sack_block list \<Rightarrow> nat \<Rightarrow> tcp_sack_block list \<Rightarrow> tcp_sack_block list" where
  "emit_remaining [] capacity out = out"
| "emit_remaining (n # ns) capacity out =
     (if length out < capacity then emit_remaining ns capacity (tcp_options_add_distinct out capacity n)
      else out)"

definition tcp_options_collect_sacks ::
  "tcp_stream \<Rightarrow> nat \<Rightarrow> tcp_sack_block list \<times> tcp_stream" where
  "tcp_options_collect_sacks tp capacity =
     (let normalized = normalize_ofo (recv_ack tp) (ofo tp) [];
          recent = find_recent tp normalized;
          (out, tp) = emit_dsack tp normalized capacity;
          (out, tp) = (case recent of None \<Rightarrow> (out, tp)
             | Some n \<Rightarrow> (tcp_options_add_distinct out capacity n, tcp_options_history_push tp n));
          tp = tp\<lparr>sack_recent_valid := False\<rparr>;
          out = emit_history normalized (sack_history tp) capacity out
      in (emit_remaining normalized capacity out, tp))"

text \<open>The blocks on the wire, after the kind and length bytes.\<close>

definition sack_option :: "tcp_sack_block list \<Rightarrow> byte list" where
  "sack_option blocks = [TCP_OPT_SACK, of_nat (2 + length blocks * 8)]
     @ concat (map (\<lambda>b. be32 (blk_left b) @ be32 (blk_right b)) blocks)"

definition tcp_options_emit_sack ::
  "tcp_stream \<Rightarrow> tcp_fragment \<Rightarrow> tcp_fragment option \<times> tcp_stream" where
  "tcp_options_emit_sack tp f =
     (let offset = nat (frag_opt_len f) * 4 in
      if frag_tcp_flags f AND RTE_TCP_ACK_FLAG = 0 \<or> \<not> sack_permitted tp \<or>
         (\<not> dsack_pending tp \<and> ofo tp = []) \<or> offset + 2 > 40 then (Some f, tp)
      else let capacity = (40 - offset - 2) div 8;
               capacity = (if capacity > TCP_SACK_MAX_BLOCKS then TCP_SACK_MAX_BLOCKS else capacity);
               (blocks, tp) = tcp_options_collect_sacks tp capacity
           in if blocks = [] then (Some f, tp)
              else (tcp_options_append f (sack_option blocks), tp))"

definition tcp_options_finish :: "tcp_fragment \<Rightarrow> tcp_fragment" where
  "tcp_options_finish f = f\<lparr>frag_data_off := push_bit 4 (word_of_int (5 + frag_opt_len f))\<rparr>"

definition tcp_options_reset_state :: "tcp_stream \<Rightarrow> tcp_stream" where
  "tcp_options_reset_state tp =
     (let tp = tp\<lparr>timestamps_ok := False, ts_recent := 0, ts_recent_valid := False,
            ts_recent_age_ms := 0, ts_last_val := 0, rx_timestamp_present := False, rx_tsval := 0,
            rx_tsecr := 0, sack_local_offered := False, sack_peer_permitted := False,
            sack_permitted := False, sack_recent_valid := False, sack_history := [],
            dsack_pending := False, rx_sacks := [], fin_deferred := False\<rparr>
      in tcp_sack_state_reset tp (snd_una tp))"

subsection \<open>Parsing\<close>

record parse_state =
  p_rx :: tcp_options_rx
  p_mss_present :: bool
  p_sack_permitted_seen :: bool
  p_sack_seen :: bool

definition tcp_options_rx_zero :: tcp_options_rx where
  "tcp_options_rx_zero =
     \<lparr>rx_mss = 0, rx_wscale = 0, rx_wscale_present = False, rx_sack_permitted_present = False,
      rx_opt_sacks = [], rx_opt_timestamp_present = False, rx_opt_tsval = 0, rx_opt_tsecr = 0\<rparr>"

definition sack_blocks_at :: "(nat \<Rightarrow> byte) \<Rightarrow> nat \<Rightarrow> nat \<Rightarrow> tcp_sack_block list" where
  "sack_blocks_at opt i n =
     map (\<lambda>k. \<lparr>blk_left = be32_at opt (i + k * 8), blk_right = be32_at opt (i + k * 8 + 4)\<rparr>) [0..<n]"

text \<open>The \<^verbatim>\<open>switch\<close> on one option of length \<open>len\<close> at offset \<open>i\<close>.\<close>

definition parse_sack :: "u8 \<Rightarrow> (nat \<Rightarrow> byte) \<Rightarrow> nat \<Rightarrow> nat \<Rightarrow> parse_state \<Rightarrow> parse_state option" where
  "parse_sack flags opt i len st =
     (if len < 10 \<or> (len - 2) mod 8 \<noteq> 0 \<or> p_sack_seen st then None
      else let count = (len - 2) div 8; blocks = sack_blocks_at opt (i + 2) count in
        if count > TCP_SACK_MAX_BLOCKS then None
        else if list_ex (\<lambda>b. \<not> tcp_options_seq_after (blk_right b) (blk_left b)) blocks then None
        else let st = st\<lparr>p_sack_seen := True\<rparr> in
          Some (if flags AND RTE_TCP_SYN_FLAG = 0 \<and> flags AND RTE_TCP_ACK_FLAG \<noteq> 0
                then st\<lparr>p_rx := (p_rx st)\<lparr>rx_opt_sacks := blocks\<rparr>\<rparr> else st))"

definition parse_one ::
  "u8 \<Rightarrow> (nat \<Rightarrow> byte) \<Rightarrow> nat \<Rightarrow> u8 \<Rightarrow> nat \<Rightarrow> parse_state \<Rightarrow> parse_state option" where
  "parse_one flags opt i k len st =
     (if k = TCP_OPT_MSS then
        if len \<noteq> 4 \<or> p_mss_present st then None
        else let value = push_bit 8 (ucast (opt (i + 2))) OR ucast (opt (i + 3)) :: u16;
                 st = st\<lparr>p_mss_present := True\<rparr>
             in Some (if value \<ge> TCP_MIN_MSS then st\<lparr>p_rx := (p_rx st)\<lparr>rx_mss := value\<rparr>\<rparr> else st)
      else if k = TCP_OPT_WSCALE then
        if len \<noteq> 3 \<or> rx_wscale_present (p_rx st) \<or> opt (i + 2) > TCP_WSCALE_MAX then None
        else Some (st\<lparr>p_rx := (p_rx st)\<lparr>rx_wscale := opt (i + 2), rx_wscale_present := True\<rparr>\<rparr>)
      else if k = TCP_OPT_SACK_PERMITTED then
        if len \<noteq> 2 \<or> p_sack_permitted_seen st then None
        else let st = st\<lparr>p_sack_permitted_seen := True\<rparr>
             in Some (if flags AND RTE_TCP_SYN_FLAG \<noteq> 0
                      then st\<lparr>p_rx := (p_rx st)\<lparr>rx_sack_permitted_present := True\<rparr>\<rparr> else st)
      else if k = TCP_OPT_SACK then parse_sack flags opt i len st
      else if k = TCP_OPT_TIMESTAMP then
        if len \<noteq> 10 \<or> rx_opt_timestamp_present (p_rx st) then None
        else Some (st\<lparr>p_rx := (p_rx st)\<lparr>rx_opt_tsval := be32_at opt (i + 2),
               rx_opt_tsecr := be32_at opt (i + 6), rx_opt_timestamp_present := True\<rparr>\<rparr>)
      else Some st)"

function parse_loop ::
  "u8 \<Rightarrow> (nat \<Rightarrow> byte) \<Rightarrow> nat \<Rightarrow> nat \<Rightarrow> parse_state \<Rightarrow> parse_state option" where
  "parse_loop flags opt i remain st =
     (if remain = 0 then Some st
      else if opt i = TCP_OPT_EOL then Some st
      else if opt i = TCP_OPT_NOP then parse_loop flags opt (i + 1) (remain - 1) st
      else if remain < 2 then None
      else let len = unat (opt (i + 1)) in
        if len < 2 \<or> len > remain then None
        else (case parse_one flags opt i (opt i) len st of None \<Rightarrow> None
              | Some st \<Rightarrow> parse_loop flags opt (i + len) (remain - len) st))"
  by pat_completeness auto
termination
  by (relation "measure (\<lambda>(flags, opt, i, remain, st). remain)") auto

declare parse_loop.simps [simp del]

definition header_len :: "u8 \<Rightarrow> nat" where
  "header_len data_off = unat (drop_bit 4 data_off * 4)"

definition tcp_options_parse :: "u8 \<Rightarrow> u8 \<Rightarrow> (nat \<Rightarrow> byte) \<Rightarrow> tcp_options_rx option" where
  "tcp_options_parse data_off flags opt =
     (if header_len data_off < 20 then None
      else map_option p_rx (parse_loop flags opt 0 (header_len data_off - 20)
             \<lparr>p_rx = tcp_options_rx_zero\<lparr>rx_mss := TCP_DEFAULT_MSS\<rparr>, p_mss_present = False,
              p_sack_permitted_seen = False, p_sack_seen = False\<rparr>))"

subsection \<open>Negotiation and per-segment processing\<close>

definition tcp_options_negotiate_syn :: "tcp_stream \<Rightarrow> tcp_options_rx \<Rightarrow> u32 \<Rightarrow> tcp_stream" where
  "tcp_options_negotiate_syn tp peer now =
     (let tp = tp\<lparr>snd_mss := (if rx_mss peer < TCP_DEFAULT_MSS then rx_mss peer else TCP_DEFAULT_MSS),
            snd_wscale := rx_wscale peer, wscale_ok := rx_wscale_present peer,
            timestamps_ok := rx_opt_timestamp_present peer\<rparr>;
          tp = (if rx_sack_permitted_present peer then tp\<lparr>sack_peer_permitted := True\<rparr> else tp);
          tp = tp\<lparr>sack_permitted := sack_local_offered tp \<and> sack_peer_permitted tp\<rparr>
      in if rx_opt_timestamp_present peer
         then tp\<lparr>ts_recent := rx_opt_tsval peer, ts_recent_valid := True, ts_recent_age_ms := now\<rparr>
         else tp)"

definition tcp_options_apply_syn ::
  "tcp_stream \<Rightarrow> tcp_fragment \<Rightarrow> bool \<Rightarrow> bool \<Rightarrow> bool \<Rightarrow> u32 \<Rightarrow> u32 \<Rightarrow> tcp_fragment option \<times> tcp_stream" where
  "tcp_options_apply_syn tp f include_wscale include_timestamp include_sack_permitted tsecr now =
     (let f = f\<lparr>frag_options := replicate 40 0, frag_opt_len := 0\<rparr> in
      case tcp_options_emit_mss f TCP_DEFAULT_MSS of None \<Rightarrow> (None, tp) | Some f \<Rightarrow>
      (case (if include_wscale then tcp_options_emit_wscale f (rcv_wscale tp) else Some f) of
         None \<Rightarrow> (None, tp) | Some f \<Rightarrow>
       let (now, tp) = (if include_timestamp then tcp_options_ts_now tp now else (now, tp)) in
       (case (if include_timestamp then tcp_options_emit_timestamp f now tsecr else Some f) of
          None \<Rightarrow> (None, tp) | Some f \<Rightarrow>
        (case (if include_sack_permitted then tcp_options_emit_sack_permitted f else Some f) of
           None \<Rightarrow> (None, tp) | Some f \<Rightarrow>
         (Some (tcp_options_finish f),
          tp\<lparr>sack_local_offered := include_sack_permitted,
             sack_permitted := include_sack_permitted \<and> sack_peer_permitted tp\<rparr>)))))"

definition tcp_options_apply_established ::
  "tcp_stream \<Rightarrow> tcp_fragment \<Rightarrow> u32 \<Rightarrow> tcp_fragment option \<times> tcp_stream" where
  "tcp_options_apply_established tp f now =
     (let f = f\<lparr>frag_options := replicate 40 0, frag_opt_len := 0\<rparr>;
          (now, tp) = (if timestamps_ok tp then tcp_options_ts_now tp now else (now, tp))
      in case (if timestamps_ok tp then tcp_options_emit_timestamp f now (ts_recent tp) else Some f) of
           None \<Rightarrow> (None, tp)
         | Some f \<Rightarrow> (case tcp_options_emit_sack tp f of (None, tp) \<Rightarrow> (None, tp)
              | (Some f, tp) \<Rightarrow> (Some (tcp_options_finish f), tp)))"

text \<open>What \<^verbatim>\<open>tcp_options_process_inbound\<close> tells the caller: 0, -1 or -2.\<close>

datatype inbound_verdict = Inbound_Ok | Inbound_Timestamp_Missing | Inbound_Paws_Drop

definition tcp_options_process_inbound ::
  "tcp_stream \<Rightarrow> tcp_options_rx \<Rightarrow> bool \<Rightarrow> u32 \<Rightarrow> bool \<Rightarrow> u32 \<Rightarrow> inbound_verdict \<times> tcp_stream" where
  "tcp_options_process_inbound tp rx is_rst seq seq_acceptable now =
     (let tp = tp\<lparr>rx_timestamp_present := rx_opt_timestamp_present rx, rx_tsval := rx_opt_tsval rx,
            rx_tsecr := rx_opt_tsecr rx, rx_sacks := rx_opt_sacks rx\<rparr> in
      if is_rst \<or> \<not> timestamps_ok tp then (Inbound_Ok, tp)
      else if \<not> rx_opt_timestamp_present rx then (Inbound_Timestamp_Missing, tp)
      else let tp = (if ts_recent_valid tp \<and> now - ts_recent_age_ms tp > TCP_PAWS_IDLE_MS
                     then tp\<lparr>ts_recent_valid := False\<rparr> else tp)
           in if seq_acceptable \<and> tcp_options_seq_at_or_after seq (recv_ack tp) \<and>
                 ts_recent_valid tp \<and> sint (rx_opt_tsval rx - ts_recent tp) < 0
              then (Inbound_Paws_Drop, tp) else (Inbound_Ok, tp))"

definition tcp_options_note_receive_progress :: "tcp_stream \<Rightarrow> u32 \<Rightarrow> tcp_stream" where
  "tcp_options_note_receive_progress tp now =
     (if \<not> timestamps_ok tp \<or> \<not> rx_timestamp_present tp then tp
      else tp\<lparr>ts_recent := rx_tsval tp, ts_recent_valid := True, ts_recent_age_ms := now\<rparr>)"

definition tcp_options_data_mss :: "tcp_stream \<Rightarrow> tcp_fragment option \<Rightarrow> u16" where
  "tcp_options_data_mss tp f =
     (let peer_mss = (if snd_mss tp = 0 then TCP_DEFAULT_MSS else snd_mss tp);
          option_bytes = (case f of None \<Rightarrow> 0
             | Some f \<Rightarrow> if frag_opt_len f < 0 then 0 else (word_of_int (frag_opt_len f) :: u16) * 4);
          local_mss = (if option_bytes > TCP_DEFAULT_MSS then 0 else TCP_DEFAULT_MSS - option_bytes)
      in if peer_mss < local_mss then peer_mss else local_mss)"

end
