(* ===== verification/Owner_Clock.thy ===== *)
theory Owner_Clock
  imports Prelude
begin

text \<open>
  Conversions between milliseconds and timer cycles, and absolute deadlines, of
  \<^verbatim>\<open>pro-stack/owner_timer.c\<close>. The cycle counter and its frequency are DPDK's: \<open>now\<close> and \<open>hz\<close> are
  arguments.
\<close>

definition owner_timer_ms_to_cycles :: "u64 \<Rightarrow> u64 \<Rightarrow> u64" where
  "owner_timer_ms_to_cycles hz milliseconds =
     (let seconds = milliseconds div 1000; remainder = milliseconds mod 1000 in
      if hz = 0 then 0
      else if seconds > UINT64_MAX div hz then UINT64_MAX
      else let cycles = seconds * hz; hz_whole = hz div 1000; hz_remainder = hz mod 1000 in
      if remainder \<noteq> 0 \<and> hz_whole > UINT64_MAX div remainder then UINT64_MAX
      else let fractional = remainder * hz_whole;
               fractional_remainder = remainder * hz_remainder div 1000 in
      if fractional_remainder > UINT64_MAX - fractional then UINT64_MAX
      else let fractional = fractional + fractional_remainder in
      if fractional > UINT64_MAX - cycles then UINT64_MAX
      else cycles + fractional)"

text \<open>The product is taken in 128 bits in the code, so it does not wrap.\<close>

definition owner_timer_cycles_to_ms :: "u64 \<Rightarrow> u64 \<Rightarrow> u64" where
  "owner_timer_cycles_to_ms hz cycles =
     (if hz = 0 then 0
      else let milliseconds = unat cycles * 1000 div unat hz
           in if milliseconds > unat UINT64_MAX then UINT64_MAX else of_nat milliseconds)"

text \<open>An absolute deadline a delay away, saturating.\<close>

definition deadline_after :: "u64 \<Rightarrow> u64 \<Rightarrow> u64" where
  "deadline_after now delay = (if delay > UINT64_MAX - now then UINT64_MAX else now + delay)"

subsection \<open>The conversions are exact up to saturation\<close>

lemma unat_max: "unat UINT64_MAX = 2 ^ 64 - 1"
  by (simp add: unsigned_minus_1_eq_mask mask_eq_exp_minus_1)

lemma unat_le_max: "unat (x :: u64) \<le> 2 ^ 64 - 1"
  using unat_u64_lt [of x] by simp

lemma mult_u64_fits:
  fixes a b :: u64
  shows "unat a * unat b < 2 ^ 64 \<Longrightarrow> unat (a * b) = unat a * unat b"
  by (simp add: unat_word_ariths)

lemma add_u64_fits:
  fixes a b :: u64
  shows "unat a + unat b < 2 ^ 64 \<Longrightarrow> unat (a + b) = unat a + unat b"
  by (simp add: unat_word_ariths)

lemma unat_max_minus: "unat (UINT64_MAX - x) = 2 ^ 64 - 1 - unat x"
  using unat_le_max [of x] by (subst unat_sub) (simp_all add: word_le_nat_alt unat_max)

lemma gt_max_div:
  fixes a b :: u64
  assumes "b \<noteq> 0"
  shows "a > UINT64_MAX div b \<longleftrightarrow> \<not> unat a * unat b < 2 ^ 64"
proof -
  have "0 < unat b" using assms by (simp add: unat_gt_0)
  then have "(2 ^ 64 - 1) div unat b < unat a \<longleftrightarrow> 2 ^ 64 - 1 < unat a * unat b"
    by (simp add: div_less_iff_less_mult)
  then show ?thesis unfolding word_less_nat_alt unat_div unat_max by auto
qed

lemma gt_max_minus:
  fixes a b :: u64
  shows "UINT64_MAX - b < a \<longleftrightarrow> \<not> unat a + unat b < 2 ^ 64"
  using unat_le_max [of b] unfolding word_less_nat_alt unat_max_minus by auto

lemma ms_split:
  fixes ms hz :: nat
  shows "ms * hz div 1000 = ms div 1000 * hz + (ms mod 1000 * (hz div 1000) + ms mod 1000 * (hz mod 1000) div 1000)"
proof -
  let ?s = "ms div 1000" and ?r = "ms mod 1000" and ?w = "hz div 1000" and ?m = "hz mod 1000"
  have "ms * hz = (?s * 1000 + ?r) * hz" by simp
  then have "ms * hz = ?s * hz * 1000 + ?r * hz" by (simp only: algebra_simps)
  moreover have "?r * hz = ?r * (?w * 1000 + ?m)" by simp
  then have "?r * hz = ?r * ?w * 1000 + ?r * ?m" by (simp only: algebra_simps)
  ultimately have "ms * hz = (?s * hz + ?r * ?w) * 1000 + ?r * ?m" by (simp only: algebra_simps)
  moreover have "(x * 1000 + y) div 1000 = x + y div 1000" for x y :: nat by simp
  ultimately show ?thesis by (simp only: add.assoc)
qed

text \<open>
  Claim C6. Converting milliseconds to cycles is exact: the result is the integer part of
  \<open>milliseconds * hz / 1000\<close>, or the largest 64-bit value when that does not fit. None of the
  intermediate products and sums wraps.
\<close>

theorem ms_to_cycles_exact:
  "unat (owner_timer_ms_to_cycles hz ms) = min (2 ^ 64 - 1) (unat ms * unat hz div 1000)"
proof (cases "hz = 0")
  case False
  let ?s = "ms div 1000" and ?r = "ms mod 1000" and ?w = "hz div 1000" and ?m = "hz mod 1000"
  have u: "unat ?s = unat ms div 1000" "unat ?r = unat ms mod 1000" "unat ?w = unat hz div 1000" "unat ?m = unat hz mod 1000"
    by (simp_all add: unat_div unat_mod)
  have "unat ?r * unat ?m \<le> 1000 * 1000" unfolding u by (intro mult_le_mono) simp_all
  then have rm: "unat (?r * ?m) = unat ?r * unat ?m" by (intro mult_u64_fits) simp
  have fr: "unat (?r * ?m div 1000) = unat ?r * unat ?m div 1000" by (simp add: unat_div rm)
  note total = ms_split [of "unat ms" "unat hz", folded u]
  consider (sat1) "?s > UINT64_MAX div hz" | (sat2) "\<not> ?s > UINT64_MAX div hz" "?r \<noteq> 0 \<and> ?w > UINT64_MAX div ?r"
    | (go) "\<not> ?s > UINT64_MAX div hz" "\<not> (?r \<noteq> 0 \<and> ?w > UINT64_MAX div ?r)" by argo
  then show ?thesis
  proof cases
    case sat1
    then have "2 ^ 64 - 1 \<le> unat ms * unat hz div 1000"
      using gt_max_div [OF False, of ?s] unfolding total by linarith
    then show ?thesis using sat1 False by (simp add: owner_timer_ms_to_cycles_def unat_max)
  next
    case sat2
    then have "\<not> unat ?w * unat ?r < 2 ^ 64" using gt_max_div [of ?r ?w] by simp
    then have "2 ^ 64 - 1 \<le> unat ms * unat hz div 1000" unfolding total by (simp add: mult.commute)
    then show ?thesis using sat2 False by (simp add: owner_timer_ms_to_cycles_def unat_max Let_def)
  next
    case go
    have c: "unat (?s * hz) = unat ?s * unat hz" using go(1) gt_max_div [OF False, of ?s] by (intro mult_u64_fits) simp
    have "?r \<noteq> 0 \<Longrightarrow> unat ?w * unat ?r < 2 ^ 64" using go(2) gt_max_div [of ?r ?w] by simp
    then have "unat ?r * unat ?w < 2 ^ 64" by (cases "?r = 0") (simp_all add: mult.commute)
    then have f: "unat (?r * ?w) = unat ?r * unat ?w" by (rule mult_u64_fits)
    show ?thesis
    proof (cases "?r * ?m div 1000 > UINT64_MAX - ?r * ?w")
      case True
      then have "\<not> unat (?r * ?m div 1000) + unat (?r * ?w) < 2 ^ 64" unfolding gt_max_minus .
      then have "2 ^ 64 - 1 \<le> unat ms * unat hz div 1000" unfolding total fr f by linarith
      then show ?thesis using go False True by (simp add: owner_timer_ms_to_cycles_def unat_max Let_def)
    next
      case ok: False
      then have "unat (?r * ?w + ?r * ?m div 1000) = unat (?r * ?w) + unat (?r * ?m div 1000)"
        using gt_max_minus [of "?r * ?w" "?r * ?m div 1000"] by (intro add_u64_fits) linarith
      then have g: "unat (?r * ?w + ?r * ?m div 1000) = unat ?r * unat ?w + unat ?r * unat ?m div 1000"
        unfolding f fr .
      show ?thesis
      proof (cases "?r * ?w + ?r * ?m div 1000 > UINT64_MAX - ?s * hz")
        case True
        then have "\<not> unat (?r * ?w + ?r * ?m div 1000) + unat (?s * hz) < 2 ^ 64" unfolding gt_max_minus .
        then have "2 ^ 64 - 1 \<le> unat ms * unat hz div 1000" unfolding total g c by linarith
        then show ?thesis using go False ok True by (simp add: owner_timer_ms_to_cycles_def unat_max Let_def)
      next
        case fit: False
        then have lt: "unat (?s * hz) + unat (?r * ?w + ?r * ?m div 1000) < 2 ^ 64"
          using gt_max_minus [of "?s * hz" "?r * ?w + ?r * ?m div 1000"] by linarith
        have "unat (?s * hz + (?r * ?w + ?r * ?m div 1000)) = unat ms * unat hz div 1000"
          unfolding total add_u64_fits [OF lt] c g ..
        moreover from this have "unat ms * unat hz div 1000 \<le> 2 ^ 64 - 1" by (metis unat_le_max)
        ultimately show ?thesis using go False ok fit by (auto simp: owner_timer_ms_to_cycles_def Let_def min_def)
      qed
    qed
  qed
qed (simp add: owner_timer_ms_to_cycles_def Let_def)

text \<open>A saturated deadline is never earlier than the current time.\<close>

lemma deadline_after_ge: "now \<le> deadline_after now delay"
proof (cases "delay > UINT64_MAX - now")
  case False
  then have "unat now + unat delay < 2 ^ 64" using gt_max_minus [of now delay] by linarith
  then show ?thesis using False add_u64_fits [of now delay] by (simp add: deadline_after_def word_le_nat_alt)
qed (simp add: deadline_after_def)

end
