(* ===== verification/Tcp_World.thy ===== *)
theory Tcp_World
  imports Tcp_Ofo Tcp_Sndbuf Tcp_Options Tcp_Rtt Tcp_Cc Owner_Clock
begin

text \<open>
  The state a TCP handler of \<^verbatim>\<open>pro-stack/tcp.c\<close> works on, and the helpers its handlers share: queues of
  the socket, status changes, control segments, the receive window, teardown. One handler runs on
  the owner worker for one socket; \<open>tcp_world\<close> is that socket with the owner's memory and
  out-of-order controller. Of its listener a child reaches the pending count and the accept queue.
  What a handler asks of the other layers (command wake-ups, readiness events, the transmit
  scheduler, the resets it emits) is recorded in order in \<open>sk_log\<close>. Production build, owner-local
  queues.
\<close>

subsection \<open>Constants\<close>

definition RING_SIZE :: nat where [simp]: "RING_SIZE = 1024"
definition TCP_2MSL_MS :: u64 where [simp]: "TCP_2MSL_MS = 2 * 1000"
definition TCP_SYN_RTO_MS :: u64 where [simp]: "TCP_SYN_RTO_MS = 1000"
definition OWNER_IO_EV_READ :: u32 where [simp]: "OWNER_IO_EV_READ = 1"
definition OWNER_IO_EV_WRITE :: u32 where [simp]: "OWNER_IO_EV_WRITE = 2"
definition OWNER_IO_EV_CONNECTED :: u32 where [simp]: "OWNER_IO_EV_CONNECTED = 4"
definition OWNER_IO_EV_ERROR :: u32 where [simp]: "OWNER_IO_EV_ERROR = 8"
definition OWNER_IO_EV_HUP :: u32 where [simp]: "OWNER_IO_EV_HUP = 16"
definition OWNER_IO_EV_ACCEPT :: u32 where [simp]: "OWNER_IO_EV_ACCEPT = 32"

datatype errno = EAGAIN | EPIPE | EINVAL | ENOBUFS | ETIMEDOUT | ECONNRESET | ECANCELED | EADDRNOTAVAIL | EADDRINUSE | EINPROGRESS

subsection \<open>World\<close>

datatype tcp_effect =
    Fx_tx_dirty
  | Fx_wake_recv
  | Fx_wake_send
  | Fx_wake_accept
  | Fx_ready u32
  | Fx_ready_listener u32
  | Fx_connect_done "errno option"
  | Fx_abort_waiters errno
  | Fx_abort_reset tcp_fragment
  | Fx_reset_stream tcp_fragment
  | Fx_tx tcp_fragment
  | Fx_arp_wait u32
  | Fx_free

text \<open>
  What a passive-open child reaches of its listener; the accept ring holds socket numbers.
  \<open>sk_attached\<close> says that the child's listener pointer is set.
\<close>

record tcp_parent =
  par_syn_pending :: u32
  par_accept_queue :: "nat list option"
  par_accept_room :: nat

record 'p tcp_world = "'p ofo_world" +
  sk_id :: nat
  sk_local_ip :: u32
  sk_local_port :: u16
  sk_nodelay :: bool
  sk_app_visible :: bool
  sk_app_closed :: bool
  sk_terminal_error :: "errno option"
  sk_timer :: "u64 option"
  sk_attached :: bool
  sk_parent :: tcp_parent
  sk_registered :: bool
  sk_freed :: bool
  sk_log :: "tcp_effect list"

text \<open>
  What stays fixed during one handler call: the pools' operations, the clock, whether the owner's
  timer engine accepts an arm request, and whether SACK range nodes can be allocated.
\<close>

record 'p tcp_env =
  env_mp :: "'p rte_mempool_ops"
  env_now :: u64
  env_hz :: u64
  env_timer_ok :: bool
  env_range_pool :: "nat \<Rightarrow> bool"

definition env_ms :: "'p tcp_env \<Rightarrow> u32" where
  "env_ms env = tcp_options_now_ms (env_now env) (env_hz env)"

definition upd_tp :: "(tcp_stream \<Rightarrow> tcp_stream) \<Rightarrow> 'p tcp_world \<Rightarrow> 'p tcp_world" where
  "upd_tp f w = w\<lparr>w_tp := f (w_tp w)\<rparr>"

definition log_fx :: "tcp_effect \<Rightarrow> 'p tcp_world \<Rightarrow> 'p tcp_world" where
  "log_fx e w = w\<lparr>sk_log := sk_log w @ [e]\<rparr>"

definition tcp_mark_tx_dirty :: "'p tcp_world \<Rightarrow> 'p tcp_world" where
  "tcp_mark_tx_dirty w = log_fx Fx_tx_dirty w"

subsection \<open>The socket's timer\<close>

definition sock_arm_at :: "'p tcp_env \<Rightarrow> 'p tcp_world \<Rightarrow> u64 \<Rightarrow> bool \<times> 'p tcp_world" where
  "sock_arm_at env w deadline =
     (if env_timer_ok env then (True, w\<lparr>sk_timer := Some deadline\<rparr>) else (False, w))"

definition owner_timer_arm_after_ms :: "'p tcp_env \<Rightarrow> 'p tcp_world \<Rightarrow> u64 \<Rightarrow> bool \<times> 'p tcp_world" where
  "owner_timer_arm_after_ms env w delay_ms =
     sock_arm_at env w (deadline_after (env_now env) (owner_timer_ms_to_cycles (env_hz env) delay_ms))"

definition sock_timer_cancel :: "'p tcp_world \<Rightarrow> 'p tcp_world" where
  "sock_timer_cancel w = w\<lparr>sk_timer := None\<rparr>"

definition tcp_arm_syn_timer :: "'p tcp_env \<Rightarrow> 'p tcp_world \<Rightarrow> u64 \<Rightarrow> bool \<times> 'p tcp_world" where
  "tcp_arm_syn_timer env w delay_ms = owner_timer_arm_after_ms env w delay_ms"

definition tcp_arm_data_rto :: "'p tcp_env \<Rightarrow> 'p tcp_world \<Rightarrow> u64 \<Rightarrow> bool \<times> 'p tcp_world" where
  "tcp_arm_data_rto env w delay_ms =
     (let deadline = deadline_after (env_now env) (owner_timer_ms_to_cycles (env_hz env) delay_ms);
          close_deadline = close_deadline_cycles (w_tp w);
          deadline = (if close_deadline \<noteq> 0 \<and> close_deadline < deadline then close_deadline else deadline)
      in sock_arm_at env w deadline)"

subsection \<open>Windows\<close>

function choose_rcv_wscale_loop :: "u32 \<Rightarrow> u8 \<Rightarrow> u8" where
  "choose_rcv_wscale_loop bufsize scale =
     (if scale < TCP_WSCALE_MAX \<and> drop_bit (unat scale) bufsize > 65535
      then choose_rcv_wscale_loop bufsize (scale + 1) else scale)"
  by auto
termination
proof (relation "measure (\<lambda>(s, k). 14 - unat k)", goal_cases)
  case (2 bufsize scale)
  then have "unat scale < 14" by (simp add: word_less_nat_alt)
  then have "unat (scale + 1) = unat scale + 1" by (simp add: unat_word_ariths)
  then show ?case using \<open>unat scale < 14\<close> by simp
qed simp

declare choose_rcv_wscale_loop.simps [simp del]

definition tcp_choose_rcv_wscale :: "u32 \<Rightarrow> u8" where
  "tcp_choose_rcv_wscale bufsize = choose_rcv_wscale_loop bufsize 0"

definition tcp_rcv_wnd :: "tcp_stream \<Rightarrow> u32" where
  "tcp_rcv_wnd tp = (if rcvbuf_used tp \<ge> rcvbuf_size tp then 0 else rcvbuf_size tp - rcvbuf_used tp)"

definition tcp_wire_rcv_wnd :: "tcp_stream \<Rightarrow> u8 \<Rightarrow> u16" where
  "tcp_wire_rcv_wnd tp flags =
     (let wnd = tcp_rcv_wnd tp;
          scale = (if flags AND RTE_TCP_SYN_FLAG = 0 \<and> wscale_ok tp then rcv_wscale tp else 0);
          wnd = drop_bit (unat scale) wnd
      in if wnd > 65535 then 65535 else ucast wnd)"

definition tcp_seq_leq :: "u32 \<Rightarrow> u32 \<Rightarrow> bool" where
  "tcp_seq_leq a b \<longleftrightarrow> sint (a - b) \<le> 0"

definition tcp_seq_gt :: "u32 \<Rightarrow> u32 \<Rightarrow> bool" where
  "tcp_seq_gt a b \<longleftrightarrow> sint (a - b) > 0"

subsection \<open>Status and socket queues\<close>

definition nsock_tcp_conn_unregister :: "'p tcp_world \<Rightarrow> 'p tcp_world" where
  "nsock_tcp_conn_unregister w = w\<lparr>sk_registered := False\<rparr>"

definition tcp_stream_set_status :: "'p tcp_world \<Rightarrow> TCP_STATUS \<Rightarrow> 'p tcp_world" where
  "tcp_stream_set_status w new_status =
     (let old = status (w_tp w); memory = w_mem w;
          memory = (if old \<noteq> new_status then
             (let memory = (if old = TCP_STATUS_TIME_WAIT
                then memory\<lparr>mem_time_wait := resource_release (mem_time_wait memory) 1\<rparr> else memory)
              in if new_status = TCP_STATUS_TIME_WAIT
                 then memory\<lparr>mem_time_wait := resource_acquire (mem_time_wait memory) 1\<rparr> else memory)
             else memory);
          w = w\<lparr>w_mem := memory\<rparr>;
          w = (if old \<noteq> TCP_STATUS_CLOSED \<and> new_status = TCP_STATUS_CLOSED
               then nsock_tcp_conn_unregister w else w)
      in upd_tp (\<lambda>tp. tp\<lparr>status := new_status\<rparr>) w)"

definition nsock_tcp_rx_enqueue :: "tcp_stream \<Rightarrow> tcp_rx_blob \<Rightarrow> tcp_stream option" where
  "nsock_tcp_rx_enqueue tp blob =
     (if length (rx_queue tp) \<ge> RING_SIZE then None else Some (tp\<lparr>rx_queue := rx_queue tp @ [blob]\<rparr>))"

definition nsock_tcp_rx_dequeue :: "tcp_stream \<Rightarrow> (tcp_rx_blob \<times> tcp_stream) option" where
  "nsock_tcp_rx_dequeue tp =
     (case rx_queue tp of [] \<Rightarrow> None | b # bs \<Rightarrow> Some (b, tp\<lparr>rx_queue := bs\<rparr>))"

definition nsock_tcp_rx_count :: "tcp_stream \<Rightarrow> nat" where
  "nsock_tcp_rx_count tp = length (rx_queue tp)"

definition nsock_tcp_tx_enqueue :: "tcp_stream \<Rightarrow> tcp_fragment \<Rightarrow> tcp_stream option" where
  "nsock_tcp_tx_enqueue tp f =
     (if length (tx_queue tp) \<ge> RING_SIZE then None else Some (tp\<lparr>tx_queue := tx_queue tp @ [f]\<rparr>))"

definition nsock_tcp_tx_dequeue :: "tcp_stream \<Rightarrow> (tcp_fragment \<times> tcp_stream) option" where
  "nsock_tcp_tx_dequeue tp =
     (case tx_queue tp of [] \<Rightarrow> None | f # fs \<Rightarrow> Some (f, tp\<lparr>tx_queue := fs\<rparr>))"

definition nsock_tcp_tx_requeue_head :: "tcp_stream \<Rightarrow> tcp_fragment \<Rightarrow> tcp_stream option" where
  "nsock_tcp_tx_requeue_head tp f =
     (if length (tx_queue tp) \<ge> RING_SIZE then None else Some (tp\<lparr>tx_queue := f # tx_queue tp\<rparr>))"

subsection \<open>Control segments\<close>

definition tcp_memory_fragment_alloc where
  "tcp_memory_fragment_alloc mp memory = tcp_memory_get mp memory TCP_MEMORY_FRAGMENT"

definition tcp_memory_fragment_free where
  "tcp_memory_fragment_free mp memory = tcp_memory_put mp memory TCP_MEMORY_FRAGMENT"

definition tcp_fragment_zero :: tcp_fragment where
  "tcp_fragment_zero =
     \<lparr>frag_src_port = 0, frag_dst_port = 0, frag_sent_seq = 0, frag_recv_ack = 0, frag_data_off = 0,
      frag_tcp_flags = 0, frag_rx_win = 0, frag_tcp_urp = 0, frag_opt_len = 0,
      frag_options = replicate 40 0, frag_payload = []\<rparr>"

definition tcp_fragment_alloc :: "'p tcp_env \<Rightarrow> 'p tcp_world \<Rightarrow> tcp_fragment option \<times> 'p tcp_world" where
  "tcp_fragment_alloc env w =
     (case tcp_memory_fragment_alloc (env_mp env) (w_mem w) of (ok, memory) \<Rightarrow>
        (if ok then Some tcp_fragment_zero else None, w\<lparr>w_mem := memory\<rparr>))"

text \<open>Control fragments carry no payload of their own.\<close>

definition tcp_fragment_free :: "'p tcp_env \<Rightarrow> 'p tcp_world \<Rightarrow> 'p tcp_world" where
  "tcp_fragment_free env w = w\<lparr>w_mem := tcp_memory_fragment_free (env_mp env) (w_mem w)\<rparr>"

definition tcp_enqueue_fragment ::
  "'p tcp_env \<Rightarrow> 'p tcp_world \<Rightarrow> tcp_fragment option \<Rightarrow> bool \<times> 'p tcp_world" where
  "tcp_enqueue_fragment env w f =
     (case f of None \<Rightarrow> (False, w)
      | Some f \<Rightarrow> (case nsock_tcp_tx_enqueue (w_tp w) f of
          None \<Rightarrow> (False, tcp_fragment_free env w)
        | Some tp \<Rightarrow> (True, tcp_mark_tx_dirty (w\<lparr>w_tp := tp\<rparr>))))"

text \<open>
  The result of the option encoder is ignored; it always fits (lemma \<open>apply_established_fits\<close>), so
  the other branch is never taken.
\<close>

definition tcp_make_fragment ::
  "'p tcp_env \<Rightarrow> 'p tcp_world \<Rightarrow> u8 \<Rightarrow> u32 \<Rightarrow> u32 \<Rightarrow> tcp_fragment option \<times> 'p tcp_world" where
  "tcp_make_fragment env w flags seq ack =
     (case tcp_fragment_alloc env w of
        (None, w) \<Rightarrow> (None, w)
      | (Some f, w) \<Rightarrow>
         let f = f\<lparr>frag_src_port := sk_local_port w, frag_dst_port := remote_port (w_tp w),
                   frag_sent_seq := seq, frag_recv_ack := ack, frag_tcp_flags := flags,
                   frag_data_off := 80, frag_rx_win := tcp_wire_rcv_wnd (w_tp w) flags\<rparr>
         in if flags AND RTE_TCP_SYN_FLAG = 0 then
              (case tcp_options_apply_established (w_tp w) f (env_ms env) of
                 (Some f, tp) \<Rightarrow> (Some f, w\<lparr>w_tp := tp\<rparr>)
               | (None, tp) \<Rightarrow> (Some f, w\<lparr>w_tp := tp\<rparr>))
            else (Some f, w))"

subsection \<open>Teardown\<close>

definition tcp_memory_rx_blob_alloc where
  "tcp_memory_rx_blob_alloc mp memory = tcp_memory_get mp memory TCP_MEMORY_RX_BLOB"

definition tcp_memory_rx_blob_free where
  "tcp_memory_rx_blob_free mp memory = tcp_memory_put mp memory TCP_MEMORY_RX_BLOB"

definition tcp_sack_score_clear :: "tcp_stream \<Rightarrow> tcp_stream" where
  "tcp_sack_score_clear tp = tcp_sack_state_reset tp (snd_una tp)"

fun drain_fragments :: "'p tcp_env \<Rightarrow> 'p tcp_world \<Rightarrow> tcp_fragment list \<Rightarrow> 'p tcp_world" where
  "drain_fragments env w [] = w"
| "drain_fragments env w (f # fs) = drain_fragments env (tcp_fragment_free env (upd_tp (\<lambda>tp. tp\<lparr>tx_queue := fs\<rparr>) w)) fs"

definition tcp_drain_send :: "'p tcp_env \<Rightarrow> 'p tcp_world \<Rightarrow> 'p tcp_world" where
  "tcp_drain_send env w =
     (let w = drain_fragments env w (tx_queue (w_tp w));
          tp = (w_tp w)\<lparr>ack_pending := False\<rparr>;
          (sb, memory) = tcp_sndbuf_reset (env_mp env) (w_mem w) (sndbuf tp) (sent_seq tp);
          tp = tp\<lparr>sndbuf := sb, snd_una := sent_seq tp\<rparr>
      in w\<lparr>w_tp := tcp_sack_score_clear tp, w_mem := memory\<rparr>)"

definition tcp_rx_blob_release :: "'p tcp_env \<Rightarrow> 'p tcp_world \<Rightarrow> 'p tcp_world" where
  "tcp_rx_blob_release env w =
     w\<lparr>w_mem := tcp_memory_rx_blob_free (env_mp env) (tcp_payload_release (env_mp env) (w_mem w))\<rparr>"

fun drain_blobs :: "'p tcp_env \<Rightarrow> 'p tcp_world \<Rightarrow> tcp_rx_blob list \<Rightarrow> 'p tcp_world" where
  "drain_blobs env w [] = w"
| "drain_blobs env w (b # bs) = drain_blobs env (tcp_rx_blob_release env (upd_tp (\<lambda>tp. tp\<lparr>rx_queue := bs\<rparr>) w)) bs"

definition tcp_drain_recv :: "'p tcp_env \<Rightarrow> 'p tcp_world \<Rightarrow> 'p tcp_world" where
  "tcp_drain_recv env w =
     (let w = drain_blobs env w (rx_queue (w_tp w));
          w = (case rx_current (w_tp w) of None \<Rightarrow> w
               | Some b \<Rightarrow> upd_tp (\<lambda>tp. tp\<lparr>rx_current := None\<rparr>) (tcp_rx_blob_release env w));
          w = tcp_ofo_purge (env_mp env) w
      in upd_tp (\<lambda>tp. tp\<lparr>rcvbuf_used := 0\<rparr>) w)"

text \<open>
  Freeing a socket retires its slot, unlinks it from the transmit scheduler and every index,
  detaches it from its listener, stops its timer and releases its buffers.
\<close>

definition nsock_free :: "'p tcp_env \<Rightarrow> 'p tcp_world \<Rightarrow> 'p tcp_world" where
  "nsock_free env w =
     (let w = (if status (w_tp w) = TCP_STATUS_TIME_WAIT then tcp_stream_set_status w TCP_STATUS_CLOSED else w);
          w = sock_timer_cancel (w\<lparr>sk_attached := False\<rparr>);
          tp = tcp_sack_state_reset (w_tp w) (snd_una (w_tp w));
          (sb, memory) = tcp_sndbuf_free (env_mp env) (w_mem w) (sndbuf tp)
      in log_fx Fx_free (w\<lparr>w_tp := tp\<lparr>sndbuf := sb\<rparr>, w_mem := memory, sk_registered := False, sk_freed := True\<rparr>))"

definition tcp_try_send_abort_reset :: "'p tcp_world \<Rightarrow> 'p tcp_world" where
  "tcp_try_send_abort_reset w =
     log_fx (Fx_abort_reset (tcp_fragment_zero\<lparr>frag_src_port := sk_local_port w,
       frag_dst_port := remote_port (w_tp w), frag_sent_seq := sent_seq (w_tp w),
       frag_recv_ack := recv_ack (w_tp w), frag_data_off := 80,
       frag_tcp_flags := RTE_TCP_RST_FLAG OR RTE_TCP_ACK_FLAG\<rparr>)) w"

definition parent_unpend :: "'p tcp_world \<Rightarrow> 'p tcp_world" where
  "parent_unpend w =
     (if sk_attached w \<and> par_syn_pending (sk_parent w) > 0
      then w\<lparr>sk_parent := (sk_parent w)\<lparr>par_syn_pending := par_syn_pending (sk_parent w) - 1\<rparr>\<rparr> else w)"

definition tcp_abort_stream :: "'p tcp_env \<Rightarrow> 'p tcp_world \<Rightarrow> errno \<Rightarrow> bool \<Rightarrow> 'p tcp_world" where
  "tcp_abort_stream env w error send_reset =
     (let old = status (w_tp w);
          w = sock_timer_cancel w;
          w = upd_tp (\<lambda>tp. tp\<lparr>close_deadline_cycles := 0\<rparr>) w;
          w = (if send_reset \<and> old \<noteq> TCP_STATUS_CLOSED \<and> old \<noteq> TCP_STATUS_LISTEN \<and>
                  old \<noteq> TCP_STATUS_SYN_SENT \<and> old \<noteq> TCP_STATUS_TIME_WAIT
               then tcp_try_send_abort_reset w else w);
          w = (if old = TCP_STATUS_SYN_RECV then parent_unpend w else w);
          w = tcp_stream_set_status w TCP_STATUS_CLOSED;
          w = tcp_drain_send env w;
          w = tcp_drain_recv env w;
          w = w\<lparr>sk_terminal_error := Some error\<rparr>;
          w = log_fx (Fx_abort_waiters error) w;
          w = log_fx (Fx_ready (OWNER_IO_EV_ERROR OR OWNER_IO_EV_HUP)) w
      in if sk_app_closed w \<or> old = TCP_STATUS_SYN_RECV then nsock_free env w else w)"

definition tcp_enter_time_wait :: "'p tcp_env \<Rightarrow> 'p tcp_world \<Rightarrow> bool \<times> 'p tcp_world" where
  "tcp_enter_time_wait env w =
     (let w = tcp_stream_set_status w TCP_STATUS_TIME_WAIT;
          w = upd_tp (\<lambda>tp. tp\<lparr>retries := 0, close_deadline_cycles := 0\<rparr>) w
      in case owner_timer_arm_after_ms env w TCP_2MSL_MS of
           (False, w) \<Rightarrow> (False, tcp_abort_stream env w ENOBUFS False)
         | (True, w) \<Rightarrow> (True, w))"

subsection \<open>A sample state\<close>

text \<open>A concrete owner and connection: counting pools, a 64 KiB receive buffer.\<close>

definition sample_env :: "u32 tcp_env" where
  "sample_env = \<lparr>env_mp = counting_pool, env_now = 0, env_hz = 1000, env_timer_ok = True, env_range_pool = \<lambda>_. True\<rparr>"

definition sample_world :: "tcp_stream \<Rightarrow> u32 tcp_world" where
  "sample_world tp =
     \<lparr>w_tp = tp, w_st = tcp_ofo_metrics_reset_owner,
      w_mem = tcp_owner_memory_zero\<lparr>mem_pools := \<lambda>_. Some 100, mem_capacity := \<lambda>_. 100\<rparr>,
      sk_id = 0, sk_local_ip = 0, sk_local_port = 0, sk_nodelay = False, sk_app_visible = True, sk_app_closed = False,
      sk_terminal_error = None, sk_timer = None, sk_attached = False,
      sk_parent = \<lparr>par_syn_pending = 0, par_accept_queue = None, par_accept_room = 0\<rparr>,
      sk_registered = True, sk_freed = False, sk_log = []\<rparr>"

end
