(* ===== verification/Tcp_Ack.thy ===== *)
theory Tcp_Ack
  imports Tcp_World
begin

text \<open>
  The sender's reaction to the peer (\<^verbatim>\<open>src/pro-stack/tcp.c\<close>): window advertisements
  (\<^verbatim>\<open>tcp_update_snd_wnd\<close>), acknowledgements with SACK, loss recovery, round-trip samples and
  congestion control (\<^verbatim>\<open>tcp_process_peer_ack_ex\<close>), and the connection timer (\<^verbatim>\<open>tcp_timer_cb\<close>).
  Long functions are cut at their comments into named stages that are composed in the
  source's order.
\<close>

definition TCP_SYN_MAX_RETRIES :: u8 where [simp]: "TCP_SYN_MAX_RETRIES = 5"
definition TCP_DATA_MAX_RETRIES :: u8 where [simp]: "TCP_DATA_MAX_RETRIES = 5"

definition tcp_sack_payload_flight_end :: "tcp_stream \<Rightarrow> u32" where
  "tcp_sack_payload_flight_end tp =
     (let buffer_end = sb_head_seq (sndbuf tp) + sb_len (sndbuf tp)
      in if tcp_seq_lt (sent_seq tp) buffer_end then sent_seq tp else buffer_end)"

subsection \<open>The peer's window\<close>

text \<open>Whether the advertisement was accepted, whether unsent payload may now go out, and the new stream.\<close>

definition tcp_update_snd_wnd_local :: "tcp_stream \<Rightarrow> u32 \<Rightarrow> u32 \<Rightarrow> u16 \<Rightarrow> u8 \<Rightarrow> bool \<times> bool \<times> tcp_stream" where
  "tcp_update_snd_wnd_local tp seg_sq seg_ack seg_wnd scale =
     (let scaled_wnd = push_bit (unat scale) (ucast seg_wnd) in
      if \<not> snd_wnd_valid tp \<or> tcp_seq_lt (snd_wl1 tp) seg_sq \<or> (snd_wl1 tp = seg_sq \<and> tcp_seq_leq (snd_wl2 tp) seg_ack)
      then let tp = tp\<lparr>snd_wnd := scaled_wnd, snd_wl1 := seg_sq, snd_wl2 := seg_ack, snd_wnd_valid := True\<rparr>;
               need_tx = (sb_len (sndbuf tp) > 0 \<and> tcp_seq_lt (sent_seq tp) (sb_head_seq (sndbuf tp) + sb_len (sndbuf tp)))
           in (True, need_tx, tp)
      else (False, False, tp))"

definition tcp_update_snd_wnd :: "'p tcp_world \<Rightarrow> u32 \<Rightarrow> u32 \<Rightarrow> u16 \<Rightarrow> u8 \<Rightarrow> 'p tcp_world" where
  "tcp_update_snd_wnd w seg_sq seg_ack seg_wnd scale =
     (case tcp_update_snd_wnd_local (w_tp w) seg_sq seg_ack seg_wnd scale of
        (accepted, need_tx, tp) \<Rightarrow>
          let w = w\<lparr>w_tp := tp\<rparr> in
          if \<not> accepted then w
          else let w = log_fx (Fx_ready OWNER_IO_EV_WRITE) (log_fx Fx_wake_send w)
               in if need_tx then tcp_mark_tx_dirty w else w)"

subsection \<open>Acknowledgements\<close>

text \<open>What the stages of one acknowledgement hand on.\<close>

record ack_ctx =
  ax_flight_end :: u32
  ax_flight_size :: u32
  ax_acked :: u32
  ax_progressed :: bool
  ax_old_mode :: tcp_recovery_mode
  ax_raw_rtt :: "u32 option"

definition ack_advance :: "'p tcp_env \<Rightarrow> 'p tcp_world \<Rightarrow> u32 \<Rightarrow> ack_ctx \<times> 'p tcp_world" where
  "ack_advance env w ack =
     (let tp = w_tp w;
          flight_end = tcp_sack_payload_flight_end tp;
          cx = \<lparr>ax_flight_end = flight_end, ax_flight_size = flight_end - snd_una tp, ax_acked = 0,
                ax_progressed = (ack \<noteq> snd_una tp), ax_old_mode = mode (sack tp), ax_raw_rtt = None\<rparr>
      in if ack = snd_una tp then (cx, w)
         else let acked = ack - snd_una tp;
                  acked = (if acked > sb_len (sndbuf tp) then sb_len (sndbuf tp) else acked);
                  (sb, memory) = tcp_sndbuf_remove (env_mp env) (w_mem w) (sndbuf tp) acked;
                  tp = tp\<lparr>sndbuf := sb, snd_una := ack\<rparr>;
                  raw = tcp_rtt_sample_ack tp (rx_timestamp_present tp) (rx_tsecr tp) (env_ms env);
                  (sampled, tp) = tcp_rtt_on_ack (env_ms env) tp ack (rx_timestamp_present tp) (rx_tsecr tp)
              in (cx\<lparr>ax_acked := acked, ax_raw_rtt := raw\<rparr>, w\<lparr>w_tp := tp, w_mem := memory\<rparr>))"

text \<open>Scoreboard, D-SACK, and the end or the next step of a NewReno recovery.\<close>

definition ack_sack :: "'p tcp_env \<Rightarrow> ack_ctx \<Rightarrow> tcp_stream \<Rightarrow> u32 \<Rightarrow> tcp_sack_ack_result \<times> bool \<times> bool \<times> tcp_stream" where
  "ack_sack env cx tp ack =
     (let (res, tp) = tcp_sack_update (env_range_pool env) tp ack (if sack_permitted tp then rx_sacks tp else []) (ax_flight_end cx);
          tp = (if dsack_valid res then tcp_cc_on_dsack tp (dsack res) (dsack_covers_retransmission res) else tp);
          (exited, partial, tp) =
            (if ax_old_mode cx = TCP_RECOVERY_NEWRENO \<and> ax_progressed cx then
               if \<not> tcp_seq_lt ack (recovery_point (sack tp)) then
                 (True, False, tcp_sack_cancel_candidate (tp\<lparr>sack := (sack tp)\<lparr>mode := TCP_RECOVERY_NORMAL, dup_acks := 0\<rparr>\<rparr>))
               else (recovery_exited res, True, snd (tcp_sack_schedule_newreno_partial tp (ax_flight_end cx)))
             else (recovery_exited res, False, tp));
          tp = (if ax_progressed cx then tp\<lparr>sack := (sack tp)\<lparr>dup_acks := 0\<rparr>\<rparr> else tp)
      in (res, exited, partial, tp))"

definition fast_loss :: "ack_ctx \<Rightarrow> tcp_cc_loss_reason \<Rightarrow> tcp_cc_loss_event" where
  "fast_loss cx reason =
     \<lparr>loss_reason = reason, loss_flight_size = ax_flight_size cx, loss_recovery_point = ax_flight_end cx,
      loss_first_rto_for_seq = False\<rparr>"

text \<open>Fast recovery by SACK information or by duplicate acknowledgements.\<close>

definition ack_detect_loss :: "ack_ctx \<Rightarrow> tcp_stream \<Rightarrow> bool \<Rightarrow> bool \<Rightarrow> bool \<times> tcp_stream" where
  "ack_detect_loss cx tp new_info classic_dup =
     (let flight_end = ax_flight_end cx in
      if sack_permitted tp \<and> new_info \<and> mode (sack tp) = TCP_RECOVERY_NORMAL then
        let tp = tp\<lparr>sack := (sack tp)\<lparr>dup_acks := dup_acks (sack tp) + 1\<rparr>\<rparr> in
        if dup_acks (sack tp) \<ge> ucast TCP_SACK_DUP_THRESH \<or> tcp_sack_is_lost tp (snd_una tp) then
          let tp = tcp_cc_on_loss tp (fast_loss cx TCP_CC_LOSS_SACK);
              tp = tcp_sack_enter_recovery tp TCP_RECOVERY_SACK flight_end
          in (True, snd (tcp_sack_set_pipe tp flight_end))
        else (False, snd (tcp_sack_set_pipe (tp\<lparr>sack := (sack tp)\<lparr>limited_transmit := True\<rparr>\<rparr>) flight_end))
      else if \<not> sack_permitted tp \<and> \<not> ax_progressed cx \<and> classic_dup \<and> tcp_seq_lt (snd_una tp) flight_end \<and>
              mode (sack tp) = TCP_RECOVERY_NORMAL then
        let tp = tp\<lparr>sack := (sack tp)\<lparr>dup_acks := dup_acks (sack tp) + 1\<rparr>\<rparr> in
        if dup_acks (sack tp) \<ge> ucast TCP_SACK_DUP_THRESH then
          (True, tcp_sack_enter_recovery (tcp_cc_on_loss tp (fast_loss cx TCP_CC_LOSS_DUPACK)) TCP_RECOVERY_NEWRENO flight_end)
        else (False, tp)
      else (False, tp))"

definition ack_schedule :: "ack_ctx \<Rightarrow> tcp_stream \<Rightarrow> bool \<Rightarrow> tcp_stream" where
  "ack_schedule cx tp new_info =
     (if mode (sack tp) = TCP_RECOVERY_SACK then snd (tcp_sack_set_pipe tp (ax_flight_end cx))
      else if mode (sack tp) = TCP_RECOVERY_RTO \<and> (ax_progressed cx \<or> new_info)
      then snd (tcp_sack_schedule_next tp (sb_head_seq (sndbuf tp) + sb_len (sndbuf tp)) False)
      else tp)"

definition ack_cc_event :: "'p tcp_env \<Rightarrow> ack_ctx \<Rightarrow> tcp_stream \<Rightarrow> u32 \<Rightarrow> tcp_sack_ack_result \<Rightarrow> bool \<Rightarrow> bool \<Rightarrow> bool \<Rightarrow> tcp_cc_ack_event" where
  "ack_cc_event env cx tp ack res classic_dup entered partial =
     \<lparr>ev_ack_seq = ack, ev_snd_nxt = ax_flight_end cx, ev_acked_bytes = ax_acked cx,
      ev_newly_sacked_bytes = newly_sacked_bytes res, ev_flight_size = ax_flight_size cx, ev_now_ms = env_ms env,
      ev_rtt_sample_ms = (case ax_raw_rtt cx of None \<Rightarrow> 0 | Some r \<Rightarrow> r),
      ev_rtt_sample_valid = (ax_raw_rtt cx \<noteq> None), ev_cwnd_limited = cwnd_limited (cc tp),
      ev_duplicate_ack = (\<not> ax_progressed cx \<and> (classic_dup \<or> new_sack_information res)),
      ev_entered_recovery = entered, ev_partial_ack = partial,
      ev_newreno_recovery = (ax_old_mode cx = TCP_RECOVERY_NEWRENO \<or> (entered \<and> mode (sack tp) = TCP_RECOVERY_NEWRENO)),
      ev_in_recovery = (ax_old_mode cx \<noteq> TCP_RECOVERY_NORMAL \<or> entered)\<rparr>"

text \<open>Stop or restart the retransmission timer.\<close>

definition ack_timer :: "'p tcp_env \<Rightarrow> ack_ctx \<Rightarrow> 'p tcp_world \<Rightarrow> bool \<times> 'p tcp_world" where
  "ack_timer env cx w =
     (if ax_progressed cx \<and> snd_una (w_tp w) = sent_seq (w_tp w) then
        let w = (if status (w_tp w) \<notin> {TCP_STATUS_TIME_WAIT, TCP_STATUS_SYN_SENT, TCP_STATUS_SYN_RECV}
                 then sock_timer_cancel w else w)
        in (True, upd_tp (\<lambda>tp. tcp_rtt_on_flight_acked (tp\<lparr>retries := 0\<rparr>)) w)
      else if ax_progressed cx then
        (case tcp_arm_data_rto env (upd_tp (\<lambda>tp. tp\<lparr>retries := 0\<rparr>) w) (ucast (rto_ms (w_tp w))) of
           (True, w) \<Rightarrow> (True, w)
         | (False, w) \<Rightarrow> (False, tcp_abort_stream env w ENOBUFS True))
      else (True, w))"

definition ack_notify :: "ack_ctx \<Rightarrow> 'p tcp_world \<Rightarrow> bool \<Rightarrow> bool \<Rightarrow> 'p tcp_world" where
  "ack_notify cx w window_accepted window_need_tx =
     (let tp = w_tp w;
          need_tx = (kind (pending (sack tp)) \<noteq> TCP_RECOVERY_TX_NONE \<or> mode (sack tp) = TCP_RECOVERY_SACK \<or> limited_transmit (sack tp));
          need_tx = (need_tx \<or> sb_len (sndbuf tp) > 0 \<and> tcp_seq_lt (sent_seq tp) (sb_head_seq (sndbuf tp) + sb_len (sndbuf tp)));
          w = (if ax_progressed cx \<or> window_accepted then log_fx (Fx_ready OWNER_IO_EV_WRITE) (log_fx Fx_wake_send w) else w)
      in if need_tx \<or> window_need_tx then tcp_mark_tx_dirty w else w)"

definition tcp_process_peer_ack_ex ::
  "'p tcp_env \<Rightarrow> 'p tcp_world \<Rightarrow> u32 \<Rightarrow> bool \<Rightarrow> bool \<Rightarrow> u32 \<Rightarrow> u16 \<Rightarrow> u8 \<Rightarrow> bool \<times> 'p tcp_world" where
  "tcp_process_peer_ack_ex env w ack classic_dup apply_window seg_sq seg_wnd scale =
     (if tcp_seq_lt ack (snd_una (w_tp w)) \<or> tcp_seq_gt ack (sent_seq (w_tp w)) then (True, w)
      else let (window_accepted, window_need_tx, tp) =
                 (if apply_window then tcp_update_snd_wnd_local (w_tp w) seg_sq ack seg_wnd scale else (False, False, w_tp w));
               (cx, w) = ack_advance env (w\<lparr>w_tp := tp\<rparr>) ack;
               (res, exited, partial, tp) = ack_sack env cx (w_tp w) ack;
               (entered, tp) = ack_detect_loss cx tp (new_sack_information res) classic_dup;
               tp = ack_schedule cx tp (new_sack_information res);
               tp = tcp_cc_on_ack tp (ack_cc_event env cx tp ack res classic_dup entered partial);
               tp = (if exited then tcp_cc_on_recovery_exit tp else tp)
           in case ack_timer env cx (w\<lparr>w_tp := tp\<rparr>) of
                (False, w) \<Rightarrow> (False, w)
              | (True, w) \<Rightarrow> (True, ack_notify cx w window_accepted window_need_tx))"

definition tcp_process_peer_ack :: "'p tcp_env \<Rightarrow> 'p tcp_world \<Rightarrow> u32 \<Rightarrow> bool \<times> 'p tcp_world" where
  "tcp_process_peer_ack env w ack = tcp_process_peer_ack_ex env w ack False False 0 0 0"

end
