(* ===== verification/Tcp_Timer.thy ===== *)
theory Tcp_Timer
  imports Tcp_Ack
begin

text \<open>
  The connection timer of \<^verbatim>\<open>src/pro-stack/tcp.c\<close> (\<^verbatim>\<open>tcp_timer_cb\<close>): one node multiplexed by the
  connection state between SYN and SYN+ACK retransmission, data and FIN retransmission, the end of
  TIME_WAIT and the close deadline.  The result is \<open>None\<close> where the code dereferences a null
  pointer.
\<close>

subsection \<open>Control segments with SYN options\<close>

definition apply_syn_options ::
  "'p tcp_env \<Rightarrow> 'p tcp_world \<Rightarrow> tcp_fragment \<Rightarrow> bool \<Rightarrow> bool \<Rightarrow> bool \<Rightarrow> u32 \<Rightarrow> tcp_fragment \<times> 'p tcp_world" where
  "apply_syn_options env w f wscale ts sackp tsecr =
     (case tcp_options_apply_syn (w_tp w) f wscale ts sackp tsecr (env_ms env) of
        (Some f, tp) \<Rightarrow> (f, w\<lparr>w_tp := tp\<rparr>)
      | (None, tp) \<Rightarrow> (f, w\<lparr>w_tp := tp\<rparr>))"

definition timer_arm_or_abort :: "'p tcp_env \<Rightarrow> bool \<times> 'p tcp_world \<Rightarrow> bool \<Rightarrow> 'p tcp_world" where
  "timer_arm_or_abort env r send_reset =
     (case r of (True, w) \<Rightarrow> w | (False, w) \<Rightarrow> tcp_abort_stream env w ENOBUFS send_reset)"

definition syn_backoff_ms :: "u8 \<Rightarrow> u64" where
  "syn_backoff_ms tries = push_bit (unat (tries - 1)) TCP_SYN_RTO_MS"

subsection \<open>The states\<close>

definition timer_syn_sent :: "'p tcp_env \<Rightarrow> 'p tcp_world \<Rightarrow> 'p tcp_world" where
  "timer_syn_sent env w =
     (if retries (w_tp w) < TCP_SYN_MAX_RETRIES then
        let w = upd_tp (\<lambda>tp. tp\<lparr>retries := retries tp + 1, syn_retransmitted := True\<rparr>) w;
            (f, w) = tcp_make_fragment env w RTE_TCP_SYN_FLAG (sent_seq (w_tp w)) 0;
            (f, w) = (case f of None \<Rightarrow> (None, w)
                      | Some f \<Rightarrow> let (f, w) = apply_syn_options env w f True True True 0 in (Some f, w));
            delay = syn_backoff_ms (retries (w_tp w));
            w = snd (tcp_enqueue_fragment env w f)
        in timer_arm_or_abort env (tcp_arm_syn_timer env w delay) False
      else
        let w = tcp_stream_set_status w TCP_STATUS_CLOSED;
            w = tcp_drain_send env w;
            w = w\<lparr>sk_terminal_error := Some ETIMEDOUT\<rparr>;
            w = log_fx (Fx_connect_done (Some ETIMEDOUT)) w;
            w = log_fx (Fx_ready OWNER_IO_EV_ERROR) w
        in if sk_app_closed w then nsock_free env (tcp_drain_recv env w) else w)"

definition timer_time_wait :: "'p tcp_env \<Rightarrow> 'p tcp_world \<Rightarrow> 'p tcp_world" where
  "timer_time_wait env w =
     (let w = tcp_stream_set_status w TCP_STATUS_CLOSED;
          w = tcp_drain_send env (tcp_drain_recv env w)
      in if \<not> sk_app_visible w \<or> sk_app_closed w then nsock_free env w else w)"

text \<open>Loss accounting of one retransmission timeout with payload in flight.\<close>

definition rto_loss :: "tcp_stream \<Rightarrow> tcp_stream" where
  "rto_loss tp =
     (let flight_end = tcp_sack_payload_flight_end tp;
          loss = \<lparr>loss_reason = TCP_CC_LOSS_RTO, loss_flight_size = flight_end - snd_una tp,
                  loss_recovery_point = flight_end,
                  loss_first_rto_for_seq = (\<not> rto_loss_valid (cc tp) \<or> rto_loss_seq (cc tp) \<noteq> snd_una tp)\<rparr>;
          tp = tp\<lparr>cc := (cc tp)\<lparr>rto_loss_valid := True, rto_loss_seq := snd_una tp\<rparr>\<rparr>
      in tcp_sack_on_rto (tcp_cc_on_rto tp loss) flight_end)"

definition timer_data :: "'p tcp_env \<Rightarrow> 'p tcp_world \<Rightarrow> 'p tcp_world" where
  "timer_data env w =
     (if snd_una (w_tp w) = sent_seq (w_tp w) then w
      else if retries (w_tp w) \<ge> TCP_DATA_MAX_RETRIES then tcp_abort_stream env w ETIMEDOUT True
      else let w = upd_tp (\<lambda>tp. rto_loss (tcp_rtt_on_timeout (tp\<lparr>retries := retries tp + 1\<rparr>))) w
           in case tcp_arm_data_rto env w (ucast (rto_ms (w_tp w))) of
                (False, w) \<Rightarrow> tcp_abort_stream env w ENOBUFS True
              | (True, w) \<Rightarrow> tcp_mark_tx_dirty w)"

text \<open>Here the code passes the fragment on without testing whether it was allocated.\<close>

definition timer_syn_recv :: "'p tcp_env \<Rightarrow> 'p tcp_world \<Rightarrow> 'p tcp_world option" where
  "timer_syn_recv env w =
     (if retries (w_tp w) < TCP_SYN_MAX_RETRIES then
        let w = upd_tp (\<lambda>tp. tp\<lparr>retries := retries tp + 1, syn_retransmitted := True\<rparr>) w;
            tp = w_tp w
        in case tcp_make_fragment env w (RTE_TCP_SYN_FLAG OR RTE_TCP_ACK_FLAG) (sent_seq tp) (recv_ack tp) of
             (None, w) \<Rightarrow> None
           | (Some f, w) \<Rightarrow>
               let (f, w) = apply_syn_options env w f (wscale_ok (w_tp w)) (timestamps_ok (w_tp w)) (sack_local_offered (w_tp w)) (ts_recent (w_tp w));
                   delay = syn_backoff_ms (retries (w_tp w));
                   w = snd (tcp_enqueue_fragment env w (Some f))
               in Some (timer_arm_or_abort env (tcp_arm_syn_timer env w delay) False)
      else Some (nsock_free env (tcp_drain_send env (tcp_drain_recv env (sock_timer_cancel (parent_unpend w))))))"

definition timer_fin :: "'p tcp_env \<Rightarrow> 'p tcp_world \<Rightarrow> 'p tcp_world" where
  "timer_fin env w =
     (if snd_una (w_tp w) = sent_seq (w_tp w) then w
      else if retries (w_tp w) \<ge> TCP_DATA_MAX_RETRIES then tcp_abort_stream env w ETIMEDOUT True
      else let w = upd_tp (\<lambda>tp. tcp_rtt_on_timeout (tp\<lparr>retries := retries tp + 1\<rparr>)) w;
               retransmit_data = (sb_len (sndbuf (w_tp w)) > 0);
               w = (if retransmit_data then upd_tp rto_loss w
                    else let (f, w) = tcp_make_fragment env w (RTE_TCP_FIN_FLAG OR RTE_TCP_ACK_FLAG) (snd_una (w_tp w)) (recv_ack (w_tp w))
                         in snd (tcp_enqueue_fragment env w f))
           in case tcp_arm_data_rto env w (ucast (rto_ms (w_tp w))) of
                (False, w) \<Rightarrow> tcp_abort_stream env w ENOBUFS True
              | (True, w) \<Rightarrow> if retransmit_data then tcp_mark_tx_dirty w else w)"

definition tcp_timer_cb :: "'p tcp_env \<Rightarrow> 'p tcp_world \<Rightarrow> 'p tcp_world option" where
  "tcp_timer_cb env w =
     (if close_deadline_cycles (w_tp w) \<noteq> 0 \<and> env_now env \<ge> close_deadline_cycles (w_tp w)
      then Some (tcp_abort_stream env w ETIMEDOUT True)
      else case status (w_tp w) of
             TCP_STATUS_SYN_SENT \<Rightarrow> Some (timer_syn_sent env w)
           | TCP_STATUS_TIME_WAIT \<Rightarrow> Some (timer_time_wait env w)
           | TCP_STATUS_ESTABLISHED \<Rightarrow> Some (timer_data env w)
           | TCP_STATUS_CLOSE_WAIT \<Rightarrow> Some (timer_data env w)
           | TCP_STATUS_SYN_RECV \<Rightarrow> timer_syn_recv env w
           | TCP_STATUS_FIN_WAIT_1 \<Rightarrow> Some (timer_fin env w)
           | TCP_STATUS_LAST_ACK \<Rightarrow> Some (timer_fin env w)
           | TCP_STATUS_CLOSING \<Rightarrow> Some (timer_fin env w)
           | _ \<Rightarrow> Some w)"

end
