(* ===== verification/Tcp_Receive.thy ===== *)
theory Tcp_Receive
  imports Tcp_World
begin

text \<open>
  The receive side of \<^verbatim>\<open>pro-stack/tcp.c\<close>: segment acceptance, duplicate and recency notes for SACK,
  delivery into the application queue, reassembly, the end-of-stream transition, and
  \<^verbatim>\<open>tcp_recv\<close>.
\<close>

subsection \<open>Acceptance\<close>

definition tcp_segment_acceptable :: "tcp_stream \<Rightarrow> u32 \<Rightarrow> u16 \<Rightarrow> bool \<Rightarrow> bool" where
  "tcp_segment_acceptable tp seq payload_len has_fin \<longleftrightarrow>
     (let rcv_nxt = recv_ack tp; rcv_wnd = tcp_rcv_wnd tp;
          seglen = ucast payload_len + (if has_fin then 1 else 0) :: u32;
          segend = seq + seglen in
      if rcv_wnd = 0 then seglen = 0 \<and> seq = rcv_nxt
      else if seglen = 0 then \<not> tcp_seq_lt seq rcv_nxt \<and> tcp_seq_lt seq (rcv_nxt + rcv_wnd)
      else tcp_seq_lt seq (rcv_nxt + rcv_wnd) \<and> tcp_seq_gt segend rcv_nxt)"

subsection \<open>Notes for the next SACK option\<close>

definition note_dsack :: "tcp_stream \<Rightarrow> u32 \<Rightarrow> u32 \<Rightarrow> tcp_stream" where
  "note_dsack tp left right =
     tp\<lparr>dsack_block := \<lparr>blk_left = left, blk_right = right\<rparr>, dsack_pending := True\<rparr>"

fun duplicate_in_ofo :: "tcp_stream \<Rightarrow> u32 \<Rightarrow> u32 \<Rightarrow> tcp_ofo_seg list \<Rightarrow> tcp_stream" where
  "duplicate_in_ofo tp seq end_seq [] = tp"
| "duplicate_in_ofo tp seq end_seq (seg # segs) =
     (if \<not> tcp_seq_lt (seg_seq seg) end_seq then tp
      else if \<not> tcp_seq_lt seq (seg_end seg) then duplicate_in_ofo tp seq end_seq segs
      else let left = (if tcp_seq_gt seq (seg_seq seg) then seq else seg_seq seg);
               right = (if tcp_seq_lt end_seq (seg_end seg) then end_seq else seg_end seg)
           in if tcp_seq_lt left right then note_dsack tp left right
              else duplicate_in_ofo tp seq end_seq segs)"

definition tcp_sack_note_duplicate :: "tcp_stream \<Rightarrow> u32 \<Rightarrow> u32 \<Rightarrow> tcp_stream" where
  "tcp_sack_note_duplicate tp seq len =
     (let end_seq = seq + len; tp = tp\<lparr>dsack_pending := False\<rparr> in
      if \<not> sack_permitted tp \<or> len = 0 then tp
      else let right = (if tcp_seq_lt end_seq (recv_ack tp) then end_seq else recv_ack tp)
           in if tcp_seq_lt seq (recv_ack tp) \<and> tcp_seq_lt seq right then note_dsack tp seq right
              else duplicate_in_ofo tp seq end_seq (ofo tp))"

fun recent_in_ofo :: "tcp_stream \<Rightarrow> u32 \<Rightarrow> u32 \<Rightarrow> tcp_ofo_seg list \<Rightarrow> tcp_stream" where
  "recent_in_ofo tp seq trigger_end [] = tp"
| "recent_in_ofo tp seq trigger_end (seg # segs) =
     (if seg_len seg = 0 \<or> \<not> tcp_seq_gt (seg_end seg) seq \<or> \<not> tcp_seq_gt trigger_end (seg_seq seg)
      then recent_in_ofo tp seq trigger_end segs
      else recent_in_ofo (tp\<lparr>sack_recent := \<lparr>
              blk_left = (if tcp_seq_gt (seg_seq seg) seq then seg_seq seg else seq),
              blk_right = (if tcp_seq_lt (seg_end seg) trigger_end then seg_end seg else trigger_end)\<rparr>,
            sack_recent_valid := True\<rparr>) seq trigger_end segs)"

definition tcp_sack_note_recent :: "tcp_stream \<Rightarrow> u32 \<Rightarrow> u32 \<Rightarrow> tcp_stream" where
  "tcp_sack_note_recent tp seq len =
     (let tp = tp\<lparr>sack_recent_valid := False\<rparr>
      in if len = 0 then tp else recent_in_ofo tp seq (seq + len) (ofo tp))"

subsection \<open>Delivery\<close>

definition tcp_deliver_payload ::
  "'p rte_mempool_ops \<Rightarrow> ('p, 'x) ofo_world_scheme \<Rightarrow> byte list \<Rightarrow> int \<times> ('p, 'x) ofo_world_scheme" where
  "tcp_deliver_payload mp w data =
     (if data = [] then (0, w)
      else if length data > unat TCP_MEMORY_CHUNK_SIZE then (- 1, w)
      else let (ok, memory) = tcp_memory_rx_blob_alloc mp (w_mem w) in
      if \<not> ok then (- 1, w\<lparr>w_mem := memory\<rparr>)
      else let (ok, memory) = tcp_memory_payload_alloc mp memory in
      if \<not> ok then (- 1, w\<lparr>w_mem := tcp_memory_rx_blob_free mp memory\<rparr>)
      else case nsock_tcp_rx_enqueue (w_tp w) \<lparr>blob_data = data, blob_off = 0\<rparr> of
             None \<Rightarrow> (- 1, w\<lparr>w_mem := tcp_memory_rx_blob_free mp (tcp_payload_release mp memory)\<rparr>)
           | Some tp \<Rightarrow> (0, w\<lparr>w_tp := tp, w_mem := memory\<rparr>))"

definition tcp_ofo_insert ::
  "'p tcp_env \<Rightarrow> 'p tcp_world \<Rightarrow> u32 \<Rightarrow> byte list \<Rightarrow> bool \<Rightarrow> int \<times> 'p tcp_world" where
  "tcp_ofo_insert env w seq data has_fin =
     (let len = of_nat (length data);
          w = upd_tp (\<lambda>tp. tcp_sack_note_duplicate tp seq len) w;
          (result, w) = tcp_ofo_queue_insert (env_mp env) w seq data has_fin
      in (result, upd_tp (\<lambda>tp. tcp_sack_note_recent tp seq len) w))"

definition tcp_note_peer_eof :: "('p, 'x) ofo_world_scheme \<Rightarrow> ('p, 'x) ofo_world_scheme" where
  "tcp_note_peer_eof w = w\<lparr>w_tp := (w_tp w)\<lparr>peer_eof := True\<rparr>\<rparr>"

definition tcp_apply_peer_eof :: "'p tcp_env \<Rightarrow> 'p tcp_world \<Rightarrow> bool \<times> 'p tcp_world" where
  "tcp_apply_peer_eof env w =
     (if \<not> peer_eof (w_tp w) then (True, w)
      else case status (w_tp w) of
             TCP_STATUS_ESTABLISHED \<Rightarrow> (True, tcp_stream_set_status w TCP_STATUS_CLOSE_WAIT)
           | TCP_STATUS_FIN_WAIT_1 \<Rightarrow> (True, tcp_stream_set_status w TCP_STATUS_CLOSING)
           | TCP_STATUS_FIN_WAIT_2 \<Rightarrow> tcp_enter_time_wait env w
           | _ \<Rightarrow> (True, w))"

subsection \<open>One payload range\<close>

definition drain_ofo :: "'p tcp_env \<Rightarrow> 'p tcp_world \<Rightarrow> 'p tcp_world" where
  "drain_ofo env w = tcp_ofo_drain (env_mp env) (Some (tcp_deliver_payload (env_mp env))) (Some tcp_note_peer_eof) w"

text \<open>Clipping to the right edge of the window, FIN included.\<close>

definition clip_right :: "u32 \<Rightarrow> u32 \<Rightarrow> byte list \<Rightarrow> bool \<Rightarrow> byte list \<times> bool" where
  "clip_right wnd_end seq data has_fin =
     (let data_end = seq + of_nat (length data) in
      if tcp_seq_gt data_end wnd_end then (take (unat (wnd_end - seq)) data, False)
      else if has_fin \<and> \<not> tcp_seq_lt data_end wnd_end then (data, False)
      else (data, has_fin))"

text \<open>The segment starts at the receive point.\<close>

definition receive_in_order :: "'p tcp_env \<Rightarrow> 'p tcp_world \<Rightarrow> u32 \<Rightarrow> byte list \<Rightarrow> bool \<Rightarrow> 'p tcp_world" where
  "receive_in_order env w seq data has_fin =
     (let (rc, w) = tcp_deliver_payload (env_mp env) w data in
      if rc \<noteq> 0 then snd (tcp_ofo_insert env w seq data has_fin)
      else let len = of_nat (length data);
               w = upd_tp (\<lambda>tp. tp\<lparr>recv_ack := recv_ack tp + len, rcvbuf_used := rcvbuf_used tp + len\<rparr>) w
           in if has_fin then
                tcp_ofo_purge (env_mp env)
                  (tcp_note_peer_eof (upd_tp (\<lambda>tp. tp\<lparr>recv_ack := recv_ack tp + 1\<rparr>) w))
              else drain_ofo env w)"

definition tcp_receive_stream_range ::
  "'p tcp_env \<Rightarrow> 'p tcp_world \<Rightarrow> u32 \<Rightarrow> byte list \<Rightarrow> bool \<Rightarrow> bool \<times> 'p tcp_world" where
  "tcp_receive_stream_range env w seq data has_fin =
     (let rcv_nxt = recv_ack (w_tp w);
          wnd_end = rcv_nxt + tcp_rcv_wnd (w_tp w);
          len = of_nat (length data);
          w = upd_tp (\<lambda>tp. tcp_sack_note_duplicate tp seq len) w;
          w = (if status (w_tp w) \<in> {TCP_STATUS_CLOSE_WAIT, TCP_STATUS_LAST_ACK, TCP_STATUS_CLOSING, TCP_STATUS_TIME_WAIT}
               then tcp_note_peer_eof w else w) in
      if peer_eof (w_tp w) then (True, w)
      else if \<not> tcp_segment_acceptable (w_tp w) seq (of_nat (length data)) has_fin then
        (True, if \<not> tcp_seq_lt seq rcv_nxt then tcp_ofo_record_rcv_window_drop w seq len has_fin else w)
      else let (data, has_fin) = clip_right wnd_end seq data has_fin;
               w = (if seq = rcv_nxt then receive_in_order env w seq data has_fin
                    else drain_ofo env (snd (tcp_ofo_insert env w seq data has_fin)))
           in tcp_apply_peer_eof env w)"

subsection \<open>The application reads\<close>

text \<open>An errno, or the bytes copied out; no bytes for a positive length is the end of the stream.\<close>

definition tcp_recv :: "'p tcp_env \<Rightarrow> 'p tcp_world \<Rightarrow> nat \<Rightarrow> (errno + byte list) \<times> 'p tcp_world" where
  "tcp_recv env w len =
     (if len = 0 then (Inr [], w)
      else case sk_terminal_error w of Some e \<Rightarrow> (Inl e, w)
      | None \<Rightarrow>
        (case (case rx_current (w_tp w) of
                 Some b \<Rightarrow> Some (b, w_tp w)
               | None \<Rightarrow> nsock_tcp_rx_dequeue (w_tp w)) of
           None \<Rightarrow> (if peer_eof (w_tp w) \<or> status (w_tp w) = TCP_STATUS_CLOSED then Inr [] else Inl EAGAIN, w)
         | Some (b, tp) \<Rightarrow>
           let avail = length (blob_data b) - blob_off b;
               n = min len avail;
               out = take n (drop (blob_off b) (blob_data b));
               b = b\<lparr>blob_off := blob_off b + n\<rparr>;
               tp = tp\<lparr>rx_current := Some b\<rparr>;
               tp = tp\<lparr>rcvbuf_used := (if of_nat n > rcvbuf_used tp then 0 else rcvbuf_used tp - of_nat n)\<rparr>;
               w = drain_ofo env (w\<lparr>w_tp := tp\<rparr>);
               (alive, w) = tcp_apply_peer_eof env w in
           if \<not> alive then (Inr out, w)
           else let w = tcp_mark_tx_dirty (upd_tp (\<lambda>tp. tp\<lparr>ack_pending := True\<rparr>) w) in
                if blob_off b < length (blob_data b) then (Inr out, w)
                else (Inr out, upd_tp (\<lambda>tp. tp\<lparr>rx_current := None\<rparr>) (tcp_rx_blob_release env w))))"

end
