(* ===== verification/Tcp_Input.thy ===== *)
theory Tcp_Input
  imports Tcp_Ack Tcp_Timer Tcp_Receive
begin

text \<open>
  Inbound segments (\<^verbatim>\<open>src/pro-stack/tcp.c\<close>): one handler per connection state, the listener's
  passive open, reset validation and generation, and the dispatch of \<^verbatim>\<open>tcp_ingress\<close>.  A segment is
  a \<open>tcp_seg\<close>: the fields of a header whose lengths and checksum were validated, and its payload.
\<close>

record tcp_seg =
  in_src_ip :: u32
  in_dst_ip :: u32
  in_src_port :: u16
  in_dst_port :: u16
  in_seq :: u32
  in_ack :: u32
  in_data_off :: u8
  in_flags :: u8
  in_win :: u16
  in_options :: "byte list"
  in_payload :: "byte list"

definition has_flag :: "tcp_seg \<Rightarrow> u8 \<Rightarrow> bool" where
  "has_flag s flag \<longleftrightarrow> in_flags s AND flag \<noteq> 0"

definition TCP_FIN_WAIT_2_TIMEOUT_MS :: u64 where [simp]: "TCP_FIN_WAIT_2_TIMEOUT_MS = 60000"

subsection \<open>Stream data\<close>

definition tcp_receive_stream_segment :: "'p tcp_env \<Rightarrow> 'p tcp_world \<Rightarrow> tcp_seg \<Rightarrow> bool \<times> 'p tcp_world" where
  "tcp_receive_stream_segment env w s =
     (let has_fin = has_flag s RTE_TCP_FIN_FLAG; old_recv_ack = recv_ack (w_tp w) in
      if in_payload s = [] \<and> \<not> has_fin then (True, w)
      else if has_flag s RTE_TCP_SYN_FLAG then (True, w)
      else case tcp_receive_stream_range env w (in_seq s) (in_payload s) has_fin of
        (False, w) \<Rightarrow> (False, w)
      | (True, w) \<Rightarrow>
         let w = (if recv_ack (w_tp w) \<noteq> old_recv_ack
                  then upd_tp (\<lambda>tp. tcp_options_note_receive_progress tp (env_ms env)) w else w);
             tp = w_tp w;
             w = (if \<not> has_fin \<and> in_seq s = old_recv_ack \<and> recv_ack tp \<noteq> old_recv_ack \<and> ofo tp = [] \<and>
                     \<not> dsack_pending tp \<and> \<not> peer_eof tp
                  then tcp_mark_tx_dirty (upd_tp (\<lambda>tp. tp\<lparr>ack_pending := True\<rparr>) w)
                  else let (f, w) = tcp_make_fragment env w RTE_TCP_ACK_FLAG (sent_seq tp) (recv_ack tp)
                       in snd (tcp_enqueue_fragment env w f));
             w = (if nsock_tcp_rx_count (w_tp w) \<noteq> 0 \<or> peer_eof (w_tp w)
                  then log_fx (Fx_ready (if peer_eof (w_tp w) then OWNER_IO_EV_READ OR OWNER_IO_EV_HUP else OWNER_IO_EV_READ))
                         (log_fx Fx_wake_recv w)
                  else w)
         in (True, w))"

subsection \<open>Handshake\<close>

text \<open>After the peer acknowledged our SYN.\<close>

definition handshake_sndbuf :: "'p tcp_env \<Rightarrow> 'p tcp_world \<Rightarrow> 'p tcp_world" where
  "handshake_sndbuf env w =
     (let tp = w_tp w;
          tp = tp\<lparr>sent_seq := sent_seq tp + 1\<rparr>;
          tp = tp\<lparr>snd_una := sent_seq tp\<rparr>;
          (sb, memory) = tcp_sndbuf_reset (env_mp env) (w_mem w) (sndbuf tp) (sent_seq tp)
      in w\<lparr>w_tp := tcp_sack_state_reset (tp\<lparr>sndbuf := sb\<rparr>) (sent_seq tp), w_mem := memory\<rparr>)"

definition tcp_state_syn_sent :: "'p tcp_env \<Rightarrow> 'p tcp_world \<Rightarrow> tcp_seg \<Rightarrow> 'p tcp_world" where
  "tcp_state_syn_sent env w s =
     (if status (w_tp w) \<noteq> TCP_STATUS_SYN_SENT then w
      else if \<not> has_flag s RTE_TCP_SYN_FLAG \<or> \<not> has_flag s RTE_TCP_ACK_FLAG then w
      else if in_ack s \<noteq> sent_seq (w_tp w) + 1 then w
      else let w = upd_tp (\<lambda>tp. tp\<lparr>recv_ack := in_seq s + 1\<rparr>) w;
               w = sock_timer_cancel (handshake_sndbuf env w);
               w = tcp_update_snd_wnd w (in_seq s) (in_ack s) (in_win s) 0;
               w = upd_tp (\<lambda>tp. tcp_cc_init_default (tcp_rtt_reset tp) (syn_retransmitted tp)) w;
               w = tcp_stream_set_status w TCP_STATUS_ESTABLISHED;
               w = tcp_mark_tx_dirty (upd_tp (\<lambda>tp. tp\<lparr>ack_pending := True\<rparr>) w)
           in log_fx (Fx_ready OWNER_IO_EV_CONNECTED) (log_fx (Fx_connect_done None) w))"

definition tcp_send_reset_for_stream :: "'p tcp_world \<Rightarrow> 'p tcp_world" where
  "tcp_send_reset_for_stream w =
     log_fx (Fx_reset_stream (tcp_fragment_zero\<lparr>frag_src_port := sk_local_port w, frag_dst_port := remote_port (w_tp w),
       frag_sent_seq := sent_seq (w_tp w), frag_recv_ack := recv_ack (w_tp w), frag_data_off := 80,
       frag_tcp_flags := RTE_TCP_RST_FLAG OR RTE_TCP_ACK_FLAG\<rparr>)) w"

text \<open>Move the child to the accept queue of its listener.\<close>

definition syn_recv_publish :: "'p tcp_env \<Rightarrow> 'p tcp_world \<Rightarrow> 'p tcp_world" where
  "syn_recv_publish env w =
     (if \<not> sk_attached w then w
      else case par_accept_queue (sk_parent w) of None \<Rightarrow> w
      | Some q \<Rightarrow>
         let w = parent_unpend w in
         if length q < par_accept_room (sk_parent w) then
           log_fx (Fx_ready_listener (OWNER_IO_EV_ACCEPT OR OWNER_IO_EV_READ))
             (log_fx Fx_wake_accept (w\<lparr>sk_parent := (sk_parent w)\<lparr>par_accept_queue := Some (q @ [sk_id w])\<rparr>\<rparr>))
         else nsock_free env (tcp_drain_recv env (tcp_drain_send env (tcp_send_reset_for_stream w))))"

definition tcp_state_syn_recv :: "'p tcp_env \<Rightarrow> 'p tcp_world \<Rightarrow> tcp_seg \<Rightarrow> 'p tcp_world" where
  "tcp_state_syn_recv env w s =
     (if status (w_tp w) \<noteq> TCP_STATUS_SYN_RECV then w
      else if has_flag s RTE_TCP_SYN_FLAG \<and> \<not> has_flag s RTE_TCP_ACK_FLAG then
        let (f, w) = tcp_make_fragment env w (RTE_TCP_SYN_FLAG OR RTE_TCP_ACK_FLAG) (sent_seq (w_tp w)) (recv_ack (w_tp w));
            (f, w) = (case f of None \<Rightarrow> (None, w)
              | Some f \<Rightarrow> let (f, w) = apply_syn_options env w f (wscale_ok (w_tp w)) (timestamps_ok (w_tp w)) (sack_local_offered (w_tp w)) (ts_recent (w_tp w))
                          in (Some f, w));
            w = snd (tcp_enqueue_fragment env w f);
            w = upd_tp (\<lambda>tp. tp\<lparr>retries := 0\<rparr>) w
        in timer_arm_or_abort env (tcp_arm_syn_timer env w TCP_SYN_RTO_MS) False
      else if \<not> has_flag s RTE_TCP_ACK_FLAG then w
      else if in_ack s \<noteq> sent_seq (w_tp w) + 1 then w
      else let w = sock_timer_cancel (handshake_sndbuf env w);
               w = upd_tp (\<lambda>tp. tp\<lparr>retries := 0\<rparr>) w;
               w = tcp_update_snd_wnd w (in_seq s) (in_ack s) (in_win s) (if wscale_ok (w_tp w) then snd_wscale (w_tp w) else 0);
               w = upd_tp (\<lambda>tp. tcp_cc_init_default (tcp_rtt_reset tp) (syn_retransmitted tp)) w;
               w = tcp_stream_set_status w TCP_STATUS_ESTABLISHED
           in syn_recv_publish env w)"

subsection \<open>Synchronised states\<close>

definition tcp_state_established :: "'p tcp_env \<Rightarrow> 'p tcp_world \<Rightarrow> tcp_seg \<Rightarrow> 'p tcp_world" where
  "tcp_state_established env w s =
     (let (alive, w) =
        (if has_flag s RTE_TCP_ACK_FLAG then
           let scale = (if wscale_ok (w_tp w) then snd_wscale (w_tp w) else 0);
               advertised = push_bit (unat scale) (ucast (in_win s)) :: u32;
               classic_dup = (in_payload s = [] \<and> \<not> has_flag s RTE_TCP_FIN_FLAG \<and> \<not> has_flag s RTE_TCP_SYN_FLAG \<and>
                              snd_wnd_valid (w_tp w) \<and> advertised = snd_wnd (w_tp w))
           in tcp_process_peer_ack_ex env w (in_ack s) classic_dup True (in_seq s) (in_win s) scale
         else (True, w))
      in if alive then snd (tcp_receive_stream_segment env w s) else w)"

definition tcp_state_last_ack :: "'p tcp_env \<Rightarrow> 'p tcp_world \<Rightarrow> tcp_seg \<Rightarrow> 'p tcp_world" where
  "tcp_state_last_ack env w s =
     (if status (w_tp w) \<noteq> TCP_STATUS_LAST_ACK then w
      else case tcp_receive_stream_segment env w s of
        (False, w) \<Rightarrow> w
      | (True, w) \<Rightarrow>
        if \<not> has_flag s RTE_TCP_ACK_FLAG then w
        else case tcp_process_peer_ack env w (in_ack s) of
          (False, w) \<Rightarrow> w
        | (True, w) \<Rightarrow>
          if in_ack s \<noteq> sent_seq (w_tp w) then w
          else let w = tcp_drain_recv env (tcp_drain_send env (tcp_stream_set_status w TCP_STATUS_CLOSED))
               in if sk_app_closed w then nsock_free env w else w)"

definition tcp_state_time_wait :: "'p tcp_env \<Rightarrow> 'p tcp_world \<Rightarrow> tcp_seg \<Rightarrow> 'p tcp_world" where
  "tcp_state_time_wait env w s =
     (if status (w_tp w) \<noteq> TCP_STATUS_TIME_WAIT then w else snd (tcp_receive_stream_segment env w s))"

definition tcp_state_closing :: "'p tcp_env \<Rightarrow> 'p tcp_world \<Rightarrow> tcp_seg \<Rightarrow> 'p tcp_world" where
  "tcp_state_closing env w s =
     (if status (w_tp w) \<noteq> TCP_STATUS_CLOSING then w
      else case tcp_receive_stream_segment env w s of
        (False, w) \<Rightarrow> w
      | (True, w) \<Rightarrow>
        if \<not> has_flag s RTE_TCP_ACK_FLAG then w
        else case tcp_process_peer_ack env w (in_ack s) of
          (False, w) \<Rightarrow> w
        | (True, w) \<Rightarrow> if in_ack s \<noteq> sent_seq (w_tp w) then w else snd (tcp_enter_time_wait env w))"

text \<open>Our FIN is acknowledged: wait for the peer's, not for ever.\<close>

definition enter_fin_wait_2 :: "'p tcp_env \<Rightarrow> 'p tcp_world \<Rightarrow> bool \<times> 'p tcp_world" where
  "enter_fin_wait_2 env w =
     (let w = tcp_stream_set_status w TCP_STATUS_FIN_WAIT_2;
          deadline = deadline_after (env_now env) (owner_timer_ms_to_cycles (env_hz env) TCP_FIN_WAIT_2_TIMEOUT_MS);
          w = (if close_deadline_cycles (w_tp w) = 0 \<or> deadline < close_deadline_cycles (w_tp w)
               then upd_tp (\<lambda>tp. tp\<lparr>close_deadline_cycles := deadline\<rparr>) w else w)
      in case sock_arm_at env w (close_deadline_cycles (w_tp w)) of
           (True, w) \<Rightarrow> (True, w)
         | (False, w) \<Rightarrow> (False, tcp_abort_stream env w ENOBUFS True))"

definition tcp_state_fin_wait_1 :: "'p tcp_env \<Rightarrow> 'p tcp_world \<Rightarrow> tcp_seg \<Rightarrow> 'p tcp_world" where
  "tcp_state_fin_wait_1 env w s =
     (let has_ack = has_flag s RTE_TCP_ACK_FLAG;
          (alive, w) = (if has_ack then tcp_process_peer_ack env w (in_ack s) else (True, w))
      in if \<not> alive then w
         else let (alive, w) = (if has_ack \<and> in_ack s = sent_seq (w_tp w) then enter_fin_wait_2 env w else (True, w))
              in if \<not> alive then w else snd (tcp_receive_stream_segment env w s))"

definition ack_then_receive :: "'p tcp_env \<Rightarrow> 'p tcp_world \<Rightarrow> tcp_seg \<Rightarrow> 'p tcp_world" where
  "ack_then_receive env w s =
     (let (alive, w) = (if has_flag s RTE_TCP_ACK_FLAG then tcp_process_peer_ack env w (in_ack s) else (True, w))
      in if alive then snd (tcp_receive_stream_segment env w s) else w)"

definition tcp_state_fin_wait_2 :: "'p tcp_env \<Rightarrow> 'p tcp_world \<Rightarrow> tcp_seg \<Rightarrow> 'p tcp_world" where
  "tcp_state_fin_wait_2 env w s = (if status (w_tp w) \<noteq> TCP_STATUS_FIN_WAIT_2 then w else ack_then_receive env w s)"

definition tcp_state_close_wait :: "'p tcp_env \<Rightarrow> 'p tcp_world \<Rightarrow> tcp_seg \<Rightarrow> 'p tcp_world" where
  "tcp_state_close_wait env w s = (if status (w_tp w) \<noteq> TCP_STATUS_CLOSE_WAIT then w else ack_then_receive env w s)"

definition tcp_state_drop :: "'p tcp_world \<Rightarrow> 'p tcp_world" where
  "tcp_state_drop w = w"

text \<open>The dispatch table \<^verbatim>\<open>tcp_state_ops\<close>.\<close>

fun tcp_state_ops :: "TCP_STATUS \<Rightarrow> 'p tcp_env \<Rightarrow> 'p tcp_world \<Rightarrow> tcp_seg \<Rightarrow> 'p tcp_world" where
  "tcp_state_ops TCP_STATUS_SYN_SENT = tcp_state_syn_sent"
| "tcp_state_ops TCP_STATUS_SYN_RECV = tcp_state_syn_recv"
| "tcp_state_ops TCP_STATUS_ESTABLISHED = tcp_state_established"
| "tcp_state_ops TCP_STATUS_CLOSE_WAIT = tcp_state_close_wait"
| "tcp_state_ops TCP_STATUS_LAST_ACK = tcp_state_last_ack"
| "tcp_state_ops TCP_STATUS_TIME_WAIT = tcp_state_time_wait"
| "tcp_state_ops TCP_STATUS_CLOSING = tcp_state_closing"
| "tcp_state_ops TCP_STATUS_FIN_WAIT_1 = tcp_state_fin_wait_1"
| "tcp_state_ops TCP_STATUS_FIN_WAIT_2 = tcp_state_fin_wait_2"
| "tcp_state_ops TCP_STATUS_CLOSED = (\<lambda>env w s. tcp_state_drop w)"
| "tcp_state_ops TCP_STATUS_LISTEN = (\<lambda>env w s. tcp_state_drop w)"

subsection \<open>Resets\<close>

definition tcp_rst_acceptable :: "tcp_stream \<Rightarrow> tcp_seg \<Rightarrow> bool" where
  "tcp_rst_acceptable tp s \<longleftrightarrow>
     (if \<not> has_flag s RTE_TCP_RST_FLAG then False
      else if status tp = TCP_STATUS_SYN_SENT then has_flag s RTE_TCP_ACK_FLAG \<and> in_ack s = sent_seq tp + 1
      else if status tp = TCP_STATUS_TIME_WAIT then False
      else in_seq s = recv_ack tp)"

definition tcp_abort_on_rst :: "'p tcp_env \<Rightarrow> 'p tcp_world \<Rightarrow> 'p tcp_world" where
  "tcp_abort_on_rst env w = tcp_abort_stream env w ECONNRESET False"

text \<open>The reset that answers a segment without a connection, if there is one.\<close>

definition tcp_send_reset_reply :: "tcp_seg \<Rightarrow> tcp_fragment option" where
  "tcp_send_reset_reply s =
     (if has_flag s RTE_TCP_RST_FLAG then None
      else if header_len (in_data_off s) < 20 then None
      else let seg_len = of_nat (length (in_payload s)) + (if has_flag s RTE_TCP_SYN_FLAG then 1 else 0)
                         + (if has_flag s RTE_TCP_FIN_FLAG then 1 else 0);
               rst = tcp_fragment_zero\<lparr>frag_src_port := in_dst_port s, frag_dst_port := in_src_port s, frag_data_off := 80\<rparr>
           in Some (if has_flag s RTE_TCP_ACK_FLAG
                    then rst\<lparr>frag_sent_seq := in_ack s, frag_tcp_flags := RTE_TCP_RST_FLAG\<rparr>
                    else rst\<lparr>frag_recv_ack := in_seq s + seg_len, frag_tcp_flags := RTE_TCP_RST_FLAG OR RTE_TCP_ACK_FLAG\<rparr>))"

subsection \<open>A segment for an existing connection\<close>

definition ingress_negotiate :: "'p tcp_env \<Rightarrow> 'p tcp_world \<Rightarrow> tcp_seg \<Rightarrow> tcp_options_rx \<Rightarrow> 'p tcp_world" where
  "ingress_negotiate env w s opts =
     (if status (w_tp w) = TCP_STATUS_SYN_SENT \<and> has_flag s RTE_TCP_SYN_FLAG \<and> has_flag s RTE_TCP_ACK_FLAG \<and>
         in_ack s = sent_seq (w_tp w) + 1
      then upd_tp (\<lambda>tp. tcp_options_negotiate_syn tp opts (env_ms env)) w else w)"

definition ingress_existing :: "'p tcp_env \<Rightarrow> 'p tcp_world \<Rightarrow> tcp_seg \<Rightarrow> tcp_options_rx \<Rightarrow> 'p tcp_world" where
  "ingress_existing env w s opts =
     (if has_flag s RTE_TCP_RST_FLAG then
        if tcp_rst_acceptable (w_tp w) s then tcp_abort_on_rst env w else w
      else let st = status (w_tp w);
               w = ingress_negotiate env w s opts;
               seq_acceptable = (st = TCP_STATUS_ESTABLISHED \<and>
                  tcp_segment_acceptable (w_tp w) (in_seq s) (of_nat (length (in_payload s))) (has_flag s RTE_TCP_FIN_FLAG));
               (ts_result, tp) = tcp_options_process_inbound (w_tp w) opts False (in_seq s) seq_acceptable (env_ms env);
               w = w\<lparr>w_tp := tp\<rparr>
           in if ts_result \<noteq> Inbound_Ok then
                if ts_result = Inbound_Paws_Drop \<and> st = TCP_STATUS_ESTABLISHED then
                  let w = upd_tp (\<lambda>tp. tcp_sack_note_duplicate tp (in_seq s) (of_nat (length (in_payload s)))) w;
                      (f, w) = tcp_make_fragment env w RTE_TCP_ACK_FLAG (sent_seq (w_tp w)) (recv_ack (w_tp w))
                  in snd (tcp_enqueue_fragment env w f)
                else w
              else tcp_state_ops st env w s)"

end
