(* ===== verification/Tcp_Output.thy ===== *)
theory Tcp_Output
  imports Tcp_Ack
begin

text \<open>
  Transmission (\<^verbatim>\<open>src/pro-stack/tcp.c\<close>): queued control segments, recovery retransmissions, new data
  from the send buffer, pending acknowledgements and the deferred FIN, in the order of
  \<^verbatim>\<open>tcp_tx_flush\<close>.  Whether the peer's MAC address is known, a packet buffer is free and the NIC ring
  has room is outside this file: \<open>tx\<close> answers it at each attempt, from the history of the socket's
  effects.
\<close>

datatype tx_outcome = Tx_ok | Tx_no_arp | Tx_no_mbuf | Tx_ring_full

type_synonym tx_oracle = "tcp_effect list \<Rightarrow> tx_outcome"

datatype tcp_sndbuf_flush_result =
  TCP_SNDBUF_IDLE | TCP_SNDBUF_SENT | TCP_SNDBUF_RETRY | TCP_SNDBUF_ARP_WAIT | TCP_SNDBUF_DESTROYED

datatype sock_tx_flush_result =
  SOCK_TX_FLUSH_IDLE | SOCK_TX_FLUSH_RETRY | SOCK_TX_FLUSH_ARP_WAIT | SOCK_TX_FLUSH_DESTROYED

definition TCP_MAX_OPTIONS :: int where [simp]: "TCP_MAX_OPTIONS = 10"

text \<open>The packet is identified with its descriptor; building it fails on a bad option length.\<close>

definition tcp_build_pkt :: "bool \<Rightarrow> tcp_fragment \<Rightarrow> tcp_fragment option" where
  "tcp_build_pkt mbuf_ok f =
     (if frag_opt_len f < 0 \<or> frag_opt_len f > TCP_MAX_OPTIONS \<or>
         frag_data_off f \<noteq> push_bit 4 (word_of_int (5 + frag_opt_len f)) then None
      else if \<not> mbuf_ok then None else Some f)"

definition tcp_data_fragment :: "'p tcp_env \<Rightarrow> 'p tcp_world \<Rightarrow> u32 \<Rightarrow> tcp_fragment option \<times> tcp_fragment \<times> 'p tcp_world" where
  "tcp_data_fragment env w seq =
     (let flags = RTE_TCP_ACK_FLAG OR RTE_TCP_PSH_FLAG;
          f = tcp_fragment_zero\<lparr>frag_src_port := sk_local_port w, frag_dst_port := remote_port (w_tp w),
                frag_sent_seq := seq, frag_recv_ack := recv_ack (w_tp w), frag_tcp_flags := flags, frag_data_off := 80,
                frag_rx_win := tcp_wire_rcv_wnd (w_tp w) flags\<rparr>
      in case tcp_options_apply_established (w_tp w) f (env_ms env) of
           (r, tp) \<Rightarrow> (r, case r of None \<Rightarrow> f | Some f \<Rightarrow> f, w\<lparr>w_tp := tp\<rparr>))"

subsection \<open>Recovery retransmissions\<close>

definition recovery_candidate :: "tcp_stream \<Rightarrow> tcp_stream" where
  "recovery_candidate tp =
     (if kind (pending (sack tp)) = TCP_RECOVERY_TX_NONE \<and> mode (sack tp) = TCP_RECOVERY_SACK then
        let (pipe, tp) = tcp_sack_set_pipe tp (tcp_sack_payload_flight_end tp);
            cwnd = tcp_cc_send_window tp; smss = ucast (snd_mss tp)
        in if cwnd \<ge> pipe \<and> cwnd - pipe \<ge> smss then
             let sndbuf_end = sb_head_seq (sndbuf tp) + sb_len (sndbuf tp)
             in snd (tcp_sack_schedule_next tp sndbuf_end (tcp_seq_lt (sent_seq tp) sndbuf_end))
           else tp
      else tp)"

definition recovery_sent :: "'p tcp_env \<Rightarrow> 'p tcp_world \<Rightarrow> tcp_fragment \<Rightarrow> u32 \<Rightarrow> 'p tcp_world" where
  "recovery_sent env w f sent_end =
     upd_tp (\<lambda>tp. let tp = tcp_sack_commit_candidate (env_range_pool env 0) (tp\<lparr>ack_pending := False\<rparr>) sent_end;
                       tp = tcp_rtt_on_retransmit tp
                   in tcp_cc_on_packet_sent tp \<lparr>tx_bytes = of_nat (length (frag_payload f)), tx_now_ms = env_ms env,
                        tx_retransmission = True, tx_cwnd_limited = cwnd_limited (cc tp)\<rparr>)
       (log_fx (Fx_tx f) w)"

definition tcp_tx_flush_recovery_retransmit ::
  "'p tcp_env \<Rightarrow> tx_oracle \<Rightarrow> 'p tcp_world \<Rightarrow> tcp_sndbuf_flush_result \<times> 'p tcp_world" where
  "tcp_tx_flush_recovery_retransmit env tx w =
     (let w = upd_tp recovery_candidate w; tp = w_tp w; cand = pending (sack tp);
          seq = cand_seq cand; cend = cand_end cand; cancel = upd_tp tcp_sack_cancel_candidate w in
      if kind cand \<noteq> TCP_RECOVERY_TX_RETRANSMIT then (TCP_SNDBUF_IDLE, w)
      else if sb_len (sndbuf tp) = 0 \<or> tcp_seq_lt seq (sb_head_seq (sndbuf tp)) \<or> \<not> tcp_seq_lt seq cend \<or>
              tcp_seq_gt cend (tcp_sack_payload_flight_end tp) then (TCP_SNDBUF_IDLE, cancel)
      else case tcp_sndbuf_peek (sndbuf tp) seq of None \<Rightarrow> (TCP_SNDBUF_IDLE, cancel)
      | Some chunk \<Rightarrow>
        if tx (sk_log w) = Tx_no_arp then (TCP_SNDBUF_ARP_WAIT, log_fx (Fx_arp_wait (remote_ip tp)) w)
        else case tcp_data_fragment env w seq of (r, f, w) \<Rightarrow>
          if r = None then (TCP_SNDBUF_RETRY, w)
          else let seglen = cend - seq;
                   mss = ucast (tcp_options_data_mss (w_tp w) (Some f));
                   seglen = (if seglen > mss then mss else seglen);
                   seglen = (if unat seglen > length chunk then of_nat (length chunk) else seglen) in
            if seglen = 0 then (TCP_SNDBUF_IDLE, upd_tp tcp_sack_cancel_candidate w)
            else let f = f\<lparr>frag_payload := take (unat seglen) chunk\<rparr> in
              case tcp_build_pkt (tx (sk_log w) \<noteq> Tx_no_mbuf) f of
                None \<Rightarrow> (TCP_SNDBUF_RETRY, w)
              | Some f \<Rightarrow> if tx (sk_log w) = Tx_ring_full then (TCP_SNDBUF_RETRY, w)
                          else (TCP_SNDBUF_SENT, recovery_sent env w f (seq + seglen)))"

subsection \<open>New data\<close>

text \<open>How much the windows, the chunk and a recovery candidate allow.\<close>

definition data_credit :: "tcp_stream \<Rightarrow> u32 \<Rightarrow> u32 \<Rightarrow> u32 \<Rightarrow> u32" where
  "data_credit tp congestion_in_flight unsent available =
     (let send_window = snd_wnd tp; cwnd = tcp_cc_send_window tp;
          send_window = (if cwnd < send_window then cwnd else send_window) in
      if congestion_in_flight \<ge> send_window then 0
      else let credit = send_window - congestion_in_flight;
               seglen = (if unsent > credit then credit else unsent);
               seglen = (if seglen > available then available else seglen);
               cand = pending (sack tp)
           in if kind cand = TCP_RECOVERY_TX_NEW_DATA \<and> cand_seq cand = sent_seq tp \<and> seglen > cand_end cand - sent_seq tp
              then cand_end cand - sent_seq tp else seglen)"

definition data_sent ::
  "'p tcp_env \<Rightarrow> 'p tcp_world \<Rightarrow> tcp_fragment \<Rightarrow> u32 \<Rightarrow> u32 \<Rightarrow> bool \<Rightarrow> tcp_sndbuf_flush_result \<times> 'p tcp_world" where
  "data_sent env w f seglen congestion_in_flight was_idle =
     (let buf_end = sb_head_seq (sndbuf (w_tp w)) + sb_len (sndbuf (w_tp w));
          cwnd = tcp_cc_send_window (w_tp w);
          w = log_fx (Fx_tx f) (upd_tp (\<lambda>tp. tp\<lparr>ack_pending := False\<rparr>) w);
          w = (if was_idle
               then upd_tp (\<lambda>tp. let tp = tcp_cc_on_idle_restart tp (env_ms env) (rto_ms tp)
                                  in tcp_rtt_note_xmit tp (frag_sent_seq f + seglen) (ts_last_val tp)) w
               else w);
          w = upd_tp (\<lambda>tp. tp\<lparr>sent_seq := sent_seq tp + seglen,
                             sndbuf := (sndbuf tp)\<lparr>sb_unacked := sb_unacked (sndbuf tp) + seglen\<rparr>\<rparr>) w;
          w = w\<lparr>w_mem := (w_mem w)\<lparr>mem_unacked_bytes := resource_acquire (mem_unacked_bytes (w_mem w)) (ucast seglen)\<rparr>\<rparr>;
          w = upd_tp (\<lambda>tp. if kind (pending (sack tp)) = TCP_RECOVERY_TX_NEW_DATA
                             then tcp_sack_commit_candidate (env_range_pool env 0) tp (sent_seq tp)
                             else tcp_sack_note_new_data tp (sent_seq tp)) w;
          w = upd_tp (\<lambda>tp. tp\<lparr>sack := (sack tp)\<lparr>limited_transmit := False\<rparr>\<rparr>) w;
          congestion_after = (if UINT32_MAX - congestion_in_flight < seglen then UINT32_MAX else congestion_in_flight + seglen);
          w = upd_tp (\<lambda>tp. tcp_cc_on_packet_sent tp \<lparr>tx_bytes = seglen, tx_now_ms = env_ms env, tx_retransmission = False,
                tx_cwnd_limited = (tcp_seq_lt (sent_seq tp) buf_end \<and> cwnd \<le> snd_wnd tp \<and> congestion_after \<ge> cwnd)\<rparr>) w
      in if was_idle then
           (case tcp_arm_data_rto env (upd_tp (\<lambda>tp. tp\<lparr>retries := 0\<rparr>) w) (ucast (rto_ms (w_tp w))) of
              (True, w) \<Rightarrow> (TCP_SNDBUF_SENT, w)
            | (False, w) \<Rightarrow> (TCP_SNDBUF_DESTROYED, tcp_abort_stream env w ENOBUFS True))
         else (TCP_SNDBUF_SENT, w))"

definition tcp_tx_flush_sndbuf :: "'p tcp_env \<Rightarrow> tx_oracle \<Rightarrow> 'p tcp_world \<Rightarrow> tcp_sndbuf_flush_result \<times> 'p tcp_world" where
  "tcp_tx_flush_sndbuf env tx w =
     (let tp = w_tp w; sb = sndbuf tp; buf_end = sb_head_seq sb + sb_len sb in
      if status tp \<notin> {TCP_STATUS_ESTABLISHED, TCP_STATUS_CLOSE_WAIT, TCP_STATUS_FIN_WAIT_1, TCP_STATUS_CLOSING, TCP_STATUS_LAST_ACK}
      then (TCP_SNDBUF_IDLE, w)
      else if sb_chunks sb = [] \<or> sb_len sb = 0 \<or> \<not> tcp_seq_lt (sent_seq tp) buf_end then (TCP_SNDBUF_IDLE, w)
      else case tcp_sndbuf_peek sb (sent_seq tp) of None \<Rightarrow> (TCP_SNDBUF_IDLE, w)
      | Some chunk \<Rightarrow>
        let unsent = buf_end - sent_seq tp;
            in_flight = sent_seq tp - snd_una tp;
            was_idle = (snd_una tp = sent_seq tp);
            (congestion_in_flight, tp) =
              (if mode (sack tp) = TCP_RECOVERY_SACK \<or> limited_transmit (sack tp)
               then tcp_sack_set_pipe tp (tcp_sack_payload_flight_end tp) else (in_flight, tp));
            w = w\<lparr>w_tp := tp\<rparr>;
            seglen = data_credit tp congestion_in_flight unsent (of_nat (length chunk)) in
        if seglen = 0 then (TCP_SNDBUF_IDLE, w)
        else if tx (sk_log w) = Tx_no_arp then (TCP_SNDBUF_ARP_WAIT, log_fx (Fx_arp_wait (remote_ip tp)) w)
        else case tcp_data_fragment env w (sent_seq tp) of (r, f, w) \<Rightarrow>
          let mss = ucast (tcp_options_data_mss (w_tp w) (Some f)) in
          if \<not> sk_nodelay w \<and> in_flight \<noteq> 0 \<and> unsent < mss \<and> \<not> sk_app_closed w \<and>
             kind (pending (sack (w_tp w))) \<noteq> TCP_RECOVERY_TX_NEW_DATA then (TCP_SNDBUF_IDLE, w)
          else let seglen = (if seglen > mss then mss else seglen) in
            if seglen = 0 then (TCP_SNDBUF_IDLE, w)
            else let f = f\<lparr>frag_payload := take (unat seglen) chunk\<rparr> in
              case tcp_build_pkt (tx (sk_log w) \<noteq> Tx_no_mbuf) f of
                None \<Rightarrow> (TCP_SNDBUF_RETRY, w)
              | Some f \<Rightarrow> if tx (sk_log w) = Tx_ring_full then (TCP_SNDBUF_RETRY, w)
                          else data_sent env w f seglen congestion_in_flight was_idle)"

subsection \<open>Control segments\<close>

text \<open>One round of the inner loop: \<open>None\<close> to go on with the next segment, or the result of the flush.\<close>

definition requeue_or_free :: "'p tcp_env \<Rightarrow> 'p tcp_world \<Rightarrow> tcp_fragment \<Rightarrow> sock_tx_flush_result \<Rightarrow> sock_tx_flush_result \<times> 'p tcp_world" where
  "requeue_or_free env w f result =
     (case nsock_tcp_tx_requeue_head (w_tp w) f of
        None \<Rightarrow> (SOCK_TX_FLUSH_IDLE, tcp_fragment_free env w)
      | Some tp \<Rightarrow>
          let w = w\<lparr>w_tp := tp\<rparr>
          in (result, if result = SOCK_TX_FLUSH_ARP_WAIT then log_fx (Fx_arp_wait (remote_ip tp)) w else w))"

definition flush_control_one :: "'p tcp_env \<Rightarrow> tx_oracle \<Rightarrow> 'p tcp_world \<Rightarrow> tcp_fragment \<Rightarrow> sock_tx_flush_result option \<times> 'p tcp_world" where
  "flush_control_one env tx w f =
     (if tx (sk_log w) = Tx_no_arp then apfst Some (requeue_or_free env w f SOCK_TX_FLUSH_ARP_WAIT)
      else case tcp_build_pkt (tx (sk_log w) \<noteq> Tx_no_mbuf) f of
        None \<Rightarrow> apfst Some (requeue_or_free env w f SOCK_TX_FLUSH_RETRY)
      | Some p \<Rightarrow>
        if tx (sk_log w) = Tx_ring_full then apfst Some (requeue_or_free env w f SOCK_TX_FLUSH_RETRY)
        else let w = log_fx (Fx_tx p) w;
                 w = (if frag_tcp_flags f AND RTE_TCP_ACK_FLAG \<noteq> 0 \<and> frag_tcp_flags f AND RTE_TCP_SYN_FLAG = 0 \<and>
                         frag_recv_ack f = recv_ack (w_tp w) \<and> frag_rx_win f = tcp_wire_rcv_wnd (w_tp w) (frag_tcp_flags f)
                      then upd_tp (\<lambda>tp. tp\<lparr>ack_pending := False\<rparr>) w else w)
             in (None, tcp_fragment_free env w))"

fun flush_control :: "'p tcp_env \<Rightarrow> tx_oracle \<Rightarrow> 'p tcp_world \<Rightarrow> tcp_fragment list \<Rightarrow> sock_tx_flush_result option \<times> 'p tcp_world" where
  "flush_control env tx w [] = (None, w)"
| "flush_control env tx w (f # fs) =
     (case flush_control_one env tx (upd_tp (\<lambda>tp. tp\<lparr>tx_queue := fs\<rparr>) w) f of
        (Some r, w) \<Rightarrow> (Some r, w)
      | (None, w) \<Rightarrow> flush_control env tx w fs)"

partial_function (option) flush_recovery ::
  "'p tcp_env \<Rightarrow> tx_oracle \<Rightarrow> 'p tcp_world \<Rightarrow> (tcp_sndbuf_flush_result \<times> 'p tcp_world) option" where
  "flush_recovery env tx w =
     (case tcp_tx_flush_recovery_retransmit env tx w of
        (r, w) \<Rightarrow> if r = TCP_SNDBUF_SENT then flush_recovery env tx w else Some (r, w))"

subsection \<open>The flush\<close>

text \<open>What follows the data: a pure acknowledgement, or the deferred FIN.  \<open>None\<close> means another round.\<close>

definition flush_tail :: "'p tcp_env \<Rightarrow> 'p tcp_world \<Rightarrow> sock_tx_flush_result option \<times> 'p tcp_world" where
  "flush_tail env w =
     (let tp = w_tp w in
      if ack_pending tp then
        let (f, w) = tcp_make_fragment env w RTE_TCP_ACK_FLAG (sent_seq tp) (recv_ack tp)
        in case tcp_enqueue_fragment env w f of
             (False, w) \<Rightarrow> (Some SOCK_TX_FLUSH_RETRY, w)
           | (True, w) \<Rightarrow> (None, upd_tp (\<lambda>tp. tp\<lparr>ack_pending := False\<rparr>) w)
      else if status tp \<in> {TCP_STATUS_FIN_WAIT_1, TCP_STATUS_LAST_ACK, TCP_STATUS_CLOSING} \<and> fin_deferred tp \<and>
              sent_seq tp = snd_una tp + sb_len (sndbuf tp) then
        let (f, w) = tcp_make_fragment env w (RTE_TCP_FIN_FLAG OR RTE_TCP_ACK_FLAG) (sent_seq tp) (recv_ack tp)
        in case tcp_enqueue_fragment env w f of
             (False, w) \<Rightarrow> (Some SOCK_TX_FLUSH_DESTROYED, tcp_abort_stream env w ENOBUFS True)
           | (True, w) \<Rightarrow>
              let w = upd_tp (\<lambda>tp. tp\<lparr>sent_seq := sent_seq tp + 1, fin_deferred := False\<rparr>) w
              in case tcp_arm_data_rto env w (ucast (rto_ms (w_tp w))) of
                   (False, w) \<Rightarrow> (Some SOCK_TX_FLUSH_DESTROYED, tcp_abort_stream env w ENOBUFS True)
                 | (True, w) \<Rightarrow> (None, w)
      else (Some SOCK_TX_FLUSH_IDLE, w))"

definition flush_result :: "tcp_sndbuf_flush_result \<Rightarrow> sock_tx_flush_result option" where
  "flush_result r = (case r of
       TCP_SNDBUF_ARP_WAIT \<Rightarrow> Some SOCK_TX_FLUSH_ARP_WAIT
     | TCP_SNDBUF_RETRY \<Rightarrow> Some SOCK_TX_FLUSH_RETRY
     | TCP_SNDBUF_DESTROYED \<Rightarrow> Some SOCK_TX_FLUSH_DESTROYED
     | _ \<Rightarrow> None)"

partial_function (option) flush_rounds ::
  "'p tcp_env \<Rightarrow> tx_oracle \<Rightarrow> 'p tcp_world \<Rightarrow> (sock_tx_flush_result \<times> 'p tcp_world) option" where
  "flush_rounds env tx w =
     (case flush_control env tx w (tx_queue (w_tp w)) of
        (Some r, w) \<Rightarrow> Some (r, w)
      | (None, w) \<Rightarrow>
         (case flush_recovery env tx w of None \<Rightarrow> None
          | Some (r, w) \<Rightarrow>
             (case flush_result r of Some r \<Rightarrow> Some (r, w)
              | None \<Rightarrow>
                (case tcp_tx_flush_sndbuf env tx w of
                   (r, w) \<Rightarrow>
                     (case flush_result r of Some r \<Rightarrow> Some (r, w)
                      | None \<Rightarrow>
                        if r = TCP_SNDBUF_SENT then flush_rounds env tx w
                        else (case flush_tail env w of
                                (Some r, w) \<Rightarrow> Some (r, w)
                              | (None, w) \<Rightarrow> flush_rounds env tx w))))))"

definition tcp_tx_flush :: "'p tcp_env \<Rightarrow> tx_oracle \<Rightarrow> 'p tcp_world \<Rightarrow> (sock_tx_flush_result \<times> 'p tcp_world) option" where
  "tcp_tx_flush env tx w =
     (if status (w_tp w) \<in> {TCP_STATUS_CLOSED, TCP_STATUS_LISTEN} then Some (SOCK_TX_FLUSH_IDLE, w)
      else flush_rounds env tx w)"

end
