(* ===== verification/Tcp_Api.thy ===== *)
theory Tcp_Api
  imports Tcp_Timer
begin

text \<open>
  What the application asks of a connection (\<^verbatim>\<open>src/pro-stack/tcp.c\<close>): sending, closing, connecting, and
  the choice of a local port.  Closing a listener is in \<^verbatim>\<open>Tcp_Owner\<close>, since it takes its children
  with it.
\<close>

subsection \<open>Sending\<close>

definition TCP_SNDBUF_APP_HIWAT :: u32 where [simp]: "TCP_SNDBUF_APP_HIWAT = 64 * 1024"

definition tcp_app_snd_limit :: "tcp_stream \<Rightarrow> u32" where
  "tcp_app_snd_limit tp =
     (if snd_wnd_valid tp \<and> snd_wnd tp < TCP_SNDBUF_APP_HIWAT then snd_wnd tp else TCP_SNDBUF_APP_HIWAT)"

definition tcp_app_snd_space :: "tcp_stream \<Rightarrow> u32" where
  "tcp_app_snd_space tp =
     (let limit = tcp_app_snd_limit tp in if sb_len (sndbuf tp) \<ge> limit then 0 else limit - sb_len (sndbuf tp))"

definition tcp_send :: "'p tcp_env \<Rightarrow> 'p tcp_world \<Rightarrow> byte list \<Rightarrow> (errno + nat) \<times> 'p tcp_world" where
  "tcp_send env w buf =
     (if buf = [] then (Inr 0, w)
      else if status (w_tp w) \<notin> {TCP_STATUS_ESTABLISHED, TCP_STATUS_CLOSE_WAIT}
      then (Inl (case sk_terminal_error w of Some e \<Rightarrow> e | None \<Rightarrow> EPIPE), w)
      else let space = tcp_app_snd_space (w_tp w) in
        if space = 0 then (Inl EAGAIN, w)
        else let accepted = min (length buf) (unat space) in
          case tcp_sndbuf_append (env_mp env) (w_mem w) (sndbuf (w_tp w)) (take accepted buf) of
            (r, sb, memory) \<Rightarrow>
              let w = (upd_tp (\<lambda>tp. tp\<lparr>sndbuf := sb\<rparr>) w)\<lparr>w_mem := memory\<rparr> in
              case r of
                Some n \<Rightarrow> if n = 0 then (Inl ENOBUFS, w) else (Inr n, tcp_mark_tx_dirty w)
              | None \<Rightarrow> (Inl ENOBUFS, w))"

subsection \<open>Closing\<close>

text \<open>Queue our FIN now, or leave it to the flush when unsent data remains.\<close>

definition close_queue_fin :: "'p tcp_env \<Rightarrow> 'p tcp_world \<Rightarrow> bool \<times> 'p tcp_world" where
  "close_queue_fin env w =
     (let tp = w_tp w; buf_end = sb_head_seq (sndbuf tp) + sb_len (sndbuf tp) in
      if tcp_seq_lt (sent_seq tp) buf_end then (True, upd_tp (\<lambda>tp. tp\<lparr>fin_deferred := True\<rparr>) w)
      else let (f, w) = tcp_make_fragment env w (RTE_TCP_FIN_FLAG OR RTE_TCP_ACK_FLAG) (sent_seq tp) (recv_ack tp)
           in case tcp_enqueue_fragment env w f of
                (False, w) \<Rightarrow> (False, w)
              | (True, w) \<Rightarrow> (True, upd_tp (\<lambda>tp. tp\<lparr>sent_seq := sent_seq tp + 1\<rparr>) w))"

definition close_arm :: "'p tcp_env \<Rightarrow> 'p tcp_world \<Rightarrow> bool \<times> 'p tcp_world" where
  "close_arm env w =
     (let (ok, w) = (if snd_una (w_tp w) \<noteq> sent_seq (w_tp w) then tcp_arm_data_rto env w (ucast (rto_ms (w_tp w))) else (True, w))
      in if \<not> ok then (False, tcp_abort_stream env w ENOBUFS True)
         else let (ok, w) = (if snd_una (w_tp w) = sent_seq (w_tp w) \<and> close_deadline_cycles (w_tp w) \<noteq> 0
                             then sock_arm_at env w (close_deadline_cycles (w_tp w)) else (True, w))
              in if \<not> ok then (False, tcp_abort_stream env w ENOBUFS True) else (True, w))"

definition close_start :: "'p tcp_env \<Rightarrow> 'p tcp_world \<Rightarrow> TCP_STATUS \<Rightarrow> bool \<Rightarrow> (errno + unit) \<times> 'p tcp_world" where
  "close_start env w next_status drain =
     (case close_queue_fin env w of
        (False, w) \<Rightarrow> (Inl ENOBUFS, tcp_abort_stream env w ENOBUFS True)
      | (True, w) \<Rightarrow>
         let w = tcp_stream_set_status (upd_tp (\<lambda>tp. tp\<lparr>retries := 0\<rparr>) w) next_status
         in case close_arm env w of
              (False, w) \<Rightarrow> (Inl ENOBUFS, w)
            | (True, w) \<Rightarrow>
               let w = (if drain then tcp_drain_recv env w else w)
               in (Inr (), if fin_deferred (w_tp w) then tcp_mark_tx_dirty w else w))"

definition close_linger :: "'p tcp_env \<Rightarrow> 'p tcp_world \<Rightarrow> 'p tcp_world" where
  "close_linger env w =
     (if linger_enabled (w_tp w) \<and> close_deadline_cycles (w_tp w) = 0
      then upd_tp (\<lambda>tp. tp\<lparr>close_deadline_cycles :=
             deadline_after (env_now env) (owner_timer_ms_to_cycles (env_hz env) (ucast (linger_seconds tp) * 1000))\<rparr>) w
      else w)"

text \<open>Closing a socket that is not listening.\<close>

definition tcp_close_stream :: "'p tcp_env \<Rightarrow> 'p tcp_world \<Rightarrow> (errno + unit) \<times> 'p tcp_world" where
  "tcp_close_stream env w =
     (let st = status (w_tp w) in
      if st = TCP_STATUS_CLOSED then (Inr (), nsock_free env (tcp_drain_recv env (tcp_drain_send env w)))
      else if st = TCP_STATUS_SYN_SENT then
        let w = tcp_stream_set_status (sock_timer_cancel w) TCP_STATUS_CLOSED;
            w = log_fx (Fx_connect_done (Some ECANCELED)) w
        in (Inr (), nsock_free env (tcp_drain_recv env (tcp_drain_send env w)))
      else if linger_enabled (w_tp w) \<and> linger_seconds (w_tp w) = 0 then (Inr (), tcp_abort_stream env w ECONNRESET True)
      else let w = close_linger env w in
        if st = TCP_STATUS_ESTABLISHED then close_start env w TCP_STATUS_FIN_WAIT_1 False
        else if st = TCP_STATUS_SYN_RECV then close_start env (parent_unpend w) TCP_STATUS_FIN_WAIT_1 False
        else if st = TCP_STATUS_CLOSE_WAIT then close_start env w TCP_STATUS_LAST_ACK True
        else (Inr (), w))"

subsection \<open>Choosing a local port\<close>

definition TCP_EPHEMERAL_PORT_MIN :: u16 where [simp]: "TCP_EPHEMERAL_PORT_MIN = 49152"
definition TCP_EPHEMERAL_PORT_MAX :: u16 where [simp]: "TCP_EPHEMERAL_PORT_MAX = 65535"

definition htons :: "u16 \<Rightarrow> u16" where
  "htons p = push_bit 8 p OR drop_bit 8 p"

definition tcp_port_prediction_matches_owner :: "int \<Rightarrow> u16 \<Rightarrow> bool" where
  "tcp_port_prediction_matches_owner predicted owner_queue \<longleftrightarrow> predicted < 0 \<or> predicted = uint owner_queue"

text \<open>
  What decides whether a port can be used: the local endpoint table, the endpoint registry, and,
  under receive-side scaling, the queue the NIC would choose for the return traffic.
\<close>

record port_oracle =
  po_taken :: "u16 \<Rightarrow> bool"
  po_registered :: "u16 \<Rightarrow> bool"
  po_owner_queue :: "u16 option"
  po_predict :: "u16 \<Rightarrow> int"

definition port_usable :: "port_oracle \<Rightarrow> u16 \<Rightarrow> bool" where
  "port_usable po be \<longleftrightarrow> \<not> po_taken po be \<and> \<not> po_registered po be \<and>
     (case po_owner_queue po of None \<Rightarrow> True | Some q \<Rightarrow> tcp_port_prediction_matches_owner (po_predict po be) q)"

fun port_scan :: "port_oracle \<Rightarrow> nat \<Rightarrow> u16 \<Rightarrow> u16 \<times> u16" where
  "port_scan po 0 next_port = (0, next_port)"
| "port_scan po (Suc n) next_port =
     (let p = next_port; next_port = next_port + 1;
          next_port = (if next_port < TCP_EPHEMERAL_PORT_MIN then TCP_EPHEMERAL_PORT_MIN else next_port)
      in if port_usable po (htons p) then (htons p, next_port) else port_scan po n next_port)"

text \<open>\<open>start\<close> is the random number below the number of ports drawn on the first call.\<close>

definition tcp_alloc_ephemeral_port :: "port_oracle \<Rightarrow> u16 \<Rightarrow> u16 \<Rightarrow> u16 \<times> u16" where
  "tcp_alloc_ephemeral_port po start next_port =
     port_scan po (unat (TCP_EPHEMERAL_PORT_MAX - TCP_EPHEMERAL_PORT_MIN) + 1)
       (if next_port = 0 then TCP_EPHEMERAL_PORT_MIN + start else next_port)"

subsection \<open>Connecting\<close>

definition tcp_next_isn :: "u32 \<Rightarrow> u32 option \<Rightarrow> u32 \<times> u32 option" where
  "tcp_next_isn wall_time st =
     (let s = (case st of None \<Rightarrow> wall_time | Some s \<Rightarrow> s) + 0x9e3779b1 in (s, Some s))"

text \<open>A control block at the start of a handshake, with initial sequence number \<open>isn\<close>.\<close>

definition stream_reset :: "'p tcp_env \<Rightarrow> 'p tcp_world \<Rightarrow> u32 \<Rightarrow> 'p tcp_world" where
  "stream_reset env w isn =
     (let tp = (w_tp w)\<lparr>sent_seq := isn, snd_una := isn\<rparr>;
          (sb, memory) = tcp_sndbuf_reset (env_mp env) (w_mem w) (sndbuf tp) isn;
          tp = tp\<lparr>sndbuf := sb, recv_ack := 0\<rparr>;
          tp = tp\<lparr>rcv_wscale := tcp_choose_rcv_wscale (rcvbuf_size tp), snd_wscale := 0, wscale_ok := False\<rparr>;
          tp = tcp_rtt_reset (tcp_options_reset_state tp);
          tp = tcp_cc_init_default (tp\<lparr>syn_retransmitted := False\<rparr>) False
      in w\<lparr>w_tp := tp, w_mem := memory, sk_terminal_error := None, sk_attached := False\<rparr>)"

text \<open>
  What a connect reaches outside the socket: the host's address, the per-owner port cursor with the
  random number drawn for it, the initial-sequence generator with the wall clock, and the answers
  of the binding and four-tuple indexes.
\<close>

record connect_env =
  ce_local_ip :: u32
  ce_ports :: port_oracle
  ce_rand :: u16
  ce_next_port :: u16
  ce_time :: u32
  ce_isn_state :: "u32 option"
  ce_bind :: "errno option"
  ce_register_ok :: bool

definition connect_bind :: "connect_env \<Rightarrow> 'p tcp_world \<Rightarrow> errno option \<times> connect_env \<times> 'p tcp_world" where
  "connect_bind ce w =
     (if sk_local_port w \<noteq> 0 then (None, ce, w)
      else let (port, cursor) = tcp_alloc_ephemeral_port (ce_ports ce) (ce_rand ce) (ce_next_port ce);
               ce = ce\<lparr>ce_next_port := cursor\<rparr>; w = w\<lparr>sk_local_port := port\<rparr>
           in if port = 0 then (Some EADDRNOTAVAIL, ce, w)
              else case ce_bind ce of
                     Some e \<Rightarrow> (Some e, ce, w)
                   | None \<Rightarrow> (None, ce, w\<lparr>sk_local_ip := ce_local_ip ce, sk_local_port := port\<rparr>))"

definition connect_syn :: "'p tcp_env \<Rightarrow> 'p tcp_world \<Rightarrow> errno option \<times> 'p tcp_world" where
  "connect_syn env w =
     (let (f, w) = tcp_make_fragment env w RTE_TCP_SYN_FLAG (sent_seq (w_tp w)) 0;
          (f, w) = (case f of None \<Rightarrow> (None, w)
             | Some f \<Rightarrow> let (f, w) = apply_syn_options env w f True True True 0 in (Some f, w))
      in case tcp_enqueue_fragment env w f of
           (False, w) \<Rightarrow> (None, nsock_tcp_conn_unregister w)
         | (True, w) \<Rightarrow>
            case tcp_arm_syn_timer env (tcp_stream_set_status w TCP_STATUS_SYN_SENT) TCP_SYN_RTO_MS of
              (False, w) \<Rightarrow> (Some ENOBUFS, tcp_abort_stream env w ENOBUFS False)
            | (True, w) \<Rightarrow> (Some EINPROGRESS, w))"

text \<open>The call always returns -1; the first component is the error number it sets, if any.\<close>

definition tcp_connect ::
  "'p tcp_env \<Rightarrow> connect_env \<Rightarrow> 'p tcp_world \<Rightarrow> u32 \<Rightarrow> u16 \<Rightarrow> errno option \<times> connect_env \<times> 'p tcp_world" where
  "tcp_connect env ce w peer_ip peer_port =
     (if status (w_tp w) \<noteq> TCP_STATUS_CLOSED then (None, ce, w)
      else let w = upd_tp (\<lambda>tp. tp\<lparr>remote_ip := peer_ip, remote_port := peer_port\<rparr>) w;
               w = (if sk_local_ip w = 0 then w\<lparr>sk_local_ip := ce_local_ip ce\<rparr> else w)
           in case connect_bind ce w of
                (Some e, ce, w) \<Rightarrow> (Some e, ce, w)
              | (None, ce, w) \<Rightarrow>
                 let (isn, isn_state) = tcp_next_isn (ce_time ce) (ce_isn_state ce);
                     ce = ce\<lparr>ce_isn_state := isn_state\<rparr>;
                     w = upd_tp (\<lambda>tp. tp\<lparr>retries := 0, peer_eof := False\<rparr>) (stream_reset env w isn)
                 in if \<not> ce_register_ok ce then (Some EADDRINUSE, ce, w)
                    else let (e, w) = connect_syn env (w\<lparr>sk_registered := True\<rparr>) in (e, ce, w))"

end
