(* ===== verification/Rbtree_Spec.thy ===== *)
theory Rbtree_Spec
  imports Rbtree
begin

text \<open>
  Correctness of the red-black tree: the in-order sequence of elements under insertion, removal and
  traversal, and the colour and black-height invariants that bound its height.
\<close>

subsection \<open>In-order sequence\<close>

fun inorder :: "'a rb_node \<Rightarrow> 'a list" where
  "inorder RbNil = []"
| "inorder (RbNode c l k r) = inorder l @ k # inorder r"

fun rb_before :: "'a rb_parent list \<Rightarrow> 'a list" where
  "rb_before [] = []"
| "rb_before (IsLeft c k s # ps) = rb_before ps"
| "rb_before (IsRight c k s # ps) = rb_before ps @ inorder s @ [k]"

fun rb_after :: "'a rb_parent list \<Rightarrow> 'a list" where
  "rb_after [] = []"
| "rb_after (IsLeft c k s # ps) = k # inorder s @ rb_after ps"
| "rb_after (IsRight c k s # ps) = rb_after ps"

lemma inorder_up: "inorder (rb_up t ps) = rb_before ps @ inorder t @ rb_after ps"
proof (induction ps arbitrary: t)
  case (Cons p ps)
  then show ?case by (cases p) auto
qed simp

lemma inorder_set_color [simp]: "inorder (rb_set_color c t) = inorder t"
  by (cases t) auto

lemma inorder_rotate [simp]:
  "inorder (rb_rotate_left t) = inorder t" "inorder (rb_rotate_right t) = inorder t"
  by (cases t rule: rb_rotate_left.cases; simp) (cases t rule: rb_rotate_right.cases; simp)

lemma inorder_insert_color:
  "rb_insert_color t ps = Some t' \<Longrightarrow> inorder t' = rb_before ps @ inorder t @ rb_after ps"
proof (induction t ps arbitrary: t' rule: rb_insert_color.induct)
  case (2 t p)
  then show ?case by (cases p) (auto split: if_splits)
next
  case (3 t p g ps)
  then show ?case
    by (cases p; cases g) (auto simp: Let_def inorder_up split: if_splits)
qed auto

lemma inorder_erase_round:
  "(case erase_round t p ps of Inl (t', ps') \<Rightarrow> rb_before ps' @ inorder t' @ rb_after ps' | Inr root \<Rightarrow> inorder root)
   = rb_before (p # ps) @ inorder t @ rb_after (p # ps)"
  by (auto simp: erase_round_def erase_case_left_def erase_case_right_def Let_def inorder_up
        split: rb_parent.splits rb_node.splits rb_color.splits if_splits)
     (auto simp: rb_rotate_right.simps rb_rotate_left.simps dest!: arg_cong [where f = inorder])

lemma inorder_erase_fixup: "inorder (rb_erase_fixup t ps) = rb_before ps @ inorder t @ rb_after ps"
proof (induction t ps rule: rb_erase_fixup.induct)
  case (2 t p ps)
  then show ?case
    using inorder_erase_round [of t p ps]
    by (auto simp: inorder_up [of _ "p # ps", simplified] split: sum.splits prod.splits)
qed simp

lemma min_cursor_up:
  "min_cursor t ps = (m, mps) \<Longrightarrow> rb_up m mps = rb_up t ps"
  by (induction t ps rule: min_cursor.induct) auto

lemma min_cursor_before: "min_cursor t ps = (m, mps) \<Longrightarrow> rb_before mps = rb_before ps"
  by (induction t ps rule: min_cursor.induct) auto

lemma min_cursor_leftmost: "min_cursor t ps = (RbNode c l k r, mps) \<Longrightarrow> l = RbNil"
  by (induction t ps rule: min_cursor.induct) auto

lemma min_cursor_Nil: "min_cursor t ps = (RbNil, mps) \<Longrightarrow> t = RbNil"
  by (induction t ps rule: min_cursor.induct) auto

lemma before_append: "rb_before (ps @ qs) = rb_before qs @ rb_before ps"
  by (induction ps rule: rb_before.induct) auto

lemma after_append: "rb_after (ps @ qs) = rb_after ps @ rb_after qs"
  by (induction ps rule: rb_after.induct) auto

lemma inorder_erase_at:
  "inorder (erase_at (RbNode c l k r) ps) = rb_before ps @ inorder l @ inorder r @ rb_after ps"
proof -
  obtain m mps where m: "min_cursor r [] = (m, mps)" by fastforce
  have "inorder r = rb_before mps @ inorder m @ rb_after mps"
    using min_cursor_up [OF m] by (simp add: inorder_up flip: inorder_up)
  then show ?thesis
    using m min_cursor_before [OF m] min_cursor_leftmost [of r "[]"] min_cursor_Nil [of r "[]"]
    by (auto simp: erase_at_def Let_def inorder_erase_fixup inorder_up before_append after_append
          split: rb_node.splits)
qed

lemma cursor_up: "rb_cursor x t ps = Some (t', ps') \<Longrightarrow> rb_up t' ps' = rb_up t ps"
  by (induction x t ps rule: rb_cursor.induct) (auto split: if_splits option.splits)

lemma cursor_node: "rb_cursor x t ps = Some (t', ps') \<Longrightarrow> \<exists>c l r. t' = RbNode c l x r"
  by (induction x t ps rule: rb_cursor.induct) (auto split: if_splits option.splits)

lemma cursor_None: "rb_cursor x t ps = None \<longleftrightarrow> x \<notin> set (inorder t)"
  by (induction x t ps rule: rb_cursor.induct) (auto split: option.splits)

lemma cursor_found:
  assumes "x \<in> set (inorder t)"
  obtains c l r ps where "rb_cursor x t [] = Some (RbNode c l x r, ps)"
    "inorder t = rb_before ps @ inorder l @ x # inorder r @ rb_after ps"
proof -
  obtain t' ps where z: "rb_cursor x t [] = Some (t', ps)"
    using assms cursor_None [of x t "[]"] by auto
  obtain c l r where "t' = RbNode c l x r" using cursor_node [OF z] by blast
  with z cursor_up [OF z] that show ?thesis by (metis inorder_up append_Cons append_assoc inorder.simps(2) rb_up.simps(1))
qed

lemma inorder_erase:
  assumes "distinct (inorder t)"
  shows "inorder (rb_erase x t) = remove1 x (inorder t)"
proof (cases "x \<in> set (inorder t)")
  case True
  from cursor_found [OF this] obtain c l r ps where z: "rb_cursor x t [] = Some (RbNode c l x r, ps)"
    "inorder t = rb_before ps @ inorder l @ x # inorder r @ rb_after ps" .
  with assms show ?thesis
    by (auto simp: rb_erase_def inorder_erase_at remove1_append)
next
  case False
  then show ?thesis using cursor_None [of x t "[]"] by (simp add: rb_erase_def remove1_idem)
qed

subsection \<open>Colours and black height\<close>

fun bheight :: "'a rb_node \<Rightarrow> nat" where
  "bheight RbNil = 0"
| "bheight (RbNode c l k r) = bheight l + (if c = RB_BLACK then 1 else 0)"

text \<open>No red node has a red child, and every path to a leaf has the same number of black nodes.\<close>

fun rb_ok :: "'a rb_node \<Rightarrow> bool" where
  "rb_ok RbNil \<longleftrightarrow> True"
| "rb_ok (RbNode c l k r) \<longleftrightarrow>
     (c = RB_RED \<longrightarrow> rb_color_of l = RB_BLACK \<and> rb_color_of r = RB_BLACK) \<and>
     bheight l = bheight r \<and> rb_ok l \<and> rb_ok r"

definition rb_inv :: "'a rb_node \<Rightarrow> bool" where
  "rb_inv t \<longleftrightarrow> rb_ok t \<and> rb_color_of t = RB_BLACK"

text \<open>What a path requires of the subtree below it, of black height \<open>n\<close>.\<close>

fun path_ok :: "nat \<Rightarrow> 'a rb_parent list \<Rightarrow> bool" where
  "path_ok n [] \<longleftrightarrow> True"
| "path_ok n (p # ps) \<longleftrightarrow>
     (case p of IsLeft c k s \<Rightarrow> bheight s = n \<and> rb_ok s \<and> (c = RB_RED \<longrightarrow> rb_color_of s = RB_BLACK)
              | IsRight c k s \<Rightarrow> bheight s = n \<and> rb_ok s \<and> (c = RB_RED \<longrightarrow> rb_color_of s = RB_BLACK)) \<and>
     (parent_color p = RB_RED \<longrightarrow> ps \<noteq> [] \<and> parent_color (hd ps) = RB_BLACK) \<and>
     path_ok (if parent_color p = RB_BLACK then Suc n else n) ps"

text \<open>The colour a subtree must have to hang below a path: black below a red parent.\<close>

definition rb_fits :: "'a rb_node \<Rightarrow> 'a rb_parent list \<Rightarrow> bool" where
  "rb_fits t ps \<longleftrightarrow> (ps = [] \<or> parent_color (hd ps) = RB_RED \<longrightarrow> rb_color_of t = RB_BLACK)"

lemma color_cases: "c \<noteq> RB_RED \<longleftrightarrow> c = RB_BLACK" "c \<noteq> RB_BLACK \<longleftrightarrow> c = RB_RED"
  by (cases c; simp)+

lemma up_inv: "\<lbrakk>rb_ok t; path_ok (bheight t) ps; rb_fits t ps\<rbrakk> \<Longrightarrow> rb_inv (rb_up t ps)"
proof (induction ps arbitrary: t)
  case (Cons p ps)
  have "rb_ok (rb_up1 t p)" "path_ok (bheight (rb_up1 t p)) ps" "rb_fits (rb_up1 t p) ps"
    using Cons.prems by (cases p; auto simp: rb_fits_def color_cases split: if_splits)+
  then show ?case using Cons.IH by simp
qed (simp add: rb_inv_def rb_fits_def)

lemma rb_ok_set_black [simp]: "rb_ok t \<Longrightarrow> rb_ok (rb_set_color RB_BLACK t)"
  by (cases t) auto

lemma color_of_set_black [simp]: "rb_color_of (rb_set_color RB_BLACK t) = RB_BLACK"
  by (cases t) auto

lemma bheight_set_black [simp]:
  "rb_color_of t = RB_RED \<Longrightarrow> bheight (rb_set_color RB_BLACK t) = Suc (bheight t)"
  by (cases t) auto

lemma set_black_id: "rb_color_of t = RB_BLACK \<Longrightarrow> rb_set_color RB_BLACK t = t"
  by (cases t) auto

lemma up_inv_black: "\<lbrakk>rb_ok t; path_ok (bheight t) ps; rb_fits t ps\<rbrakk> \<Longrightarrow> rb_inv (rb_set_color RB_BLACK (rb_up t ps))"
  using up_inv [of t ps] by (simp add: rb_inv_def)

text \<open>Insertion: a red node of intact black height; only the edge to a red parent may be wrong.\<close>

lemma insert_color_inv:
  "\<lbrakk>rb_ok t; rb_color_of t = RB_RED; path_ok (bheight t) ps\<rbrakk> \<Longrightarrow> \<exists>t'. rb_insert_color t ps = Some t' \<and> rb_inv t'"
proof (induction t ps rule: rb_insert_color.induct)
  case (1 t)
  then show ?case by (simp add: rb_inv_def)
next
  case (2 t p)
  then show ?case by (cases p) (auto simp: rb_inv_def color_cases)
next
  case (3 t p g ps)
  show ?case
  proof (cases "parent_color p = RB_RED")
    case False
    then show ?thesis using 3(3-) up_inv_black [of t "p # g # ps"] by (auto simp: rb_fits_def)
  next
    case True
    from 3(4) obtain a x b where t: "t = RbNode RB_RED a x b" by (cases t) auto
    show ?thesis
    proof (cases g)
      case (IsLeft gc gk uncle)
      show ?thesis
      proof (cases "rb_color_of uncle = RB_RED")
        case True
        then show ?thesis
          using 3 \<open>parent_color p = RB_RED\<close> IsLeft by (cases p) (auto simp: t color_cases)
      next
        case False
        then show ?thesis
          using 3(3-) \<open>parent_color p = RB_RED\<close> IsLeft
          by (cases p) (auto simp: t Let_def rb_fits_def color_cases intro!: up_inv_black)
      qed
    next
      case (IsRight gc gk uncle)
      show ?thesis
      proof (cases "rb_color_of uncle = RB_RED")
        case True
        then show ?thesis
          using 3 \<open>parent_color p = RB_RED\<close> IsRight by (cases p) (auto simp: t color_cases)
      next
        case False
        then show ?thesis
          using 3(3-) \<open>parent_color p = RB_RED\<close> IsRight
          by (cases p) (auto simp: t Let_def rb_fits_def color_cases intro!: up_inv_black)
      qed
    qed
  qed
qed

text \<open>
  Removal: the cursor's subtree is one black node short; it is well formed up to a red root with
  a red child.
\<close>

definition short_ok :: "'a rb_node \<Rightarrow> 'a rb_parent list \<Rightarrow> bool" where
  "short_ok t ps \<longleftrightarrow> rb_ok (rb_set_color RB_BLACK t) \<and> (rb_color_of t = RB_BLACK \<longrightarrow> rb_ok t) \<and>
     path_ok (Suc (bheight t)) ps"

lemma erase_case_left_inv:
  assumes "rb_ok t" "rb_color_of t = RB_BLACK" "path_ok (Suc (bheight t)) (IsLeft pc pk s # ps)" "rb_color_of s = RB_BLACK"
  shows "case erase_case_left t pc pk s ps of Inl (t', ps') \<Rightarrow> short_ok t' ps' | Inr root \<Rightarrow> rb_inv root"
proof -
  obtain sl sk sr where s: "s = RbNode RB_BLACK sl sk sr"
    using assms by (cases s) auto
  show ?thesis
  proof (cases "rb_color_of sl = RB_BLACK \<and> rb_color_of sr = RB_BLACK")
    case True
    then show ?thesis using assms by (auto simp: s erase_case_left_def short_ok_def color_cases)
  next
    case False
    note no_both = False
    show ?thesis
    proof (cases "rb_color_of sr = RB_BLACK")
      case True
      then obtain a x b where "sl = RbNode RB_RED a x b" using no_both by (cases sl) (auto simp: color_cases)
      then show ?thesis using assms True
        by (cases sr) (auto simp: s erase_case_left_def rb_fits_def color_cases intro!: up_inv_black)
    next
      case False
      then obtain a x b where "sr = RbNode RB_RED a x b" by (cases sr) (auto simp: color_cases)
      then show ?thesis using assms
        by (auto simp: s erase_case_left_def rb_fits_def color_cases intro!: up_inv_black)
    qed
  qed
qed

lemma erase_case_right_inv:
  assumes "rb_ok t" "rb_color_of t = RB_BLACK" "path_ok (Suc (bheight t)) (IsRight pc pk s # ps)" "rb_color_of s = RB_BLACK"
  shows "case erase_case_right t pc pk s ps of Inl (t', ps') \<Rightarrow> short_ok t' ps' | Inr root \<Rightarrow> rb_inv root"
proof -
  obtain sl sk sr where s: "s = RbNode RB_BLACK sl sk sr"
    using assms by (cases s) auto
  show ?thesis
  proof (cases "rb_color_of sr = RB_BLACK \<and> rb_color_of sl = RB_BLACK")
    case True
    then show ?thesis using assms by (auto simp: s erase_case_right_def short_ok_def color_cases)
  next
    case False
    note no_both = False
    show ?thesis
    proof (cases "rb_color_of sl = RB_BLACK")
      case True
      then obtain a x b where "sr = RbNode RB_RED a x b" using no_both by (cases sr) (auto simp: color_cases)
      then show ?thesis using assms True
        by (cases sl) (auto simp: s erase_case_right_def rb_fits_def color_cases intro!: up_inv_black)
    next
      case False
      then obtain a x b where "sl = RbNode RB_RED a x b" by (cases sl) (auto simp: color_cases)
      then show ?thesis using assms
        by (auto simp: s erase_case_right_def rb_fits_def color_cases intro!: up_inv_black)
    qed
  qed
qed

lemma erase_round_inv:
  assumes "short_ok t (p # ps)" "rb_color_of t = RB_BLACK"
  shows "case erase_round t p ps of Inl (t', ps') \<Rightarrow> short_ok t' ps' | Inr root \<Rightarrow> rb_inv root"
proof -
  have t: "rb_ok t" "path_ok (Suc (bheight t)) (p # ps)" using assms by (auto simp: short_ok_def)
  show ?thesis
  proof (cases p)
    case (IsLeft pc pk s)
    then show ?thesis
      using t assms(2) erase_case_left_inv [OF t(1) assms(2)]
      by (auto simp: erase_round_def color_cases split: rb_node.split rb_color.split)
  next
    case (IsRight pc pk s)
    then show ?thesis
      using t assms(2) erase_case_right_inv [OF t(1) assms(2)]
      by (auto simp: erase_round_def color_cases split: rb_node.split rb_color.split)
  qed
qed

lemma erase_fixup_inv: "short_ok t ps \<Longrightarrow> rb_inv (rb_erase_fixup t ps)"
proof (induction t ps rule: rb_erase_fixup.induct)
  case (1 t)
  then show ?case by (simp add: short_ok_def rb_inv_def)
next
  case (2 t p ps)
  show ?case
  proof (cases "rb_color_of t = RB_BLACK")
    case True
    then show ?thesis
      using 2 erase_round_inv [OF 2(2) True] by (auto split: sum.splits prod.splits)
  next
    case False
    then have "rb_color_of t = RB_RED" by (simp add: color_cases)
    then show ?thesis
      using 2(2) up_inv [of "rb_set_color RB_BLACK t" "p # ps"] by (simp add: short_ok_def rb_fits_def)
  qed
qed

text \<open>Moving the cursor down keeps the path in order.\<close>

definition rb_at :: "'a rb_node \<Rightarrow> 'a rb_parent list \<Rightarrow> bool" where
  "rb_at t ps \<longleftrightarrow> rb_ok t \<and> path_ok (bheight t) ps \<and> rb_fits t ps"

lemma at_root: "rb_at t [] \<longleftrightarrow> rb_inv t"
  by (auto simp: rb_at_def rb_inv_def rb_fits_def)

lemma at_left: "rb_at (RbNode c l k r) ps \<Longrightarrow> rb_at l (IsLeft c k r # ps)"
  and at_right: "rb_at (RbNode c l k r) ps \<Longrightarrow> rb_at r (IsRight c k l # ps)"
  by (auto simp: rb_at_def rb_fits_def color_cases)

lemma cursor_at: "\<lbrakk>rb_cursor x t ps = Some (t', ps'); rb_at t ps\<rbrakk> \<Longrightarrow> rb_at t' ps'"
  by (induction x t ps rule: rb_cursor.induct)
     (auto split: if_splits option.splits dest: at_left at_right)

lemma min_cursor_at: "\<lbrakk>min_cursor t ps = (t', ps'); rb_at t ps\<rbrakk> \<Longrightarrow> rb_at t' ps'"
  by (induction t ps rule: min_cursor.induct) (auto dest: at_left)

lemma min_cursor_append: "min_cursor t ps = (m, mps) \<Longrightarrow> min_cursor t (ps @ qs) = (m, mps @ qs)"
  by (induction t ps rule: min_cursor.induct) auto

lemma path_ok_elem:
  "path_ok n (mps @ IsRight c k l # ps) \<longleftrightarrow> path_ok n (mps @ IsRight c k' l # ps)"
  "rb_fits t (mps @ IsRight c k l # ps) \<longleftrightarrow> rb_fits t (mps @ IsRight c k' l # ps)"
proof -
  show "path_ok n (mps @ IsRight c k l # ps) \<longleftrightarrow> path_ok n (mps @ IsRight c k' l # ps)"
  proof (induction mps arbitrary: n)
    case (Cons p mps)
    have "parent_color (hd (mps @ IsRight c k l # ps)) = parent_color (hd (mps @ IsRight c k' l # ps))"
      by (cases mps) auto
    with Cons show ?case by simp
  qed simp
  show "rb_fits t (mps @ IsRight c k l # ps) \<longleftrightarrow> rb_fits t (mps @ IsRight c k' l # ps)"
    by (cases mps) (auto simp: rb_fits_def)
qed

text \<open>A node with one missing child leaves by splicing in the other child.\<close>

lemma splice_inv:
  assumes "rb_at (RbNode c l k r) ps" "l = RbNil \<and> t = r \<or> r = RbNil \<and> t = l"
  shows "rb_inv (if c = RB_BLACK then rb_erase_fixup t ps else rb_up t ps)"
proof (cases "c = RB_BLACK")
  case True
  then have "short_ok t ps" using assms by (auto simp: rb_at_def short_ok_def)
  then show ?thesis using True erase_fixup_inv by simp
next
  case False
  then have "rb_color_of t = RB_BLACK" "rb_ok t" "path_ok (bheight t) ps"
    using assms by (auto simp: rb_at_def color_cases)
  then show ?thesis using False up_inv [of t ps] by (simp add: rb_fits_def)
qed

lemma erase_at_inv:
  assumes "rb_at (RbNode c l k r) ps"
  shows "rb_inv (erase_at (RbNode c l k r) ps)"
proof (cases "l = RbNil \<or> r = RbNil")
  case True
  then show ?thesis
    using splice_inv [OF assms] by (auto simp: erase_at_def)
next
  case False
  obtain m mps where m: "min_cursor r [] = (m, mps)" by fastforce
  obtain mc mk mr where mn: "m = RbNode mc RbNil mk mr"
    using False m min_cursor_Nil [of r "[]"] min_cursor_leftmost [of r "[]"] by (cases m) auto
  have "rb_at m (mps @ IsRight c k l # ps)"
    using min_cursor_at [OF min_cursor_append [OF m, of "IsRight c k l # ps", simplified]] at_right [OF assms]
    by simp
  then have "rb_at m (mps @ IsRight c mk l # ps)" by (simp add: rb_at_def path_ok_elem [of _ _ _ k _ _ mk])
  then have "rb_inv (if mc = RB_BLACK then rb_erase_fixup mr (mps @ IsRight c mk l # ps)
      else rb_up mr (mps @ IsRight c mk l # ps))"
    using splice_inv [of mc RbNil mk mr] mn by blast
  then show ?thesis using False m mn by (simp add: erase_at_def Let_def)
qed

lemma erase_inv: "rb_inv t \<Longrightarrow> rb_inv (rb_erase x t)"
  using cursor_at [of x t "[]"] cursor_node [of x t "[]"] erase_at_inv
  by (fastforce simp: rb_erase_def at_root split: option.splits)

lemma rb_inv_Nil [simp]: "rb_inv RbNil"
  by (simp add: rb_inv_def)

text \<open>A new red leaf at a vacant link.\<close>

lemma link_inv:
  assumes "rb_at RbNil ps"
  shows "\<exists>t. rb_insert_color (rb_link_node k) ps = Some t \<and> rb_inv t \<and> inorder t = rb_before ps @ k # rb_after ps"
proof -
  have "path_ok 0 ps" using assms by (simp add: rb_at_def)
  then obtain t where "rb_insert_color (rb_link_node k) ps = Some t" "rb_inv t"
    using insert_color_inv [of "rb_link_node k" ps] by (auto simp: rb_link_node_def)
  then show ?thesis using inorder_insert_color by (fastforce simp: rb_link_node_def)
qed

subsection \<open>Traversal\<close>

lemma minimum_inorder: "rb_minimum t = (case inorder t of [] \<Rightarrow> None | x # xs \<Rightarrow> Some x)"
  by (induction t rule: rb_minimum.induct) (auto simp: append_eq_Cons_conv split: list.splits)

lemma maximum_inorder: "rb_maximum t = (if inorder t = [] then None else Some (last (inorder t)))"
  by (induction t rule: rb_maximum.induct) auto

lemma climb_next_after: "climb_next ps = (case rb_after ps of [] \<Rightarrow> None | x # xs \<Rightarrow> Some x)"
  by (induction ps rule: climb_next.induct) auto

lemma climb_prev_before: "climb_prev ps = (if rb_before ps = [] then None else Some (last (rb_before ps)))"
  by (induction ps rule: climb_prev.induct) auto

lemma inorder_Nil_iff [simp]: "inorder t = [] \<longleftrightarrow> t = RbNil"
  by (cases t) auto

lemma next_inorder:
  assumes "distinct (inorder t)" "inorder t = xs @ x # ys"
  shows "rb_next x t = (case ys of [] \<Rightarrow> None | y # _ \<Rightarrow> Some y)"
proof -
  have "x \<in> set (inorder t)" using assms by simp
  from cursor_found [OF this] obtain c l r ps where z: "rb_cursor x t [] = Some (RbNode c l x r, ps)"
    "inorder t = rb_before ps @ inorder l @ x # inorder r @ rb_after ps" .
  then have "inorder r @ rb_after ps = ys"
    using assms append_Cons_eq_iff [of x "rb_before ps @ inorder l" "inorder r @ rb_after ps" xs ys]
    by (metis append_assoc distinct_append not_distinct_conv_prefix distinct.simps(2))
  then show ?thesis
    by (auto simp: rb_next_def z(1) minimum_inorder climb_next_after split: list.splits)
qed

lemma prev_inorder:
  assumes "distinct (inorder t)" "inorder t = xs @ x # ys"
  shows "rb_prev x t = (if xs = [] then None else Some (last xs))"
proof -
  have "x \<in> set (inorder t)" using assms by simp
  from cursor_found [OF this] obtain c l r ps where z: "rb_cursor x t [] = Some (RbNode c l x r, ps)"
    "inorder t = rb_before ps @ inorder l @ x # inorder r @ rb_after ps" .
  then have "rb_before ps @ inorder l = xs"
    using assms append_Cons_eq_iff [of x "rb_before ps @ inorder l" "inorder r @ rb_after ps" xs ys]
    by (metis append_assoc distinct_append not_distinct_conv_prefix distinct.simps(2))
  then show ?thesis
    by (auto simp: rb_prev_def z(1) maximum_inorder climb_prev_before)
qed

subsection \<open>Height\<close>

fun rb_height :: "'a rb_node \<Rightarrow> nat" where
  "rb_height RbNil = 0"
| "rb_height (RbNode c l k r) = Suc (max (rb_height l) (rb_height r))"

lemma height_bheight: "rb_ok t \<Longrightarrow> rb_height t \<le> 2 * bheight t + (if rb_color_of t = RB_RED then 1 else 0)"
  by (induction t) (auto simp: color_cases split: if_splits)

lemma size_bheight: "rb_ok t \<Longrightarrow> 2 ^ bheight t \<le> length (inorder t) + 1"
  by (induction t) (auto simp: color_cases)

lemma height_log:
  assumes "rb_inv t"
  shows "2 ^ (rb_height t div 2) \<le> length (inorder t) + 1"
proof -
  have "rb_height t div 2 \<le> bheight t"
    using assms height_bheight [of t] by (simp add: rb_inv_def)
  then have "(2 :: nat) ^ (rb_height t div 2) \<le> 2 ^ bheight t" by (simp add: power_increasing)
  also have "\<dots> \<le> length (inorder t) + 1"
    using assms size_bheight by (auto simp: rb_inv_def)
  finally show ?thesis .
qed

end
