(* ===== verification/Tcp_Ofo_Spec.thy ===== *)
theory Tcp_Ofo_Spec
  imports Tcp_Ofo Rbtree_Spec
begin

text \<open>
  What the out-of-order queue promises a receiver whose peer sends one byte stream. \<open>T\<close> is the
  peer's stream from the receive point on. The invariant \<open>ofo_ok\<close> says that the queue holds pieces
  of \<open>T\<close> at their places, in order and disjoint, a FIN only at the end of \<open>T\<close>, that the tree
  indexes exactly the queue, and that the counters are exact.
\<close>

subsection \<open>Comparisons inside a window\<close>

lemma ofo_lt_off:
  "\<lbrakk>seq_off b x < HALF; seq_off b y < HALF\<rbrakk> \<Longrightarrow> tcp_ofo_seq_lt x y \<longleftrightarrow> seq_off b x < seq_off b y"
  by (rule ofo_sq.lt_window) (simp_all add: in_half_def)

lemma ofo_gt_off:
  assumes "seq_off b x < HALF" "seq_off b y < HALF"
  shows "tcp_ofo_seq_gt x y \<longleftrightarrow> seq_off b y < seq_off b x"
    and "tcp_ofo_seq_leq x y \<longleftrightarrow> seq_off b x \<le> seq_off b y"
proof -
  have "sint (x - y) = 0 \<longleftrightarrow> x = y" by (metis right_minus_eq signed_0 signed_word_eqI)
  then have leq: "tcp_ofo_seq_leq x y \<longleftrightarrow> tcp_ofo_seq_lt x y \<or> x = y"
    unfolding tcp_ofo_seq_leq_def tcp_ofo_seq_lt_def by linarith
  show l: "tcp_ofo_seq_leq x y \<longleftrightarrow> seq_off b x \<le> seq_off b y"
    using assms leq by (simp add: ofo_lt_off [of b] seq_off_inj [of b, symmetric] le_less)
  have "tcp_ofo_seq_gt x y \<longleftrightarrow> \<not> tcp_ofo_seq_leq x y"
    unfolding tcp_ofo_seq_leq_def tcp_ofo_seq_gt_def by linarith
  with l show "tcp_ofo_seq_gt x y \<longleftrightarrow> seq_off b y < seq_off b x" by linarith
qed

lemmas ofo_cmp = ofo_lt_off ofo_gt_off

subsection \<open>Queues of stream pieces\<close>

abbreviation slen :: "tcp_ofo_seg \<Rightarrow> nat" where "slen s \<equiv> unat (seg_len s)"

text \<open>The payload of a segment, and its extent in the order of the queue: a bare FIN counts one.\<close>

definition seg_bytes :: "tcp_ofo_seg \<Rightarrow> byte list" where
  "seg_bytes s = take (slen s) (drop (unat (seg_data_off s)) (seg_data s))"

definition piece_ok :: "u32 \<Rightarrow> byte list \<Rightarrow> nat \<Rightarrow> tcp_ofo_seg \<Rightarrow> bool" where
  "piece_ok b T hi s \<longleftrightarrow>
     seq_off b (seg_seq s) + slen s \<le> min hi (length T) \<and>
     (0 < slen s \<or> seg_has_fin s) \<and> (seg_has_fin s \<longrightarrow> seq_off b (seg_seq s) + slen s = length T) \<and>
     length (seg_data s) = unat (seg_data_off s) + slen s \<and> length (seg_data s) \<le> 2048 \<and>
     seg_bytes s = take (slen s) (drop (seq_off b (seg_seq s)) T)"

fun queue_ok :: "u32 \<Rightarrow> byte list \<Rightarrow> nat \<Rightarrow> nat \<Rightarrow> tcp_ofo_seg list \<Rightarrow> bool" where
  "queue_ok b T hi lo [] \<longleftrightarrow> True"
| "queue_ok b T hi lo (s # ss) \<longleftrightarrow>
     lo \<le> seq_off b (seg_seq s) \<and> piece_ok b T hi s \<and>
     queue_ok b T hi (seq_off b (seg_seq s) + max 1 (slen s)) ss"

definition queue_end :: "u32 \<Rightarrow> nat \<Rightarrow> tcp_ofo_seg list \<Rightarrow> nat" where
  "queue_end b lo segs = (if segs = [] then lo
     else seq_off b (seg_seq (last segs)) + max 1 (slen (last segs)))"

lemma queue_end_Cons [simp]:
  "queue_end b lo (s # ss) = queue_end b (seq_off b (seg_seq s) + max 1 (slen s)) ss"
  by (simp add: queue_end_def)

lemma queue_end_Nil [simp]: "queue_end b lo [] = lo"
  by (simp add: queue_end_def)

lemma queue_ok_append:
  "queue_ok b T hi lo (xs @ ys) \<longleftrightarrow> queue_ok b T hi lo xs \<and> queue_ok b T hi (queue_end b lo xs) ys"
  by (induction xs arbitrary: lo) auto

lemma queue_ok_mono: "queue_ok b T hi lo ss \<Longrightarrow> lo' \<le> lo \<Longrightarrow> queue_ok b T hi lo' ss"
  by (cases ss) auto

lemma queue_ok_piece: "queue_ok b T hi lo ss \<Longrightarrow> s \<in> set ss \<Longrightarrow> piece_ok b T hi s \<and> lo \<le> seq_off b (seg_seq s)"
  by (induction ss arbitrary: lo) fastforce+

lemma queue_ok_end: "queue_ok b T hi lo ss \<Longrightarrow> s \<in> set ss \<Longrightarrow> seq_off b (seg_seq s) + max 1 (slen s) \<le> queue_end b lo ss"
proof (induction ss arbitrary: lo)
  case (Cons t ss)
  have "seq_off b (seg_seq t) + max 1 (slen t) \<le> queue_end b (seq_off b (seg_seq t) + max 1 (slen t)) ss"
    using Cons.prems(1) queue_ok_piece [of b T hi "seq_off b (seg_seq t) + max 1 (slen t)" ss "last ss"]
    by (auto simp: queue_end_def)
  then show ?case using Cons by auto
qed simp

lemma piece_half: "\<lbrakk>piece_ok b T hi s; hi < HALF\<rbrakk> \<Longrightarrow> seq_off b (seg_seq s) < HALF"
  by (auto simp: piece_ok_def)

lemma seg_end_off:
  assumes "piece_ok b T hi s" "hi < HALF"
  shows "seq_off b (seg_end s) = seq_off b (seg_seq s) + slen s" "seq_off b (seg_end s) < HALF"
proof -
  have "seq_off b (seg_seq s) + slen s < HALF" using assms by (simp add: piece_ok_def)
  then show "seq_off b (seg_end s) = seq_off b (seg_seq s) + slen s" "seq_off b (seg_end s) < HALF"
    using seq_off_add [of b "seg_seq s" "seg_len s"] by (simp_all add: seg_end_def)
qed

lemma queue_ok_sorted: "queue_ok b T hi lo ss \<Longrightarrow> sorted_wrt (\<lambda>s t. seq_off b (seg_seq s) < seq_off b (seg_seq t)) ss"
proof (induction ss arbitrary: lo)
  case (Cons s ss)
  then have "seq_off b (seg_seq s) < seq_off b (seg_seq t)" if "t \<in> set ss" for t
    using queue_ok_piece [of b T hi _ ss t] that by fastforce
  then show ?case using Cons by auto
qed simp

lemma queue_ok_distinct: "queue_ok b T hi lo ss \<Longrightarrow> distinct (map ofo_ref ss)"
proof -
  assume q: "queue_ok b T hi lo ss"
  have "sorted_wrt (\<lambda>s t. ofo_ref s \<noteq> ofo_ref t) ss"
    by (rule sorted_wrt_mono_rel [OF _ queue_ok_sorted [OF q]]) (auto simp: ofo_ref_def)
  then show ?thesis by (induction ss) auto
qed

subsection \<open>Searching\<close>

text \<open>The tree search finds the first element at or after the key, if the elements are in order.\<close>

lemma takeWhile_split:
  "\<not> P k \<Longrightarrow> takeWhile P (xs @ k # ys) = takeWhile P xs"
  "\<not> P k \<Longrightarrow> dropWhile P (xs @ k # ys) = dropWhile P xs @ k # ys"
  by (induction xs) auto

lemma lower_bound_drop:
  "sorted_wrt (\<lambda>x y. tcp_ofo_seq_lt (fst y) seq \<longrightarrow> tcp_ofo_seq_lt (fst x) seq) (inorder t) \<Longrightarrow>
   lower_bound_loop t seq res =
     (case dropWhile (\<lambda>k. tcp_ofo_seq_lt (fst k) seq) (inorder t) of k # _ \<Rightarrow> Some k | [] \<Rightarrow> res)"
proof (induction t seq res rule: lower_bound_loop.induct)
  case (2 c l k r seq res)
  show ?case
  proof (cases "tcp_ofo_seq_lt (fst k) seq")
    case True
    then have "\<forall>x \<in> set (inorder l). tcp_ofo_seq_lt (fst x) seq"
      using 2(3) by (auto simp: sorted_wrt_append)
    then show ?thesis using 2 True by (simp add: sorted_wrt_append dropWhile_append2)
  next
    case False
    then show ?thesis
      using 2 by (cases "dropWhile (\<lambda>k. tcp_ofo_seq_lt (fst k) seq) (inorder l)")
        (auto simp: sorted_wrt_append takeWhile_split)
  qed
qed simp

lemma insert_link_at: "rb_at t ps \<Longrightarrow> rb_at RbNil (insert_link seq t ps)"
  by (induction seq t ps rule: insert_link.induct) (auto dest: at_left at_right)

lemma insert_link_inorder:
  "sorted_wrt (\<lambda>x y. tcp_ofo_seq_lt seq (fst x) \<longrightarrow> tcp_ofo_seq_lt seq (fst y)) (inorder t) \<Longrightarrow>
   rb_before (insert_link seq t ps) = rb_before ps @ takeWhile (\<lambda>k. \<not> tcp_ofo_seq_lt seq (fst k)) (inorder t) \<and>
   rb_after (insert_link seq t ps) = dropWhile (\<lambda>k. \<not> tcp_ofo_seq_lt seq (fst k)) (inorder t) @ rb_after ps"
proof (induction seq t ps rule: insert_link.induct)
  case (2 seq c l k r ps)
  show ?case
  proof (cases "tcp_ofo_seq_lt seq (fst k)")
    case True
    then show ?thesis using 2 by (simp add: sorted_wrt_append takeWhile_split)
  next
    case False
    then have "\<forall>x \<in> set (inorder l). \<not> tcp_ofo_seq_lt seq (fst x)"
      using 2(3) by (auto simp: sorted_wrt_append)
    then show ?thesis using 2 False by (simp add: sorted_wrt_append takeWhile_append2 dropWhile_append2)
  qed
qed simp

lemma tree_insert_ok:
  assumes "rb_inv t" "sorted_wrt (\<lambda>x y. tcp_ofo_seq_lt (seg_seq s) (fst x) \<longrightarrow> tcp_ofo_seq_lt (seg_seq s) (fst y)) (inorder t)"
  shows "rb_inv (tcp_ofo_tree_insert t s) \<and> inorder (tcp_ofo_tree_insert t s) =
    takeWhile (\<lambda>k. \<not> tcp_ofo_seq_lt (seg_seq s) (fst k)) (inorder t) @ ofo_ref s #
    dropWhile (\<lambda>k. \<not> tcp_ofo_seq_lt (seg_seq s) (fst k)) (inorder t)"
proof -
  have "rb_at RbNil (insert_link (seg_seq s) t [])"
    using assms(1) by (intro insert_link_at) (simp add: at_root)
  from link_inv [OF this, of "ofo_ref s"] insert_link_inorder [OF assms(2), of "[]"]
  show ?thesis by (auto simp: tcp_ofo_tree_insert_def)
qed

subsection \<open>The invariant\<close>

definition ofo_total :: "tcp_ofo_seg list \<Rightarrow> nat" where
  "ofo_total segs = sum_list (map slen segs)"

lemma ofo_total_simps [simp]:
  "ofo_total [] = 0" "ofo_total (s # ss) = slen s + ofo_total ss"
  "ofo_total (xs @ ys) = ofo_total xs + ofo_total ys"
  by (simp_all add: ofo_total_def)

definition index_ok :: "tcp_stream \<Rightarrow> bool" where
  "index_ok tp \<longleftrightarrow> rb_inv (ofo_tree tp) \<and> inorder (ofo_tree tp) = map ofo_ref (ofo tp)"

text \<open>\<open>n\<close> is the number of delivered bytes the application has not read yet.\<close>

definition counts_ok :: "nat \<Rightarrow> tcp_stream \<Rightarrow> bool" where
  "counts_ok n tp \<longleftrightarrow> unat (ofo_count tp) = length (ofo tp) \<and> length (ofo tp) \<le> TCP_OFO_MAX_SEGS \<and>
     unat (ofo_bytes tp) = ofo_total (ofo tp) \<and> unat (rcvbuf_used tp) = n + ofo_total (ofo tp) \<and>
     rcvbuf_used tp \<le> rcvbuf_size tp \<and> unat (rcvbuf_size tp) < HALF"

definition ofo_ok :: "u32 \<Rightarrow> byte list \<Rightarrow> nat \<Rightarrow> tcp_stream \<Rightarrow> bool" where
  "ofo_ok b T n tp \<longleftrightarrow>
     queue_ok b T (unat (rcvbuf_size tp)) 0 (ofo tp) \<and> index_ok tp \<and> counts_ok n tp"

text \<open>What the queue operations leave alone.\<close>

definition ofo_frame :: "tcp_stream \<Rightarrow> tcp_stream \<Rightarrow> bool" where
  "ofo_frame tp tp' \<longleftrightarrow>
     tp' = tp\<lparr>ofo_tree := ofo_tree tp', ofo := ofo tp', ofo_count := ofo_count tp', ofo_bytes := ofo_bytes tp',
              ofo_reorder_distance_peak := ofo_reorder_distance_peak tp', rcvbuf_used := rcvbuf_used tp'\<rparr>"

lemma ofo_frame_refl [simp]: "ofo_frame tp tp"
  by (simp add: ofo_frame_def)

lemma ofo_frame_trans: "ofo_frame tp tp' \<Longrightarrow> ofo_frame tp' tp'' \<Longrightarrow> ofo_frame tp tp''"
  by (cases tp; cases tp'; cases tp'') (simp add: ofo_frame_def)

lemma ofo_frame_fields:
  assumes "ofo_frame tp tp'"
  shows "recv_ack tp' = recv_ack tp" "rcvbuf_size tp' = rcvbuf_size tp" "rx_queue tp' = rx_queue tp"
    "rx_current tp' = rx_current tp" "peer_eof tp' = peer_eof tp" "status tp' = status tp"
  using assms by (cases tp; cases tp'; simp add: ofo_frame_def)+

subsection \<open>Admission\<close>

lemma effective_limits_max:
  assumes "tcp_ofo_effective_limits mp mem st d = (limits, st')"
  shows "lim_segments limits \<le> 32" "lim_bytes limits \<le> TCP_OFO_MAX_BYTES"
  using assms by (auto simp: tcp_ofo_effective_limits_def Let_def word_le_nat_alt split: if_splits)

lemma admit_same: "w_tp (snd (ofo_admit mp w seq data has_fin before)) = w_tp w"
  "w_mem (snd (ofo_admit mp w seq data has_fin before)) = w_mem w"
  by (simp_all add: ofo_admit_def Let_def split: prod.split option.split)

lemma len_word:
  "length data < HALF \<Longrightarrow> unat (of_nat (length data) :: u32) = length data"
  "length data < HALF \<Longrightarrow> (of_nat (length data) :: u32) = 0 \<longleftrightarrow> data = []"
proof -
  assume "length data < HALF"
  then show *: "unat (of_nat (length data) :: u32) = length data" by (simp add: unat_of_nat)
  show "(of_nat (length data) :: u32) = 0 \<longleftrightarrow> data = []" unfolding zero_iff_unat * by simp
qed

lemma refusal_None:
  assumes "link_refusal tp limits st (of_nat (length data)) = None" "length data < HALF"
    and "lim_segments limits \<le> 32" "lim_bytes limits \<le> TCP_OFO_MAX_BYTES"
  shows "length data \<le> unat (tcp_ofo_rcv_wnd tp)" "length data \<le> 2048" "unat (ofo_count tp) < 32"
    "unat (ofo_bytes tp) + length data < HALF"
proof -
  note r = assms(1) [unfolded link_refusal_def]
  show "length data \<le> unat (tcp_ofo_rcv_wnd tp)" "length data \<le> 2048"
    using r by (auto simp: word_less_nat_alt len_word [OF assms(2)] split: if_splits)
  have "unat (ucast (ofo_count tp) :: u32) = unat (ofo_count tp)"
    using unat_u16_lt [of "ofo_count tp"] by (simp add: unsigned_ucast_eq take_bit_nat_eq_self)
  then show "unat (ofo_count tp) < 32"
    using r assms(3) by (auto simp: word_le_nat_alt not_le split: if_splits)
  have "\<not> lim_bytes limits < ofo_bytes tp" "\<not> lim_bytes limits - ofo_bytes tp < of_nat (length data)"
    using r by (auto split: if_splits)
  then show "unat (ofo_bytes tp) + length data < HALF"
    using assms(4) by (simp add: word_less_nat_alt word_le_nat_alt unat_sub len_word [OF assms(2)])
qed

lemma admit_code:
  assumes "fst (ofo_admit mp w seq data has_fin before) = Inl rc" "length data < HALF"
  shows "rc = - 1 \<or> rc = 0 \<and> (data = [] \<and> \<not> has_fin \<or> map_option seg_seq before = Some seq)"
  using assms(1) by (auto simp: ofo_admit_def Let_def len_word [OF assms(2)] split: prod.splits if_splits option.splits)

lemma admit_admitted:
  assumes "fst (ofo_admit mp w seq data has_fin before) = Inr d" "length data < HALF"
  shows "data \<noteq> [] \<or> has_fin" "map_option seg_seq before \<noteq> Some seq"
    "length data \<le> unat (tcp_ofo_rcv_wnd (w_tp w))" "length data \<le> 2048" "unat (ofo_count (w_tp w)) < 32"
    "unat (ofo_bytes (w_tp w)) + length data < HALF"
proof -
  have a: "\<not> (data = [] \<and> \<not> has_fin)" "map_option seg_seq before \<noteq> Some seq"
    using assms(1) by (auto simp: ofo_admit_def len_word [OF assms(2)] split: if_splits)
  then show "data \<noteq> [] \<or> has_fin" "map_option seg_seq before \<noteq> Some seq" by auto
  obtain ep limits st where l: "link_limits mp w seq = (ep, limits, st)" by (cases "link_limits mp w seq") auto
  with a have r: "link_refusal (w_tp w) limits st (of_nat (length data)) = None"
    using assms(1) by (auto simp: ofo_admit_def Let_def len_word [OF assms(2)] split: option.splits if_splits)
  have "lim_segments limits \<le> 32" "lim_bytes limits \<le> TCP_OFO_MAX_BYTES"
    using l effective_limits_max unfolding link_limits_def Let_def by (metis prod.inject surj_pair)+
  from refusal_None [OF r assms(2) this]
  show "length data \<le> unat (tcp_ofo_rcv_wnd (w_tp w))" "length data \<le> 2048" "unat (ofo_count (w_tp w)) < 32"
    "unat (ofo_bytes (w_tp w)) + length data < HALF" .
qed

subsection \<open>Linking one piece\<close>

text \<open>The stream after a segment was linked before \<open>post\<close>.\<close>

definition linked :: "tcp_stream \<Rightarrow> tcp_ofo_seg \<Rightarrow> ofo_ref option \<Rightarrow> u32 \<Rightarrow> tcp_stream" where
  "linked tp seg before d =
     tp\<lparr>ofo_tree := tcp_ofo_tree_insert (ofo_tree tp) seg,
        ofo := tcp_ofo_list_insert_before (ofo tp) seg before,
        ofo_count := ofo_count tp + 1, ofo_bytes := ofo_bytes tp + seg_len seg,
        ofo_reorder_distance_peak := d, rcvbuf_used := rcvbuf_used tp + seg_len seg\<rparr>"

lemma link_cases:
  assumes "tcp_ofo_link mp w seq data has_fin before = (rc, w')" "length data < HALF"
  obtains "w_tp w' = w_tp w" "rc = - 1"
  | "w_tp w' = w_tp w" "rc = 0" "data = [] \<and> \<not> has_fin \<or> map_option seg_seq before = Some seq"
  | d p where "rc = 0" "data \<noteq> [] \<or> has_fin" "map_option seg_seq before \<noteq> Some seq"
      "length data \<le> unat (tcp_ofo_rcv_wnd (w_tp w))" "length data \<le> 2048" "unat (ofo_count (w_tp w)) < 32"
      "unat (ofo_bytes (w_tp w)) + length data < HALF"
      "w_tp w' = linked (w_tp w) \<lparr>seg_ptr = p, seg_seq = seq, seg_len = of_nat (length data), seg_data_off = 0,
         seg_has_fin = has_fin, seg_data = data\<rparr> (map_option ofo_ref before) d"
proof -
  obtain v w1 where a: "ofo_admit mp w seq data has_fin before = (v, w1)" by fastforce
  then have w1: "w_tp w1 = w_tp w" using admit_same(1) [of mp w seq data has_fin before] by simp
  show ?thesis
  proof (cases v)
    case (Inl c)
    then show ?thesis
      using assms a w1 admit_code [of mp w seq data has_fin before c] that(1,2) by (auto simp: tcp_ofo_link_def)
  next
    case (Inr d)
    note adm = admit_admitted [of mp w seq data has_fin before d, OF _ assms(2)]
    obtain ok m where m: "tcp_memory_ofo_seg_alloc mp (w_mem w1) = (ok, m)" by fastforce
    obtain ok' m' where m': "(if (of_nat (length data) :: u32) > 0 then tcp_memory_payload_alloc mp m else (True, m)) = (ok', m')"
      by fastforce
    show ?thesis
    proof (cases "ok \<and> ok'")
      case True
      have "tcp_ofo_link mp w seq data has_fin before = (rc, w') \<Longrightarrow> rc = 0 \<and>
          w_tp w' = linked (w_tp w) \<lparr>seg_ptr = fresh_ptr (ofo (w_tp w)), seg_seq = seq, seg_len = of_nat (length data),
            seg_data_off = 0, seg_has_fin = has_fin, seg_data = data\<rparr> (map_option ofo_ref before) d"
        using True Inr m m' w1 by (auto simp: tcp_ofo_link_def a Let_def linked_def)
      then show ?thesis using assms(1) adm a Inr that(3) by simp
    next
      case False
      then have "rc = - 1" "w_tp w' = w_tp w"
        using assms(1) Inr m m' w1 by (auto simp: tcp_ofo_link_def a Let_def count_drop_alloc_def split: if_splits)
      then show ?thesis using that(1) by blast
    qed
  qed
qed

lemma queue_at:
  assumes "distinct (map ofo_ref (pre @ post))"
  shows "queue_before (pre @ post) (map_option ofo_ref (if post = [] then None else Some (hd post))) = pre"
    "queue_from (pre @ post) (map_option ofo_ref (if post = [] then None else Some (hd post))) = post"
proof -
  have ne: "\<forall>s \<in> set pre. map_option ofo_ref (if post = [] then None else Some (hd post)) \<noteq> Some (ofo_ref s)"
    using assms by (cases post) (auto simp: image_iff)
  show "queue_before (pre @ post) (map_option ofo_ref (if post = [] then None else Some (hd post))) = pre"
    using ne by (cases post) (auto simp: queue_before_def takeWhile_append2 takeWhile_eq_all_conv)
  show "queue_from (pre @ post) (map_option ofo_ref (if post = [] then None else Some (hd post))) = post"
    using ne by (cases post) (auto simp: queue_from_def dropWhile_append2 dropWhile_eq_Nil_conv)
qed

lemma takeWhile_cut:
  "\<forall>x \<in> set xs. P x \<Longrightarrow> \<forall>y \<in> set ys. \<not> P y \<Longrightarrow> takeWhile P (xs @ ys) = xs \<and> dropWhile P (xs @ ys) = ys"
  by (induction xs) (cases ys; simp)+

lemma sorted_cut:
  "\<forall>x \<in> set xs. \<not> P x \<Longrightarrow> \<forall>y \<in> set ys. P y \<Longrightarrow> sorted_wrt (\<lambda>x y. P x \<longrightarrow> P y) (xs @ ys)"
  by (induction xs) (induction ys; simp)+

lemma sorted_cut_rev:
  "\<forall>x \<in> set xs. P x \<Longrightarrow> \<forall>y \<in> set ys. \<not> P y \<Longrightarrow> sorted_wrt (\<lambda>x y. P y \<longrightarrow> P x) (xs @ ys)"
  by (induction xs) (induction ys; simp)+

lemma linked_fields:
  "ofo_tree (linked tp s before d) = tcp_ofo_tree_insert (ofo_tree tp) s"
  "ofo_count (linked tp s before d) = ofo_count tp + 1"
  "ofo_bytes (linked tp s before d) = ofo_bytes tp + seg_len s"
  "rcvbuf_used (linked tp s before d) = rcvbuf_used tp + seg_len s"
  "rcvbuf_size (linked tp s before d) = rcvbuf_size tp"
  by (simp_all add: linked_def)

lemma linked_ok:
  assumes "ofo_ok b T n tp" "ofo tp = pre @ post" "piece_ok b T (unat (rcvbuf_size tp)) s"
    and "queue_end b 0 pre \<le> seq_off b (seg_seq s)"
    and "post \<noteq> [] \<longrightarrow> seq_off b (seg_seq s) + max 1 (slen s) \<le> seq_off b (seg_seq (hd post))"
    and "slen s \<le> unat (tcp_ofo_rcv_wnd tp)" "length (ofo tp) < 32" "unat (ofo_bytes tp) + slen s < HALF"
  shows "ofo_ok b T n (linked tp s (map_option ofo_ref (if post = [] then None else Some (hd post))) d)"
    and "ofo (linked tp s (map_option ofo_ref (if post = [] then None else Some (hd post))) d) = pre @ s # post"
proof -
  let ?x = "seq_off b (seg_seq s)" and ?hi = "unat (rcvbuf_size tp)"
  have q: "queue_ok b T ?hi 0 (pre @ post)" and idx: "rb_inv (ofo_tree tp)" "inorder (ofo_tree tp) = map ofo_ref (pre @ post)"
    and cnt: "counts_ok n tp" using assms(1,2) by (auto simp: ofo_ok_def index_ok_def)
  have hi: "?hi < HALF" using cnt by (simp add: counts_ok_def)
  have new: "ofo (linked tp s (map_option ofo_ref (if post = [] then None else Some (hd post))) d) = pre @ s # post"
    using queue_at [OF queue_ok_distinct [OF q]] assms(2)
    by (simp add: linked_def tcp_ofo_list_insert_before_def)
  then show "ofo (linked tp s (map_option ofo_ref (if post = [] then None else Some (hd post))) d) = pre @ s # post" .
  have q': "queue_ok b T ?hi 0 (pre @ s # post)"
    using q assms(3-5) by (cases post) (auto simp: queue_ok_append)
  have half: "seq_off b (seg_seq t) < HALF" if "t \<in> set (pre @ s # post)" for t
    using queue_ok_piece [OF q' that] piece_half hi by blast
  have srt: "sorted_wrt (\<lambda>s t. seq_off b (seg_seq s) < seq_off b (seg_seq t)) (pre @ s # post)"
    using queue_ok_sorted [OF q'] .
  have pre: "\<not> tcp_ofo_seq_lt (seg_seq s) (seg_seq t)" if "t \<in> set pre" for t
    using that srt half [of s] half [of t] by (auto simp: ofo_lt_off [of b] sorted_wrt_append)
  have post: "tcp_ofo_seq_lt (seg_seq s) (seg_seq t)" if "t \<in> set post" for t
    using that srt half [of s] half [of t] by (auto simp: ofo_lt_off [of b] sorted_wrt_append)
  let ?lt = "\<lambda>k. tcp_ofo_seq_lt (seg_seq s) (fst k)"
  have split: "\<forall>k \<in> set (map ofo_ref pre). \<not> ?lt k" "\<forall>k \<in> set (map ofo_ref post). ?lt k"
    using pre post by (simp_all add: ofo_ref_def)
  have tree: "rb_inv (tcp_ofo_tree_insert (ofo_tree tp) s)"
      "inorder (tcp_ofo_tree_insert (ofo_tree tp) s) = map ofo_ref (pre @ s # post)"
    using tree_insert_ok [OF idx(1), of s] sorted_cut [OF split] takeWhile_cut [of "map ofo_ref pre" "\<lambda>k. \<not> ?lt k"] split
    by (simp_all add: idx(2))
  have wnd: "unat (rcvbuf_used tp) + slen s \<le> unat (rcvbuf_size tp)"
    using assms(6) cnt by (auto simp: tcp_ofo_rcv_wnd_def counts_ok_def word_le_nat_alt unat_sub split: if_splits)
  then have used: "unat (rcvbuf_used tp + seg_len s) = unat (rcvbuf_used tp) + slen s"
    using hi by (simp add: unat_add_u32)
  have cnt': "unat (ofo_count tp + 1) = Suc (length (ofo tp))" "unat (ofo_bytes tp + seg_len s) = unat (ofo_bytes tp) + slen s"
    using assms(7,8) cnt by (simp_all add: counts_ok_def unat_word_ariths)
  show "ofo_ok b T n (linked tp s (map_option ofo_ref (if post = [] then None else Some (hd post))) d)"
    unfolding ofo_ok_def index_ok_def counts_ok_def new linked_fields cnt' used word_le_nat_alt
    using q' tree wnd hi assms(2,7) cnt [unfolded counts_ok_def] by simp
qed

text \<open>A piece of the stream on offer: \<open>data\<close> are the stream's bytes at \<open>seq\<close>.\<close>

definition piece_at :: "u32 \<Rightarrow> byte list \<Rightarrow> nat \<Rightarrow> u32 \<Rightarrow> byte list \<Rightarrow> bool \<Rightarrow> bool" where
  "piece_at b T hi seq data fin \<longleftrightarrow> seq_off b seq + length data \<le> min hi (length T) \<and>
     data = take (length data) (drop (seq_off b seq) T) \<and> (fin \<longrightarrow> seq_off b seq + length data = length T)"

lemma piece_at_drop:
  assumes "piece_at b T hi seq data fin" "k \<le> length data" "seq_off b seq' = seq_off b seq + k"
  shows "piece_at b T hi seq' (drop k data) fin"
proof -
  have "data = take (length data) (drop (seq_off b seq) T)" using assms(1) by (simp add: piece_at_def)
  from arg_cong [OF this, of "drop k"]
  have "drop k data = take (length data - k) (drop (seq_off b seq + k) T)"
    by (simp only: drop_take drop_drop add.commute)
  then show ?thesis using assms by (auto simp: piece_at_def)
qed

lemma piece_at_take:
  assumes "piece_at b T hi seq data fin" "k \<le> length data"
  shows "piece_at b T hi seq (take k data) False"
proof -
  have "data = take (length data) (drop (seq_off b seq) T)" using assms(1) by (simp add: piece_at_def)
  from arg_cong [OF this, of "take k"]
  have "take k data = take k (drop (seq_off b seq) T)"
    using assms(2) by (simp only: take_take min_absorb1)
  then show ?thesis using assms by (auto simp: piece_at_def)
qed

lemma piece_at_bound:
  "piece_at b T hi seq data fin \<Longrightarrow> seq_off b seq + length data \<le> hi' \<Longrightarrow> piece_at b T hi' seq data fin"
  by (simp add: piece_at_def)

lemma piece_at_seg:
  assumes "piece_at b T hi seq data fin" "data \<noteq> [] \<or> fin" "length data \<le> 2048"
  shows "piece_ok b T hi \<lparr>seg_ptr = p, seg_seq = seq, seg_len = of_nat (length data), seg_data_off = 0,
    seg_has_fin = fin, seg_data = data\<rparr>"
proof -
  have "unat (of_nat (length data) :: u32) = length data" using assms(3) by (intro len_word) simp
  then show ?thesis using assms by (auto simp: piece_ok_def piece_at_def seg_bytes_def)
qed

lemma linked_frame: "ofo_frame tp (linked tp s before d)"
  by (simp add: ofo_frame_def linked_def)

lemma link_ok:
  assumes "ofo_ok b T n (w_tp w)" "ofo (w_tp w) = pre @ post"
    and "piece_at b T (unat (rcvbuf_size (w_tp w))) seq data fin"
    and "queue_end b 0 pre \<le> seq_off b seq"
    and "post \<noteq> [] \<longrightarrow> seg_seq (hd post) \<noteq> seq \<longrightarrow> seq_off b seq + max 1 (length data) \<le> seq_off b (seg_seq (hd post))"
    and "tcp_ofo_link mp w seq data fin (if post = [] then None else Some (hd post)) = (rc, w')"
  shows "ofo_ok b T n (w_tp w') \<and> ofo_frame (w_tp w) (w_tp w') \<and>
    (\<exists>pre'. ofo (w_tp w') = pre' @ post \<and> queue_end b 0 pre' \<le> seq_off b seq + max 1 (length data))"
proof -
  have len: "length data < HALF"
    using assms(1,3) by (auto simp: ofo_ok_def counts_ok_def piece_at_def)
  show ?thesis
  proof (rule link_cases [OF assms(6) len], goal_cases)
    case (3 d p)
    let ?s = "\<lparr>seg_ptr = p, seg_seq = seq, seg_len = of_nat (length data), seg_data_off = 0, seg_has_fin = fin, seg_data = data\<rparr>"
    have sl: "slen ?s = length data" using len_word [OF len] by simp
    have "post \<noteq> [] \<longrightarrow> seq_off b seq + max 1 (length data) \<le> seq_off b (seg_seq (hd post))"
      using 3(3) assms(5) by auto
    then have prem: "post \<noteq> [] \<longrightarrow> seq_off b (seg_seq ?s) + max 1 (slen ?s) \<le> seq_off b (seg_seq (hd post))"
      using len_word(1) [OF len] by simp
    have "length (ofo (w_tp w)) < 32" using 3(6) assms(1) by (simp add: ofo_ok_def counts_ok_def)
    then have "ofo_ok b T n (w_tp w') \<and> ofo (w_tp w') = pre @ ?s # post"
      unfolding 3(8) using linked_ok [OF assms(1,2) piece_at_seg [OF assms(3) 3(2,5), of p] _ prem] assms(4) 3(4,7) sl
      by simp
    moreover have "queue_end b 0 (pre @ [?s]) \<le> seq_off b seq + max 1 (length data)"
      using sl by (simp add: queue_end_def)
    moreover have "ofo (w_tp w') = (pre @ [?s]) @ post" using calculation(1) by simp
    ultimately show ?thesis using 3(8) linked_frame by metis
  qed (use assms in \<open>auto intro!: exI [of _ pre]\<close>)
qed

subsection \<open>Insertion\<close>

lemma seq_skip:
  assumes "seq_off b x \<le> seq_off b y"
  shows "unat (y - x) = seq_off b y - seq_off b x"
  using seq_off_diff [OF assms] .

lemma queue_insert_loop_ok:
  assumes "ofo_ok b T n (w_tp w)" "ofo (w_tp w) = pre @ C"
    and "piece_at b T (unat (rcvbuf_size (w_tp w))) seq data fin"
    and "queue_end b 0 pre \<le> seq_off b seq" "data \<noteq> [] \<or> fin"
    and "data = [] \<longrightarrow> C \<noteq> [] \<longrightarrow> seq_off b seq \<le> seq_off b (seg_seq (hd C))"
    and "queue_insert_loop mp w seq data fin C = (rc, w')"
  shows "ofo_ok b T n (w_tp w') \<and> ofo_frame (w_tp w) (w_tp w')"
  using assms
proof (induction C arbitrary: w pre seq data)
  case Nil
  then show ?case
    using link_ok [OF Nil(1,2,3,4), of mp rc w'] by simp
next
  case (Cons cur nxt)
  let ?x = "seq_off b seq" and ?hi = "unat (rcvbuf_size (w_tp w))" and ?c = "seq_off b (seg_seq cur)"
  let ?e = "seq_off b (seg_end cur)"
  have q: "queue_ok b T ?hi 0 (pre @ cur # nxt)" and hi: "?hi < HALF"
    using Cons.prems(1,2) by (auto simp: ofo_ok_def counts_ok_def)
  then have cur: "piece_ok b T ?hi cur" and nxt: "queue_ok b T ?hi (?c + max 1 (slen cur)) nxt"
    by (auto simp: queue_ok_append)
  note e = seg_end_off [OF cur hi]
  have c: "?c < HALF" using piece_half [OF cur hi] .
  have x: "?x + length data \<le> ?hi" "?x + length data \<le> length T" "fin \<longrightarrow> ?x + length data = length T"
    using Cons.prems(3) by (auto simp: piece_at_def)
  have len: "length data < HALF" using x(1) hi by linarith
  note lw = len_word [OF len]
  have se: "seq_off b (seq + of_nat (length data)) = ?x + length data" "?x + length data < HALF" "?x < HALF"
    using seq_off_add [of b seq "of_nat (length data)"] x(1) hi lw by auto
  let ?skip = "seg_end cur - seq" and ?len = "of_nat (length data) :: u32"
  have skip: "unat ?skip = ?e - ?x" if "?x \<le> ?e" using seq_skip [OF that] .
  have cont: "ofo_ok b T n (w_tp w') \<and> ofo_frame (w_tp w) (w_tp w')"
    if w1: "ofo_ok b T n (w_tp w1)" "ofo_frame (w_tp w) (w_tp w1)" "ofo (w_tp w1) = pre1 @ cur # nxt"
      and o: "?c < ?x + length data" "?x < ?e"
      and r: "(if ?skip > ?len \<or> (?skip = ?len \<and> \<not> fin) then (0, w1)
        else queue_insert_loop mp w1 (seg_end cur) (drop (unat ?skip) data) fin nxt) = (rc, w')" for w1 pre1
  proof (cases "?skip > ?len \<or> (?skip = ?len \<and> \<not> fin)")
    case True
    then show ?thesis using r w1 by simp
  next
    case False
    then have "\<not> ?skip > ?len" "unat ?skip = unat ?len \<Longrightarrow> fin" by (auto dest: unsigned_word_eqI)
    then have k: "unat ?skip \<le> length data" "unat ?skip = length data \<longrightarrow> fin"
      using lw(1) by (auto simp: word_less_nat_alt)
    have sl: "0 < slen cur" using cur o(1) x(2) by (auto simp: piece_ok_def)
    have qe: "queue_end b 0 (pre1 @ [cur]) = ?e" using sl e(1) by (simp add: queue_end_def)
    have off: "seq_off b (seg_end cur) = ?x + unat ?skip" using skip o(2) by simp
    have sz: "rcvbuf_size (w_tp w1) = rcvbuf_size (w_tp w)" using ofo_frame_fields(2) [OF w1(2)] .
    have "ofo_ok b T n (w_tp w') \<and> ofo_frame (w_tp w1) (w_tp w')"
    proof (rule Cons.IH)
      show "ofo_ok b T n (w_tp w1)" by (rule w1(1))
      show "ofo (w_tp w1) = (pre1 @ [cur]) @ nxt" using w1(3) by simp
      show "piece_at b T (unat (rcvbuf_size (w_tp w1))) (seg_end cur) (drop (unat ?skip) data) fin"
        unfolding sz by (rule piece_at_drop [OF Cons.prems(3) k(1) off])
      show "queue_end b 0 (pre1 @ [cur]) \<le> seq_off b (seg_end cur)" using qe by simp
      show "drop (unat ?skip) data \<noteq> [] \<or> fin" using k by auto
      show "drop (unat ?skip) data = [] \<longrightarrow> nxt \<noteq> [] \<longrightarrow> seq_off b (seg_end cur) \<le> seq_off b (seg_seq (hd nxt))"
        using nxt sl e(1) by (cases nxt) auto
      show "queue_insert_loop mp w1 (seg_end cur) (drop (unat ?skip) data) fin nxt = (rc, w')"
        using r False by simp
    qed
    then show ?thesis using ofo_frame_trans [OF w1(2)] by blast
  qed
  have stop: "ofo_ok b T n (w_tp w') \<and> ofo_frame (w_tp w) (w_tp w')"
    if "tcp_ofo_link mp w seq data fin (Some cur) = (rc, w')"
      "seg_seq cur \<noteq> seq \<longrightarrow> ?x + max 1 (length data) \<le> ?c"
    using link_ok [OF Cons.prems(1-4), of mp rc w'] that by simp
  note run = Cons.prems(7) [unfolded queue_insert_loop.simps Let_def]
  show ?case
  proof (cases "data = []")
    case True
    then have "?x \<le> ?c" using Cons.prems(6) by simp
    moreover have "seg_seq cur \<noteq> seq \<longrightarrow> ?x \<noteq> ?c" by (simp add: seq_off_inj)
    ultimately have "seg_seq cur \<noteq> seq \<longrightarrow> ?x + max 1 (length data) \<le> ?c" using True by (auto simp: le_less)
    from stop [OF _ this] show ?thesis using run True by simp
  next
    case False
    then have ne: "?len \<noteq> 0" using lw(2) by simp
    show ?thesis
    proof (cases "?e \<le> ?x")
      case True
      then have le: "tcp_ofo_seq_leq (seg_end cur) seq" using ofo_gt_off(2) [of b] e(2) se(3) by simp
      have "slen cur = 0 \<Longrightarrow> ?c = length T" using cur by (simp add: piece_ok_def)
      moreover have "0 < length data" using False by simp
      ultimately have "0 < slen cur" using True e(1) x(2) by (cases "slen cur = 0") auto
      then have qe: "queue_end b 0 (pre @ [cur]) \<le> ?x" using True e(1) by (simp add: queue_end_def)
      show ?thesis
        using Cons.IH [OF Cons.prems(1) _ Cons.prems(3) qe Cons.prems(5)] Cons.prems(2) run ne le False by simp
    next
      case F1: False
      then have nle: "\<not> tcp_ofo_seq_leq (seg_end cur) seq" using ofo_gt_off(2) [of b] e(2) se(3) by simp
      show ?thesis
      proof (cases "?x + length data \<le> ?c")
        case True
        then have "tcp_ofo_seq_leq (seq + ?len) (seg_seq cur)" using ofo_gt_off(2) [of b] se c by simp
        moreover have "max 1 (length data) = length data" using False by (cases data) auto
        ultimately show ?thesis using stop run ne nle True by simp
      next
        case F2: False
        then have nle2: "\<not> tcp_ofo_seq_leq (seq + ?len) (seg_seq cur)" using ofo_gt_off(2) [of b] se c by simp
        show ?thesis
        proof (cases "?x < ?c")
          case True
          then have lt: "tcp_ofo_seq_lt seq (seg_seq cur)" using ofo_lt_off [of b] se(3) c by simp
          let ?left = "unat (seg_seq cur - seq)"
          have left: "?left = ?c - ?x" using seq_skip [of b seq "seg_seq cur"] True by simp
          have tl: "length (take ?left data) = ?c - ?x" using left F2 by simp
          obtain rc1 w1 where l1: "tcp_ofo_link mp w seq (take ?left data) False (Some cur) = (rc1, w1)" by fastforce
          have "piece_at b T ?hi seq (take ?left data) False"
            using piece_at_take [OF Cons.prems(3)] left F2 by simp
          from link_ok [OF Cons.prems(1,2) this Cons.prems(4), of mp rc1 w1] l1 tl True
          obtain pre1 where w1: "ofo_ok b T n (w_tp w1)" "ofo_frame (w_tp w) (w_tp w1)" "ofo (w_tp w1) = pre1 @ cur # nxt"
            by auto
          show ?thesis
          proof (cases "rc1 = 0")
            case True
            then show ?thesis using cont [OF w1] run ne nle nle2 lt l1 F1 F2 by simp
          next
            case False
            then show ?thesis using run ne nle nle2 lt l1 w1 by simp
          qed
        next
          case F3: False
          then have "\<not> tcp_ofo_seq_lt seq (seg_seq cur)" using ofo_lt_off [of b] se(3) c by simp
          then show ?thesis using cont [OF Cons.prems(1) _ Cons.prems(2)] run ne nle nle2 F1 F2 by simp
        qed
      qed
    qed
  qed
qed

text \<open>Where the search for overlaps starts.\<close>

lemma search_start:
  assumes "index_ok tp" "queue_ok b T hi 0 (ofo tp)" "hi < HALF" "seq_off b seq < HALF"
    and "pre = takeWhile (\<lambda>s. seq_off b (seg_seq s) < seq_off b seq) (ofo tp)"
    and "suf = dropWhile (\<lambda>s. seq_off b (seg_seq s) < seq_off b seq) (ofo tp)"
  shows "tcp_ofo_lower_bound tp seq = map_option ofo_ref (if suf = [] then None else Some (hd suf))"
    and "(case tcp_ofo_lower_bound tp seq of Some k \<Rightarrow> rb_prev k (ofo_tree tp) | None \<Rightarrow> rb_last (ofo_tree tp))
      = map_option ofo_ref (if pre = [] then None else Some (last pre))"
proof -
  have q: "ofo tp = pre @ suf" using assms(5,6) by simp
  have d: "distinct (map ofo_ref (ofo tp))" using queue_ok_distinct [OF assms(2)] .
  have io: "inorder (ofo_tree tp) = map ofo_ref (ofo tp)" using assms(1) by (simp add: index_ok_def)
  have lt: "tcp_ofo_seq_lt (seg_seq s) seq \<longleftrightarrow> seq_off b (seg_seq s) < seq_off b seq" if "s \<in> set (ofo tp)" for s
    using queue_ok_piece [OF assms(2) that] piece_half assms(3,4) by (auto simp: ofo_lt_off [of b])
  have pre: "\<forall>s \<in> set pre. tcp_ofo_seq_lt (seg_seq s) seq"
  proof
    fix s assume "s \<in> set pre"
    then have "s \<in> set (takeWhile (\<lambda>s. seq_off b (seg_seq s) < seq_off b seq) (ofo tp))" using assms(5) by simp
    from set_takeWhileD [OF this] show "tcp_ofo_seq_lt (seg_seq s) seq" using lt by simp
  qed
  have suf: "\<forall>s \<in> set suf. \<not> tcp_ofo_seq_lt (seg_seq s) seq"
  proof
    fix s assume s: "s \<in> set suf"
    then obtain h t where ht: "suf = h # t" by (cases suf) auto
    then have "\<not> seq_off b (seg_seq h) < seq_off b seq"
      using assms(6) hd_dropWhile [of "\<lambda>s. seq_off b (seg_seq s) < seq_off b seq" "ofo tp"] by auto
    moreover have "seq_off b (seg_seq h) \<le> seq_off b (seg_seq s)"
      using queue_ok_sorted [OF assms(2)] q ht s by (auto simp: sorted_wrt_append)
    ultimately show "\<not> tcp_ofo_seq_lt (seg_seq s) seq" using lt s q by auto
  qed
  let ?lt = "\<lambda>k. tcp_ofo_seq_lt (fst k) seq"
  have split: "\<forall>k \<in> set (map ofo_ref pre). ?lt k" "\<forall>k \<in> set (map ofo_ref suf). \<not> ?lt k"
    using pre suf by (simp_all add: ofo_ref_def)
  have cut: "dropWhile ?lt (map ofo_ref pre @ map ofo_ref suf) = map ofo_ref suf"
    using takeWhile_cut [OF split] by blast
  have mono: "sorted_wrt (\<lambda>x y. ?lt y \<longrightarrow> ?lt x) (inorder (ofo_tree tp))"
    unfolding io q map_append by (rule sorted_cut_rev [OF split])
  show lb: "tcp_ofo_lower_bound tp seq = map_option ofo_ref (if suf = [] then None else Some (hd suf))"
    unfolding tcp_ofo_lower_bound_def lower_bound_drop [OF mono] unfolding io q map_append cut
    by (cases suf) auto
  show "(case tcp_ofo_lower_bound tp seq of Some k \<Rightarrow> rb_prev k (ofo_tree tp) | None \<Rightarrow> rb_last (ofo_tree tp))
      = map_option ofo_ref (if pre = [] then None else Some (last pre))"
  proof (cases suf)
    case Nil
    then show ?thesis unfolding lb rb_last_def maximum_inorder io q by (simp add: last_map)
  next
    case (Cons h t)
    then show ?thesis
      unfolding lb using prev_inorder [of "ofo_tree tp" "map ofo_ref pre" "ofo_ref h" "map ofo_ref t"] d io q
      by (simp add: last_map)
  qed
qed

lemma queue_from_last:
  assumes "distinct (map ofo_ref (pre @ suf))" "pre \<noteq> []"
  shows "queue_from (pre @ suf) (Some (ofo_ref (last pre))) = last pre # suf"
proof -
  obtain ys y where pre: "pre = ys @ [y]" using assms(2) by (cases pre rule: rev_cases) auto
  show ?thesis using queue_at(2) [of ys "y # suf"] assms(1) by (simp add: pre)
qed

lemma overlap_start_from:
  assumes "index_ok tp" "queue_ok b T hi 0 (ofo tp)" "hi < HALF" "seq_off b seq < HALF"
    and "pre = takeWhile (\<lambda>s. seq_off b (seg_seq s) < seq_off b seq) (ofo tp)"
    and "suf = dropWhile (\<lambda>s. seq_off b (seg_seq s) < seq_off b seq) (ofo tp)"
  shows "queue_from (ofo tp) (overlap_start tp seq) =
    (if pre \<noteq> [] \<and> tcp_ofo_seq_gt (seg_end (last pre)) seq then last pre # suf else suf)"
proof -
  have q: "ofo tp = pre @ suf" using assms(5,6) by simp
  have d: "distinct (map ofo_ref (pre @ suf))" using queue_ok_distinct [OF assms(2)] q by simp
  note pos = search_start [OF assms]
  show ?thesis
  proof (cases "pre = []")
    case True
    then have "overlap_start tp seq = tcp_ofo_lower_bound tp seq"
      using pos(2) by (simp add: overlap_start_def Let_def)
    then show ?thesis using True queue_at(2) [OF d] by (simp only: pos(1) q) simp
  next
    case False
    have "overlap_start tp seq = (if tcp_ofo_seq_gt (seg_end (last pre)) seq
        then Some (ofo_ref (last pre)) else tcp_ofo_lower_bound tp seq)"
      unfolding overlap_start_def Let_def pos(2) q using False queue_from_last [OF d False] by simp
    then show ?thesis using False queue_at(2) [OF d] queue_from_last [OF d False] by (simp add: q pos(1))
  qed
qed

text \<open>Pieces of the stream without a bound on the window.\<close>

definition offer :: "u32 \<Rightarrow> byte list \<Rightarrow> u32 \<Rightarrow> byte list \<Rightarrow> bool \<Rightarrow> bool" where
  "offer b T seq data fin \<longleftrightarrow> seq_off b seq < HALF \<and> length data < 65536 \<and> piece_at b T (length T) seq data fin"

lemma rcv_wnd_le: "unat (tcp_ofo_rcv_wnd tp) \<le> unat (rcvbuf_size tp)"
  by (simp add: tcp_ofo_rcv_wnd_def word_le_nat_alt unat_sub not_le)

lemma window_end:
  assumes "unat (rcvbuf_size tp) < HALF"
  shows "seq_off (recv_ack tp) (recv_ack tp + tcp_ofo_rcv_wnd tp) = unat (tcp_ofo_rcv_wnd tp)"
  using seq_off_add [of "recv_ack tp" "recv_ack tp" "tcp_ofo_rcv_wnd tp"] unat_u32_lt [of "tcp_ofo_rcv_wnd tp"]
  by simp

text \<open>The part of the offer inside the window.\<close>

lemma clip_offer:
  assumes "unat (rcvbuf_size tp) < HALF" "offer (recv_ack tp) T seq data fin"
    and "tcp_ofo_seq_lt seq (recv_ack tp + tcp_ofo_rcv_wnd tp)"
    and "(data', fin') = (if tcp_ofo_seq_gt (seq + of_nat (length data)) (recv_ack tp + tcp_ofo_rcv_wnd tp)
       then (take (unat (recv_ack tp + tcp_ofo_rcv_wnd tp - seq)) data, False) else (data, fin))"
  shows "piece_at (recv_ack tp) T (unat (rcvbuf_size tp)) seq data' fin'"
proof -
  let ?b = "recv_ack tp" and ?W = "tcp_ofo_rcv_wnd tp"
  let ?x = "seq_off ?b seq" and ?w = "unat ?W"
  have wle: "?w \<le> unat (rcvbuf_size tp)" by (rule rcv_wnd_le)
  have we: "seq_off ?b (?b + ?W) = ?w" using window_end [OF assms(1)] .
  have x: "?x < ?w" using assms(1,2,3) we wle ofo_lt_off [of ?b seq "?b + ?W"] by (simp add: offer_def)
  have d: "unat (?b + ?W - seq) = ?w - ?x" using seq_off_diff [of ?b seq "?b + ?W"] x we by simp
  have len: "length data < HALF" "length data < 65536" using assms(2) by (auto simp: offer_def)
  have "seq_off seq (seq + of_nat (length data)) = length data"
    using len_word(1) [OF len(1)] by (simp add: seq_off_def)
  moreover have "seq_off seq (?b + ?W) = ?w - ?x" using d by (simp add: seq_off_def)
  ultimately have gt: "tcp_ofo_seq_gt (seq + of_nat (length data)) (?b + ?W) \<longleftrightarrow> ?w < ?x + length data"
    using ofo_gt_off(1) [of seq "seq + of_nat (length data)" "?b + ?W"] len(1) wle assms(1) x by auto
  have p: "piece_at ?b T (length T) seq data fin" using assms(2) by (simp add: offer_def)
  show ?thesis
  proof (cases "?w < ?x + length data")
    case True
    then have "data' = take (?w - ?x) data" "fin' = False" using assms(4) gt d by auto
    moreover have "piece_at ?b T (unat (rcvbuf_size tp)) seq (take (?w - ?x) data) False"
      using True x wle by (intro piece_at_bound [OF piece_at_take [OF p]]) auto
    ultimately show ?thesis by simp
  next
    case False
    then show ?thesis using assms(4) gt wle piece_at_bound [OF p, of "unat (rcvbuf_size tp)"] by simp
  qed
qed

lemma insert_in_window_ok:
  assumes "ofo_ok (recv_ack (w_tp w)) T n (w_tp w)" "offer (recv_ack (w_tp w)) T seq data fin"
    and "insert_in_window mp w seq data fin = (rc, w')"
  shows "ofo_ok (recv_ack (w_tp w)) T n (w_tp w') \<and> ofo_frame (w_tp w) (w_tp w')"
proof -
  let ?tp = "w_tp w" let ?b = "recv_ack ?tp" let ?W = "?b + tcp_ofo_rcv_wnd ?tp"
  have ok: "queue_ok ?b T (unat (rcvbuf_size ?tp)) 0 (ofo ?tp)" "index_ok ?tp" "unat (rcvbuf_size ?tp) < HALF"
    using assms(1) by (auto simp: ofo_ok_def counts_ok_def)
  have x: "seq_off ?b seq < HALF" using assms(2) by (simp add: offer_def)
  show ?thesis
  proof (cases "tcp_ofo_seq_lt seq ?W")
    case False
    then have "w_tp w' = ?tp"
      using assms(3) by (auto simp: insert_in_window_def Let_def tcp_ofo_record_rcv_window_drop_def split: if_splits)
    then show ?thesis using assms(1) by simp
  next
    case True
    obtain data' fin' where clip: "(data', fin') = (if tcp_ofo_seq_gt (seq + of_nat (length data)) ?W
       then (take (unat (?W - seq)) data, False) else (data, fin))" by (metis surj_pair)
    note piece = clip_offer [OF ok(3) assms(2) True clip]
    show ?thesis
    proof (cases "data' = [] \<and> \<not> fin'")
      case e: True
      then have "w' = w" using assms(3) True clip [symmetric] by (simp add: insert_in_window_def Let_def)
      then show ?thesis using assms(1) by simp
    next
      case ne: False
      define pre where "pre = takeWhile (\<lambda>s. seq_off ?b (seg_seq s) < seq_off ?b seq) (ofo ?tp)"
      define suf where "suf = dropWhile (\<lambda>s. seq_off ?b (seg_seq s) < seq_off ?b seq) (ofo ?tp)"
      have q: "ofo ?tp = pre @ suf" by (simp add: pre_def suf_def)
      have d: "distinct (map ofo_ref (pre @ suf))" using queue_ok_distinct [OF ok(1)] q by simp
      let ?over = "pre \<noteq> [] \<and> tcp_ofo_seq_gt (seg_end (last pre)) seq"
      define C where "C = (if ?over then last pre # suf else suf)"
      define pre1 where "pre1 = (if ?over then butlast pre else pre)"
      have q1: "ofo ?tp = pre1 @ C" using q by (simp add: pre1_def C_def)
      have run: "queue_insert_loop mp w seq data' fin' C = (rc, w')"
        using assms(3) True ne clip [symmetric]
        unfolding C_def overlap_start_from [OF ok(2,1,3) x pre_def suf_def, symmetric] insert_in_window_def Let_def
        by simp
      have last: "seq_off ?b (seg_seq (last pre)) < seq_off ?b seq \<and> piece_ok ?b T (unat (rcvbuf_size ?tp)) (last pre)"
        if "pre \<noteq> []"
      proof -
        have "last pre \<in> set (takeWhile (\<lambda>s. seq_off ?b (seg_seq s) < seq_off ?b seq) (ofo ?tp))"
          using that unfolding pre_def by (rule last_in_set)
        from set_takeWhileD [OF this] queue_ok_piece [OF ok(1), of "last pre"] show ?thesis by blast
      qed
      have e: "tcp_ofo_seq_gt (seg_end (last pre)) seq \<longleftrightarrow> seq_off ?b seq < seq_off ?b (seg_end (last pre))"
        if "pre \<noteq> []"
        using ofo_gt_off(1) [OF seg_end_off(2) [OF conjunct2 [OF last [OF that]] ok(3)] x] .
      have "queue_end ?b 0 pre1 \<le> seq_off ?b seq"
      proof (cases ?over)
        case True
        then have "queue_end ?b 0 pre1 \<le> seq_off ?b (seg_seq (last pre))"
          using ok(1) unfolding q1 queue_ok_append C_def by simp
        then show ?thesis using last True by simp
      next
        case False
        show ?thesis
        proof (cases "pre = []")
          case True
          then show ?thesis by (simp add: pre1_def)
        next
          case F: False
          then have "seq_off ?b (seg_end (last pre)) \<le> seq_off ?b seq" using False e by simp
          then show ?thesis
            using last [OF F] seg_end_off(1) [OF conjunct2 [OF last [OF F]] ok(3)] F False
            by (auto simp: pre1_def queue_end_def)
        qed
      qed
      moreover have "data' = [] \<longrightarrow> C \<noteq> [] \<longrightarrow> seq_off ?b seq \<le> seq_off ?b (seg_seq (hd C))"
      proof (intro impI)
        assume "data' = []" "C \<noteq> []"
        then have xT: "seq_off ?b seq = length T" using ne piece by (simp add: piece_at_def)
        show "seq_off ?b seq \<le> seq_off ?b (seg_seq (hd C))"
        proof (cases ?over)
          case True
          then show ?thesis
            using e last [of] seg_end_off(1) [OF conjunct2 [OF last] ok(3)] xT by (simp add: piece_ok_def)
        next
          case False
          then have "C = suf" by (simp add: C_def)
          then show ?thesis
            using \<open>C \<noteq> []\<close> hd_dropWhile [of "\<lambda>s. seq_off ?b (seg_seq s) < seq_off ?b seq" "ofo ?tp"]
            unfolding suf_def by simp
        qed
      qed
      moreover have "data' \<noteq> [] \<or> fin'" using ne by simp
      ultimately show ?thesis
        using queue_insert_loop_ok [OF assms(1) q1 piece _ _ _ run] by simp
    qed
  qed
qed

text \<open>
  A segment of the peer's stream seen from the receive point: \<open>P\<close> are the bytes received so far,
  \<open>T\<close> those to come; the segment starts at position \<open>p\<close> of the whole stream, closer than half the
  sequence space to the receive point.
\<close>

definition honest :: "byte list \<Rightarrow> byte list \<Rightarrow> u32 \<Rightarrow> u32 \<Rightarrow> byte list \<Rightarrow> bool \<Rightarrow> bool" where
  "honest P T rcv seq data fin \<longleftrightarrow> length data < 65536 \<and>
     (\<exists>p. p + length data \<le> length (P @ T) \<and> data = take (length data) (drop p (P @ T)) \<and>
          (fin \<longrightarrow> p + length data = length (P @ T)) \<and>
          (if p < length P then length P - p \<le> HALF \<and> unat (rcv - seq) = length P - p
           else p - length P < HALF \<and> seq_off rcv seq = p - length P))"

lemma honest_ahead:
  assumes "honest P T rcv seq data fin" "\<not> tcp_ofo_seq_lt seq rcv"
  shows "offer rcv T seq data fin"
proof -
  obtain p where p: "length data < 65536" "p + length data \<le> length (P @ T)" "data = take (length data) (drop p (P @ T))"
      "fin \<longrightarrow> p + length data = length (P @ T)"
      "if p < length P then length P - p \<le> HALF \<and> unat (rcv - seq) = length P - p
           else p - length P < HALF \<and> seq_off rcv seq = p - length P"
    using assms(1) by (auto simp: honest_def)
  have "\<not> p < length P"
  proof
    assume "p < length P"
    then have "unat (rcv - seq) \<le> HALF" "rcv - seq \<noteq> 0" using p(5) by auto
    then have "sint (seq - rcv) < 0"
      using unat_neg_u32 [of "rcv - seq"] by (simp add: sint_neg_iff)
    then show False using assms(2) by (simp add: tcp_ofo_seq_lt_def)
  qed
  then have q: "p - length P < HALF" "seq_off rcv seq = p - length P" "length P \<le> p" using p(5) by auto
  have "drop p (P @ T) = drop (p - length P) T" using q(3) by simp
  then have "data = take (length data) (drop (seq_off rcv seq) T)" using p(3) q(2) by metis
  then show ?thesis unfolding offer_def piece_at_def using p q by auto
qed

lemma honest_behind:
  assumes "honest P T rcv seq data fin" "tcp_ofo_seq_lt seq rcv" "unat (rcv - seq) \<le> length data"
  shows "offer rcv T rcv (drop (unat (rcv - seq)) data) fin"
proof -
  obtain p where p: "length data < 65536" "p + length data \<le> length (P @ T)" "data = take (length data) (drop p (P @ T))"
      "fin \<longrightarrow> p + length data = length (P @ T)"
      "if p < length P then length P - p \<le> HALF \<and> unat (rcv - seq) = length P - p
           else p - length P < HALF \<and> seq_off rcv seq = p - length P"
    using assms(1) by (auto simp: honest_def)
  have "p < length P"
  proof (rule ccontr)
    assume "\<not> p < length P"
    then have "seq_off rcv seq < HALF" using p(5) by auto
    then show False using assms(2) ofo_lt_off [of rcv seq rcv] by simp
  qed
  then have k: "unat (rcv - seq) = length P - p" "p \<le> length P" using p(5) by auto
  have "drop (length P - p) data = take (length data - (length P - p)) (drop (length P - p) (drop p (P @ T)))"
    using arg_cong [OF p(3), of "drop (length P - p)"] by (simp only: drop_take)
  also have "drop (length P - p) (drop p (P @ T)) = T" using k(2) by simp
  finally have "drop (unat (rcv - seq)) data = take (length data - unat (rcv - seq)) T" using k by simp
  then show ?thesis unfolding offer_def piece_at_def using p assms(3) k by auto
qed

lemma queue_insert_ok:
  assumes "ofo_ok (recv_ack (w_tp w)) T n (w_tp w)" "honest P T (recv_ack (w_tp w)) seq data fin"
    and "tcp_ofo_queue_insert mp w seq data fin = (rc, w')"
  shows "ofo_ok (recv_ack (w_tp w)) T n (w_tp w') \<and> ofo_frame (w_tp w) (w_tp w')"
proof (cases "tcp_ofo_seq_lt seq (recv_ack (w_tp w))")
  case False
  then show ?thesis
    using insert_in_window_ok [OF assms(1) honest_ahead [OF assms(2) False]] assms(3)
    by (simp add: tcp_ofo_queue_insert_def)
next
  case True
  let ?skip = "recv_ack (w_tp w) - seq" and ?len = "of_nat (length data) :: u32"
  show ?thesis
  proof (cases "?skip > ?len \<or> (?skip = ?len \<and> \<not> fin)")
    case drop: True
    then have "w' = w" using True assms(3) by (auto simp: tcp_ofo_queue_insert_def Let_def)
    then show ?thesis using assms(1) by simp
  next
    case keep: False
    have "length data < HALF" using assms(2) by (simp add: honest_def)
    then have "unat ?skip \<le> length data" using keep len_word(1) [of data] by (auto simp: word_less_nat_alt)
    from insert_in_window_ok [OF assms(1) honest_behind [OF assms(2) True this]] show ?thesis
      using assms(3) True keep by (simp add: tcp_ofo_queue_insert_def Let_def)
  qed
qed

subsection \<open>Removal\<close>

lemma queue_head:
  "queue_before (s # ss) (Some (ofo_ref s)) = []" "queue_from (s # ss) (Some (ofo_ref s)) = s # ss"
  by (simp_all add: queue_before_def queue_from_def)

lemma unlink_frame: "ofo_frame (w_tp w) (w_tp (tcp_ofo_unlink w s))"
  by (simp add: tcp_ofo_unlink_def Let_def ofo_frame_def)

lemma unlink_fields:
  "ofo (w_tp w) = s # ss \<Longrightarrow> ofo (w_tp (tcp_ofo_unlink w s)) = ss"
  "ofo_tree (w_tp (tcp_ofo_unlink w s)) = rb_erase (ofo_ref s) (ofo_tree (w_tp w))"
  "ofo_count (w_tp (tcp_ofo_unlink w s)) = ofo_count (w_tp w) - 1"
  "ofo_bytes (w_tp (tcp_ofo_unlink w s)) = ofo_bytes (w_tp w) - seg_len s"
  "rcvbuf_used (w_tp (tcp_ofo_unlink w s)) = rcvbuf_used (w_tp w)"
  by (simp_all add: tcp_ofo_unlink_def Let_def queue_head)

lemma seg_free_tp [simp]: "w_tp (tcp_ofo_seg_free mp w s) = w_tp w"
  by (simp add: tcp_ofo_seg_free_def Let_def)

text \<open>Unlinking the head: its bytes leave the queue's share of the receive buffer.\<close>

lemma unlink_head_ok:
  assumes "ofo_ok b T n (w_tp w)" "ofo (w_tp w) = s # ss"
  shows "ofo_ok b T (n + slen s) (w_tp (tcp_ofo_unlink w s))"
proof -
  let ?tp = "w_tp w"
  have q: "queue_ok b T (unat (rcvbuf_size ?tp)) 0 (s # ss)" and idx: "index_ok ?tp" and c: "counts_ok n ?tp"
    using assms by (auto simp: ofo_ok_def)
  have sz: "rcvbuf_size (w_tp (tcp_ofo_unlink w s)) = rcvbuf_size ?tp" using ofo_frame_fields(2) [OF unlink_frame] .
  have "distinct (map ofo_ref (s # ss))" using queue_ok_distinct [OF q] .
  then have idx': "rb_inv (rb_erase (ofo_ref s) (ofo_tree ?tp))" "inorder (rb_erase (ofo_ref s) (ofo_tree ?tp)) = map ofo_ref ss"
    using idx assms(2) by (simp_all add: index_ok_def erase_inv inorder_erase)
  have le: "slen s \<le> unat (ofo_bytes ?tp)" "0 < unat (ofo_count ?tp)" using c assms(2) by (auto simp: counts_ok_def)
  then have "1 \<le> ofo_count ?tp" by (simp add: word_le_nat_alt)
  then have "unat (ofo_count ?tp - 1) = unat (ofo_count ?tp) - 1" by (simp add: unat_sub)
  moreover have "unat (ofo_bytes ?tp - seg_len s) = unat (ofo_bytes ?tp) - slen s"
    using le(1) by (intro unat_sub) (simp add: word_le_nat_alt)
  ultimately show ?thesis
    using q idx' c assms(2) queue_ok_mono
    unfolding ofo_ok_def index_ok_def counts_ok_def sz unlink_fields(1) [OF assms(2)] unlink_fields(2-)
    by fastforce
qed

lemma rcvbuf_sub_used:
  "unat (rcvbuf_used (tcp_ofo_rcvbuf_sub tp x)) = unat (rcvbuf_used tp) - unat x"
  by (auto simp: tcp_ofo_rcvbuf_sub_def word_le_nat_alt unat_sub)

lemma rcvbuf_sub_frame: "ofo_frame tp (tcp_ofo_rcvbuf_sub tp x)"
  by (simp add: ofo_frame_def tcp_ofo_rcvbuf_sub_def)

text \<open>Discarding the head: its bytes leave the receive buffer altogether.\<close>

lemma discard_head_ok:
  assumes "ofo_ok b T n (w_tp w)" "ofo (w_tp w) = s # ss"
  defines "w' \<equiv> tcp_ofo_unlink (w\<lparr>w_tp := tcp_ofo_rcvbuf_sub (w_tp w) (seg_len s)\<rparr>) s"
  shows "ofo_ok b T n (w_tp w') \<and> ofo (w_tp w') = ss \<and> ofo_frame (w_tp w) (w_tp w')"
proof -
  let ?w = "w\<lparr>w_tp := tcp_ofo_rcvbuf_sub (w_tp w) (seg_len s)\<rparr>"
  have o: "ofo (w_tp ?w) = s # ss" using assms(2) by (simp add: tcp_ofo_rcvbuf_sub_def)
  have u: "unat (rcvbuf_used (w_tp ?w)) = n + ofo_total ss"
    using assms(1,2) by (simp add: rcvbuf_sub_used ofo_ok_def counts_ok_def)
  have sz: "rcvbuf_size (w_tp w') = rcvbuf_size (w_tp w)"
    using ofo_frame_fields(2) [OF ofo_frame_trans [OF rcvbuf_sub_frame unlink_frame [of ?w, simplified]]]
    by (simp add: w'_def)
  let ?v = "tcp_ofo_unlink w s"
  have same: "ofo (w_tp w') = ofo (w_tp ?v)" "ofo_tree (w_tp w') = ofo_tree (w_tp ?v)"
    "ofo_count (w_tp w') = ofo_count (w_tp ?v)" "ofo_bytes (w_tp w') = ofo_bytes (w_tp ?v)"
    "rcvbuf_size (w_tp ?v) = rcvbuf_size (w_tp w)"
    by (simp_all add: w'_def tcp_ofo_unlink_def Let_def tcp_ofo_rcvbuf_sub_def)
  have v: "ofo_ok b T (n + slen s) (w_tp ?v)" "ofo (w_tp ?v) = ss"
    using unlink_head_ok [OF assms(1,2)] unlink_fields(1) [of w, OF assms(2)] by auto
  have used: "rcvbuf_used (w_tp w') = rcvbuf_used (w_tp ?w)" unfolding w'_def by (rule unlink_fields(5))
  have "ofo_ok b T n (w_tp w')"
    unfolding ofo_ok_def index_ok_def counts_ok_def sz same(1-4) used word_le_nat_alt u
    using v assms(1,2) unfolding ofo_ok_def index_ok_def counts_ok_def same(5) word_le_nat_alt by simp
  moreover have "ofo_frame (w_tp w) (w_tp w')"
    using ofo_frame_trans [OF rcvbuf_sub_frame unlink_frame [of ?w, simplified]] by (simp add: w'_def)
  ultimately show ?thesis using same(1) v(2) by simp
qed

text \<open>Purging releases every queued byte, whatever the order of the queue.\<close>

lemma purge_loop_used:
  "unat (rcvbuf_used (w_tp (purge_loop mp w segs))) = unat (rcvbuf_used (w_tp w)) - ofo_total segs \<and>
   ofo_frame (w_tp w) (w_tp (purge_loop mp w segs))"
proof (induction segs arbitrary: w)
  case (Cons s ss)
  let ?w1 = "w\<lparr>w_tp := tcp_ofo_rcvbuf_sub (w_tp w) (seg_len s)\<rparr>"
  let ?w2 = "tcp_ofo_seg_free mp (tcp_ofo_unlink ?w1 s) s"
  have "unat (rcvbuf_used (w_tp ?w2)) = unat (rcvbuf_used (w_tp w)) - slen s"
    by (simp add: unlink_fields(5) rcvbuf_sub_used)
  moreover have "ofo_frame (w_tp w) (w_tp ?w2)"
    using ofo_frame_trans [OF rcvbuf_sub_frame unlink_frame [of ?w1, simplified]] by simp
  ultimately show ?case using Cons.IH [of ?w2] ofo_frame_trans by auto
qed simp

text \<open>What a purge leaves alone: everything but the queue and the receive-side SACK state.\<close>

definition rx_frame :: "tcp_stream \<Rightarrow> tcp_stream \<Rightarrow> bool" where
  "rx_frame tp tp' \<longleftrightarrow> rcvbuf_size tp' = rcvbuf_size tp \<and> rx_queue tp' = rx_queue tp \<and>
     rx_current tp' = rx_current tp \<and> status tp' = status tp"

lemma ofo_frame_rx: "ofo_frame tp tp' \<Longrightarrow> rx_frame tp tp'"
  using ofo_frame_fields [of tp tp'] by (simp add: rx_frame_def)

lemma purge_ok:
  fixes mp w
  defines "w' \<equiv> tcp_ofo_purge mp w"
  shows "ofo (w_tp w') = []" "ofo_tree (w_tp w') = RbNil" "ofo_count (w_tp w') = 0" "ofo_bytes (w_tp w') = 0"
    "unat (rcvbuf_used (w_tp w')) = unat (rcvbuf_used (w_tp w)) - ofo_total (ofo (w_tp w))"
    "rx_frame (w_tp w) (w_tp w')" "recv_ack (w_tp w') = recv_ack (w_tp w)" "peer_eof (w_tp w') = peer_eof (w_tp w)"
proof -
  note u = purge_loop_used [of mp w "ofo (w_tp w)"]
  note f = ofo_frame_fields [OF conjunct2 [OF u]]
  show "ofo (w_tp w') = []" "ofo_tree (w_tp w') = RbNil" "ofo_count (w_tp w') = 0" "ofo_bytes (w_tp w') = 0"
    "unat (rcvbuf_used (w_tp w')) = unat (rcvbuf_used (w_tp w)) - ofo_total (ofo (w_tp w))"
    "rx_frame (w_tp w) (w_tp w')" "recv_ack (w_tp w') = recv_ack (w_tp w)" "peer_eof (w_tp w') = peer_eof (w_tp w)"
    using u f by (simp_all add: w'_def tcp_ofo_purge_def Let_def rx_frame_def)
qed

lemma empty_ok:
  assumes "ofo tp = []" "ofo_tree tp = RbNil" "ofo_count tp = 0" "ofo_bytes tp = 0"
    "unat (rcvbuf_used tp) = n" "n \<le> unat (rcvbuf_size tp)" "unat (rcvbuf_size tp) < HALF"
  shows "ofo_ok b T n tp"
  using assms by (simp add: ofo_ok_def index_ok_def counts_ok_def word_le_nat_alt)

text \<open>Trimming the head up to the receive point.\<close>

abbreviation trimmed :: "tcp_ofo_seg \<Rightarrow> u32 \<Rightarrow> tcp_ofo_seg" where
  "trimmed s skip \<equiv> s\<lparr>seg_seq := seg_seq s + skip, seg_data_off := seg_data_off s + skip, seg_len := seg_len s - skip\<rparr>"

lemma rekey_fields:
  fixes skip :: u32
  assumes "ofo (w_tp w) = s # ss"
  defines "w' \<equiv> snd (tcp_ofo_rekey_after_trim w s skip)"
  shows "fst (tcp_ofo_rekey_after_trim w s skip) = trimmed s skip" "ofo (w_tp w') = trimmed s skip # ss"
    "ofo_tree (w_tp w') = tcp_ofo_tree_insert (rb_erase (ofo_ref s) (ofo_tree (w_tp w))) (trimmed s skip)"
    "ofo_count (w_tp w') = ofo_count (w_tp w)" "ofo_bytes (w_tp w') = ofo_bytes (w_tp w) - skip"
    "unat (rcvbuf_used (w_tp w')) = unat (rcvbuf_used (w_tp w)) - unat skip" "ofo_frame (w_tp w) (w_tp w')"
  using assms(1)
  by (simp_all add: w'_def tcp_ofo_rekey_after_trim_def Let_def queue_head tcp_ofo_rcvbuf_sub_def ofo_frame_def
      word_le_nat_alt unat_sub)

lemma trimmed_piece:
  assumes "piece_ok b T hi s" "hi < HALF" "unat skip = k" "k < slen s"
  shows "piece_ok b T hi (trimmed s skip)" "seq_off b (seg_seq (trimmed s skip)) = seq_off b (seg_seq s) + k"
    "slen (trimmed s skip) = slen s - k"
proof -
  let ?c = "seq_off b (seg_seq s)"
  have p: "?c + slen s \<le> hi" "?c + slen s \<le> length T" "length (seg_data s) = unat (seg_data_off s) + slen s"
      "length (seg_data s) \<le> 2048" "seg_bytes s = take (slen s) (drop ?c T)"
    using assms(1) by (auto simp: piece_ok_def)
  show off: "seq_off b (seg_seq (trimmed s skip)) = ?c + k"
    using seq_off_add [of b "seg_seq s" skip] assms(2-4) p(1) by simp
  show sl: "slen (trimmed s skip) = slen s - k"
    using assms(3,4) by (simp add: unat_sub word_le_nat_alt)
  have doff: "unat (seg_data_off (trimmed s skip)) = unat (seg_data_off s) + k"
    using assms(3,4) p(3,4) by (simp add: unat_add_u32)
  have "seg_bytes (trimmed s skip) = drop k (seg_bytes s)"
    unfolding seg_bytes_def sl doff by (simp add: drop_take add.commute)
  also have "\<dots> = take (slen s - k) (drop (?c + k) T)"
    unfolding p(5) drop_take drop_drop by (simp add: add.commute)
  finally have bytes: "seg_bytes (trimmed s skip) = take (slen s - k) (drop (?c + k) T)" .
  have fin: "seg_has_fin (trimmed s skip) = seg_has_fin s" "seg_data (trimmed s skip) = seg_data s" by simp_all
  show "piece_ok b T hi (trimmed s skip)"
    unfolding piece_ok_def off sl doff bytes fin using assms(1,4) p(3) by (auto simp: piece_ok_def)
qed

lemma rekey_ok:
  assumes "ofo_ok b T n (w_tp w)" "ofo (w_tp w) = s # ss" "unat skip = k" "k < slen s"
  shows "ofo_ok b T n (w_tp (snd (tcp_ofo_rekey_after_trim w s skip)))"
proof -
  let ?tp = "w_tp w" and ?s = "trimmed s skip"
  let ?w' = "snd (tcp_ofo_rekey_after_trim w s skip)"
  note f = rekey_fields [OF assms(2), of skip]
  have sz: "rcvbuf_size (w_tp ?w') = rcvbuf_size ?tp" using ofo_frame_fields(2) [OF f(7)] .
  have q: "queue_ok b T (unat (rcvbuf_size ?tp)) 0 (s # ss)" and idx: "index_ok ?tp" and c: "counts_ok n ?tp"
    and hi: "unat (rcvbuf_size ?tp) < HALF"
    using assms(1,2) by (auto simp: ofo_ok_def counts_ok_def)
  have pc: "piece_ok b T (unat (rcvbuf_size ?tp)) s" using q by simp
  note t = trimmed_piece [OF pc hi assms(3,4)]
  have q': "queue_ok b T (unat (rcvbuf_size ?tp)) 0 (?s # ss)"
    using q t assms(4) by simp
  have e: "rb_inv (rb_erase (ofo_ref s) (ofo_tree ?tp))" "inorder (rb_erase (ofo_ref s) (ofo_tree ?tp)) = map ofo_ref ss"
    using idx assms(2) queue_ok_distinct [OF q] by (simp_all add: index_ok_def erase_inv inorder_erase)
  have "tcp_ofo_seq_lt (seg_seq ?s) (seg_seq u)" if "u \<in> set ss" for u
  proof -
    have "seq_off b (seg_seq ?s) < seq_off b (seg_seq u)" using queue_ok_sorted [OF q'] that by simp
    moreover have "seq_off b (seg_seq u) < HALF" using queue_ok_piece [OF q, of u] that piece_half hi by auto
    ultimately show ?thesis using ofo_lt_off [of b] by simp
  qed
  then have gt: "\<forall>k \<in> set (map ofo_ref ss). tcp_ofo_seq_lt (seg_seq ?s) (fst k)" by (simp add: ofo_ref_def)
  have tree: "rb_inv (ofo_tree (w_tp ?w'))" "inorder (ofo_tree (w_tp ?w')) = ofo_ref ?s # map ofo_ref ss"
    using tree_insert_ok [OF e(1), of ?s] sorted_cut [of "[]" _ "map ofo_ref ss", OF _ gt]
      takeWhile_cut [of "[]" "\<lambda>k. \<not> tcp_ofo_seq_lt (seg_seq ?s) (fst k)" "map ofo_ref ss"] gt
    unfolding f(3) e(2) by simp_all
  have "k \<le> unat (ofo_bytes ?tp)" using c assms(2,4) by (simp add: counts_ok_def)
  then have "unat (ofo_bytes ?tp - skip) = unat (ofo_bytes ?tp) - k" using assms(3) by (simp add: unat_sub word_le_nat_alt)
  then have "counts_ok n (w_tp ?w')"
    unfolding counts_ok_def sz f(2,4,5,6) word_le_nat_alt ofo_total_simps t(3)
    using c assms(2-4) by (auto simp: counts_ok_def word_le_nat_alt)
  then show ?thesis unfolding ofo_ok_def index_ok_def sz f(2) using q' tree by simp
qed

end
