(* ===== verification/Tcp_Ofo_Drain.thy ===== *)
theory Tcp_Ofo_Drain
  imports Tcp_Ofo_Spec
begin

text \<open>
  Delivery out of the out-of-order queue. The drain loop relies on two callbacks; what they promise
  is the locale \<open>stream_sink\<close>. Inside it, draining is shown to deliver exactly the next bytes of the
  peer's stream and to report the end of the stream only after its last byte.
\<close>

text \<open>The part of a stream the queue invariant reads.\<close>

definition queue_same :: "tcp_stream \<Rightarrow> tcp_stream \<Rightarrow> bool" where
  "queue_same tp tp' \<longleftrightarrow> ofo tp' = ofo tp \<and> ofo_tree tp' = ofo_tree tp \<and> ofo_count tp' = ofo_count tp \<and>
     ofo_bytes tp' = ofo_bytes tp \<and> rcvbuf_used tp' = rcvbuf_used tp \<and> rcvbuf_size tp' = rcvbuf_size tp"

lemma queue_same_ok: "queue_same tp tp' \<Longrightarrow> ofo_ok b T n tp' \<longleftrightarrow> ofo_ok b T n tp"
  by (simp add: queue_same_def ofo_ok_def index_ok_def counts_ok_def)

lemma queue_same_refl [simp]: "queue_same tp tp"
  by (simp add: queue_same_def)

definition drained :: "(tcp_stream \<Rightarrow> byte list) \<Rightarrow> u32 \<Rightarrow> byte list \<Rightarrow> nat \<Rightarrow> tcp_stream \<Rightarrow> tcp_stream \<Rightarrow> bool" where
  "drained queued b T p tp tp' \<longleftrightarrow>
     rcvbuf_size tp' = rcvbuf_size tp \<and> status tp' = status tp \<and>
     (peer_eof tp' \<and> queued tp' = queued tp @ drop p T \<and> recv_ack tp' = b + of_nat (length T) + 1 \<and>
        ofo tp' = [] \<and> ofo_ok b T (length (queued tp')) tp' \<or>
      peer_eof tp' = peer_eof tp \<and>
      (\<exists>p'. p \<le> p' \<and> p' \<le> length T \<and> seq_off b (recv_ack tp') = p' \<and>
         queued tp' = queued tp @ take (p' - p) (drop p T) \<and> ofo_ok b T (length (queued tp')) tp' \<and>
         queue_ok b T (unat (rcvbuf_size tp')) p' (ofo tp')))"

lemma drained_start:
  assumes "drained queued b T p tp tp''" "queued tp = queued tp'" "rcvbuf_size tp = rcvbuf_size tp'"
    "status tp = status tp'" "peer_eof tp = peer_eof tp'"
  shows "drained queued b T p tp' tp''"
  using assms(1) unfolding drained_def assms(2-) .

lemma drained_compose:
  assumes "drained queued b T (p + k) tp1 tp2" "queued tp1 = queued tp @ take k (drop p T)"
    "rcvbuf_size tp1 = rcvbuf_size tp" "status tp1 = status tp" "peer_eof tp1 = peer_eof tp"
  shows "drained queued b T p tp tp2"
proof -
  have a: "take k (drop p T) @ drop (p + k) T = drop p T"
    by (metis add.commute append_take_drop_id drop_drop)
  have t: "take k (drop p T) @ take (p' - (p + k)) (drop (p + k) T) = take (p' - p) (drop p T)" if "p + k \<le> p'" for p'
    using take_add [of k "p' - (p + k)" "drop p T"] that by (simp add: add.commute)
  from assms(1) show ?thesis
    unfolding drained_def assms(2-) append_assoc a
  proof (elim conjE disjE exE, goal_cases)
    case (2 p')
    then show ?case using t [of p'] by auto
  qed simp
qed

lemma drained_eof:
  "\<lbrakk>rcvbuf_size tp' = rcvbuf_size tp; status tp' = status tp; peer_eof tp'; queued tp' = queued tp @ drop p T;
    recv_ack tp' = b + of_nat (length T) + 1; ofo tp' = []; ofo_ok b T (length (queued tp')) tp'\<rbrakk>
   \<Longrightarrow> drained queued b T p tp tp'"
  by (simp add: drained_def)

text \<open>
  One delivery: the head segment starts at the receive point, and its bytes have just been handed
  over (\<open>w\<close> is the state after a successful delivery).
\<close>

definition after_delivery where
  "after_delivery mp deliver eof w seg segs =
     (let w = tcp_ofo_seg_free mp (tcp_ofo_unlink w seg) seg;
          w = w\<lparr>w_tp := (w_tp w)\<lparr>recv_ack := recv_ack (w_tp w) + seg_len seg\<rparr>\<rparr>
      in if seg_has_fin seg then
           tcp_ofo_purge mp (eof (w\<lparr>w_tp := (w_tp w)\<lparr>recv_ack := recv_ack (w_tp w) + 1\<rparr>\<rparr>))
         else drain_loop mp (Some deliver) (Some eof) w segs)"

locale stream_sink =
  fixes deliver :: "('p, 'x) ofo_world_scheme \<Rightarrow> byte list \<Rightarrow> int \<times> ('p, 'x) ofo_world_scheme"
    and eof :: "('p, 'x) ofo_world_scheme \<Rightarrow> ('p, 'x) ofo_world_scheme"
    and queued :: "tcp_stream \<Rightarrow> byte list"
  assumes deliver_ok: "deliver w data = (0, w') \<Longrightarrow>
      queued (w_tp w') = queued (w_tp w) @ data \<and> queue_same (w_tp w) (w_tp w') \<and>
      recv_ack (w_tp w') = recv_ack (w_tp w) \<and> peer_eof (w_tp w') = peer_eof (w_tp w) \<and> status (w_tp w') = status (w_tp w)"
    and deliver_fail: "deliver w data = (rc, w') \<Longrightarrow> rc \<noteq> 0 \<Longrightarrow> w_tp w' = w_tp w"
    and eof_ok: "queued (w_tp (eof w)) = queued (w_tp w) \<and> queue_same (w_tp w) (w_tp (eof w)) \<and>
      recv_ack (w_tp (eof w)) = recv_ack (w_tp w) \<and> peer_eof (w_tp (eof w)) \<and> status (w_tp (eof w)) = status (w_tp w)"
    and queued_frame: "rx_queue tp' = rx_queue tp \<Longrightarrow> rx_current tp' = rx_current tp \<Longrightarrow> queued tp' = queued tp"
begin

lemma queued_ofo_frame: "ofo_frame tp tp' \<Longrightarrow> queued tp' = queued tp"
  by (intro queued_frame ofo_frame_fields)

text \<open>The end of the stream: the segment with the FIN has been taken off the queue.\<close>

lemma finish_fin:
  assumes "unat (rcvbuf_used (w_tp w)) = length (queued (w_tp w)) + ofo_total (ofo (w_tp w))"
    and "unat (rcvbuf_used (w_tp w)) \<le> unat (rcvbuf_size (w_tp w))" "unat (rcvbuf_size (w_tp w)) < HALF"
    and "seq_off b (recv_ack (w_tp w)) = length T"
  defines "w1 \<equiv> eof (w\<lparr>w_tp := (w_tp w)\<lparr>recv_ack := recv_ack (w_tp w) + 1\<rparr>\<rparr>)"
  shows "peer_eof (w_tp (tcp_ofo_purge mp w1)) \<and> queued (w_tp (tcp_ofo_purge mp w1)) = queued (w_tp w) \<and>
    recv_ack (w_tp (tcp_ofo_purge mp w1)) = b + of_nat (length T) + 1 \<and> ofo (w_tp (tcp_ofo_purge mp w1)) = [] \<and>
    ofo_ok b T (length (queued (w_tp w))) (w_tp (tcp_ofo_purge mp w1)) \<and>
    rcvbuf_size (w_tp (tcp_ofo_purge mp w1)) = rcvbuf_size (w_tp w) \<and> status (w_tp (tcp_ofo_purge mp w1)) = status (w_tp w)"
proof -
  let ?w = "w\<lparr>w_tp := (w_tp w)\<lparr>recv_ack := recv_ack (w_tp w) + 1\<rparr>\<rparr>"
  have q0: "queued (w_tp ?w) = queued (w_tp w)" by (rule queued_frame) simp_all
  have e: "queued (w_tp w1) = queued (w_tp w)" "queue_same (w_tp w) (w_tp w1)"
      "recv_ack (w_tp w1) = recv_ack (w_tp w) + 1" "peer_eof (w_tp w1)" "status (w_tp w1) = status (w_tp w)"
    using eof_ok [of ?w] q0 by (auto simp: w1_def queue_same_def)
  note p = purge_ok [where mp = mp and w = w1]
  have "recv_ack (w_tp w) = b + of_nat (length T)"
    using assms(4) [symmetric] by (simp add: seq_off_def)
  moreover have "queued (w_tp (tcp_ofo_purge mp w1)) = queued (w_tp w1)"
    using p(6) by (intro queued_frame) (simp_all add: rx_frame_def)
  moreover have "ofo_ok b T (length (queued (w_tp w))) (w_tp (tcp_ofo_purge mp w1))"
  proof (rule empty_ok)
    show "unat (rcvbuf_used (w_tp (tcp_ofo_purge mp w1))) = length (queued (w_tp w))"
      unfolding p(5) using e(2) assms(1) by (simp add: queue_same_def)
    have "rcvbuf_size (w_tp (tcp_ofo_purge mp w1)) = rcvbuf_size (w_tp w)"
      using p(6) e(2) by (simp add: rx_frame_def queue_same_def)
    then show "length (queued (w_tp w)) \<le> unat (rcvbuf_size (w_tp (tcp_ofo_purge mp w1)))"
      "unat (rcvbuf_size (w_tp (tcp_ofo_purge mp w1))) < HALF" using assms(1-3) by simp_all
  qed (rule p)+
  moreover have "rcvbuf_size (w_tp (tcp_ofo_purge mp w1)) = rcvbuf_size (w_tp w)"
      "status (w_tp (tcp_ofo_purge mp w1)) = status (w_tp w)"
    using p(6) e(2,5) by (simp_all add: rx_frame_def queue_same_def)
  moreover have "peer_eof (w_tp (tcp_ofo_purge mp w1))" "recv_ack (w_tp (tcp_ofo_purge mp w1)) = recv_ack (w_tp w) + 1"
    using p(7,8) e(3,4) by simp_all
  ultimately show ?thesis using p(1) e(1) by simp
qed

lemma drain_loop_unfold:
  "drain_loop mp (Some deliver) (Some eof) w (seg # segs) =
     (let rcv = recv_ack (w_tp w); skip = rcv - seg_seq seg in
      if tcp_ofo_seq_gt (seg_seq seg) rcv then w
      else if tcp_ofo_seq_lt (seg_seq seg) rcv \<and> (skip > seg_len seg \<or> (skip = seg_len seg \<and> \<not> seg_has_fin seg)) then
        drain_loop mp (Some deliver) (Some eof) (tcp_ofo_seg_free mp
          (tcp_ofo_unlink (w\<lparr>w_tp := tcp_ofo_rcvbuf_sub (w_tp w) (seg_len seg)\<rparr>) seg) seg) segs
      else let (seg, w) = (if tcp_ofo_seq_lt (seg_seq seg) rcv then tcp_ofo_rekey_after_trim w seg skip else (seg, w));
               (rc, w) = (if seg_len seg > 0 then deliver w (seg_bytes seg) else (0, w))
      in if rc \<noteq> 0 then w else after_delivery mp deliver eof w seg segs)"
  unfolding drain_loop.simps after_delivery_def seg_bytes_def option.case Let_def ..

lemma after_delivery_ok:
  assumes "ofo_ok b T n (w_tp w)" "ofo (w_tp w) = s # ss" "n + slen s = length (queued (w_tp w))"
    and "seq_off b (seg_seq s) = p" "seq_off b (recv_ack (w_tp w)) = p"
    and IH: "\<And>w'. ofo (w_tp w') = ss \<Longrightarrow> ofo_ok b T (length (queued (w_tp w'))) (w_tp w') \<Longrightarrow>
      seq_off b (recv_ack (w_tp w')) = p + slen s \<Longrightarrow> p + slen s \<le> length T \<Longrightarrow>
      drained queued b T (p + slen s) (w_tp w') (w_tp (drain_loop mp (Some deliver) (Some eof) w' ss))"
  shows "drained queued b T (p + slen s) (w_tp w) (w_tp (after_delivery mp deliver eof w s ss))"
proof -
  let ?w1 = "tcp_ofo_seg_free mp (tcp_ofo_unlink w s) s"
  let ?w2 = "?w1\<lparr>w_tp := (w_tp ?w1)\<lparr>recv_ack := recv_ack (w_tp ?w1) + seg_len s\<rparr>\<rparr>"
  have fr: "ofo_frame (w_tp w) (w_tp ?w1)" using unlink_frame [of w s] by simp
  note ff = ofo_frame_fields [OF fr]
  have ok1: "ofo_ok b T (n + slen s) (w_tp ?w1)" "ofo (w_tp ?w1) = ss"
    using unlink_head_ok [OF assms(1,2)] unlink_fields(1) [of w, OF assms(2)] by simp_all
  have same: "queue_same (w_tp ?w1) (w_tp ?w2)" by (simp add: queue_same_def)
  have ok2: "ofo_ok b T (n + slen s) (w_tp ?w2)" "ofo (w_tp ?w2) = ss"
    using ok1 queue_same_ok [OF same] by simp_all
  have qd: "queued (w_tp ?w2) = queued (w_tp w)" using ff(3,4) by (intro queued_frame) simp_all
  have pc: "piece_ok b T (unat (rcvbuf_size (w_tp w))) s" and hi: "unat (rcvbuf_size (w_tp w)) < HALF"
    using assms(1,2) by (auto simp: ofo_ok_def counts_ok_def)
  have le: "p + slen s \<le> length T" "p + slen s < HALF" using pc hi assms(4) by (auto simp: piece_ok_def)
  have rcv: "seq_off b (recv_ack (w_tp ?w2)) = p + slen s"
    using seq_off_add [of b "recv_ack (w_tp w)" "seg_len s"] assms(5) le(2) ff(1) by simp
  show ?thesis
  proof (cases "seg_has_fin s")
    case True
    then have T: "p + slen s = length T" using pc assms(4) by (simp add: piece_ok_def)
    have c: "counts_ok (n + slen s) (w_tp ?w2)" using ok2(1) by (simp add: ofo_ok_def)
    have "unat (rcvbuf_used (w_tp ?w2)) = length (queued (w_tp ?w2)) + ofo_total (ofo (w_tp ?w2))"
      "unat (rcvbuf_used (w_tp ?w2)) \<le> unat (rcvbuf_size (w_tp ?w2))" "unat (rcvbuf_size (w_tp ?w2)) < HALF"
      using c qd assms(3) by (auto simp: counts_ok_def word_le_nat_alt)
    from finish_fin [OF this, of b T mp] rcv T
    have f: "peer_eof (w_tp (after_delivery mp deliver eof w s ss)) \<and> queued (w_tp (after_delivery mp deliver eof w s ss)) = queued (w_tp ?w2) \<and>
        recv_ack (w_tp (after_delivery mp deliver eof w s ss)) = b + of_nat (length T) + 1 \<and> ofo (w_tp (after_delivery mp deliver eof w s ss)) = [] \<and>
        ofo_ok b T (length (queued (w_tp ?w2))) (w_tp (after_delivery mp deliver eof w s ss)) \<and>
        rcvbuf_size (w_tp (after_delivery mp deliver eof w s ss)) = rcvbuf_size (w_tp ?w2) \<and>
        status (w_tp (after_delivery mp deliver eof w s ss)) = status (w_tp ?w2)"
      by (simp only: after_delivery_def Let_def True if_True simp_thms)
    show ?thesis by (rule drained_eof) (use f T qd ff in simp_all)
  next
    case False
    have "ofo_ok b T (length (queued (w_tp ?w2))) (w_tp ?w2)" using ok2(1) qd assms(3) by simp
    from IH [OF ok2(2) this rcv le(1)]
    have "drained queued b T (p + slen s) (w_tp ?w2) (w_tp (after_delivery mp deliver eof w s ss))"
      by (simp only: after_delivery_def Let_def False if_False)
    then show ?thesis by (rule drained_start) (use qd ff in simp_all)
  qed
qed

lemma deliver_head_ok:
  assumes "ofo_ok b T (length (queued (w_tp w))) (w_tp w)" "ofo (w_tp w) = s # ss"
    and "seg_seq s = recv_ack (w_tp w)" "seq_off b (recv_ack (w_tp w)) = p"
    and IH: "\<And>w'. ofo (w_tp w') = ss \<Longrightarrow> ofo_ok b T (length (queued (w_tp w'))) (w_tp w') \<Longrightarrow>
      seq_off b (recv_ack (w_tp w')) = p + slen s \<Longrightarrow> p + slen s \<le> length T \<Longrightarrow>
      drained queued b T (p + slen s) (w_tp w') (w_tp (drain_loop mp (Some deliver) (Some eof) w' ss))"
  shows "drained queued b T p (w_tp w)
    (w_tp (case (if seg_len s > 0 then deliver w (seg_bytes s) else (0, w)) of (rc, w) \<Rightarrow>
       if rc \<noteq> 0 then w else after_delivery mp deliver eof w s ss))"
proof -
  obtain rc w1 where d: "(if seg_len s > 0 then deliver w (seg_bytes s) else (0, w)) = (rc, w1)" by fastforce
  have pc: "piece_ok b T (unat (rcvbuf_size (w_tp w))) s" and hi: "unat (rcvbuf_size (w_tp w)) < HALF"
    and q: "queue_ok b T (unat (rcvbuf_size (w_tp w))) 0 (s # ss)"
    using assms(1,2) by (auto simp: ofo_ok_def counts_ok_def)
  have bytes: "seg_bytes s = take (slen s) (drop p T)" and le: "p + slen s \<le> length T"
    using pc assms(3,4) by (auto simp: piece_ok_def)
  show ?thesis
  proof (cases "rc = 0")
    case False
    then have "w_tp w1 = w_tp w" using d deliver_fail by (auto split: if_splits)
    then show ?thesis
      using d False assms le q by (auto simp: drained_def intro!: exI [of _ p])
  next
    case True
    have w1: "queued (w_tp w1) = queued (w_tp w) @ take (slen s) (drop p T)" "queue_same (w_tp w) (w_tp w1)"
      "recv_ack (w_tp w1) = recv_ack (w_tp w)" "peer_eof (w_tp w1) = peer_eof (w_tp w)" "status (w_tp w1) = status (w_tp w)"
      using d True deliver_ok [of w "seg_bytes s" w1] bytes unat_gt_0 [of "seg_len s"]
      by (auto simp: word_less_nat_alt split: if_splits)
    have "ofo (w_tp w1) = s # ss" "rcvbuf_size (w_tp w1) = rcvbuf_size (w_tp w)"
      using w1(2) assms(2) by (auto simp: queue_same_def)
    moreover have "ofo_ok b T (length (queued (w_tp w))) (w_tp w1)" using assms(1) queue_same_ok [OF w1(2)] by simp
    moreover have "length (queued (w_tp w)) + slen s = length (queued (w_tp w1))" using w1(1) le by simp
    ultimately have a: "drained queued b T (p + slen s) (w_tp w1) (w_tp (after_delivery mp deliver eof w1 s ss))"
      using after_delivery_ok [where w = w1 and s = s and ss = ss and p = p] IH assms(3,4) w1(3) by simp
    have "drained queued b T p (w_tp w) (w_tp (after_delivery mp deliver eof w1 s ss))"
      using w1(2) by (intro drained_compose [OF a w1(1) _ w1(5,4)]) (simp add: queue_same_def)
    then show ?thesis using d True by simp
  qed
qed

text \<open>A FIN segment all of whose bytes were delivered before.\<close>

lemma trimmed_fin_ok:
  assumes "ofo_ok b T (length (queued (w_tp w))) (w_tp w)" "ofo (w_tp w) = s # ss"
    and "skip = seg_len s" "seg_has_fin s" "seq_off b (recv_ack (w_tp w)) = p" "p = length T"
    and "tcp_ofo_rekey_after_trim w s skip = (s', w1)"
  shows "seg_len s' = 0 \<and> drained queued b T p (w_tp w) (w_tp (after_delivery mp deliver eof w1 s' ss))"
proof -
  note f = rekey_fields [OF assms(2), of skip, unfolded assms(7) fst_conv snd_conv]
  note ff = ofo_frame_fields [OF f(7)]
  have s': "seg_len s' = 0" "seg_has_fin s'" using assms(3,4) by (simp_all add: f(1))
  let ?w2 = "tcp_ofo_seg_free mp (tcp_ofo_unlink w1 s') s'"
  let ?w3 = "?w2\<lparr>w_tp := (w_tp ?w2)\<lparr>recv_ack := recv_ack (w_tp ?w2) + seg_len s'\<rparr>\<rparr>"
  note gg = ofo_frame_fields [OF unlink_frame [of w1 s']]
  have u: "ofo (w_tp ?w3) = ss" "rcvbuf_used (w_tp ?w3) = rcvbuf_used (w_tp w1)"
    using unlink_fields(1) [of w1 s' ss] f(1,2) unlink_fields(5) [of w1 s'] by simp_all
  have qd: "queued (w_tp ?w3) = queued (w_tp w)" using ff(3,4) gg(3,4) by (intro queued_frame) simp_all
  have c: "counts_ok (length (queued (w_tp w))) (w_tp w)" using assms(1) by (simp add: ofo_ok_def)
  have used: "unat (rcvbuf_used (w_tp ?w3)) = length (queued (w_tp ?w3)) + ofo_total (ofo (w_tp ?w3))"
    unfolding u qd f(6) using c assms(2,3) by (simp add: counts_ok_def)
  have sz: "rcvbuf_size (w_tp ?w3) = rcvbuf_size (w_tp w)" using ff(2) gg(2) by simp
  have le: "unat (rcvbuf_used (w_tp ?w3)) \<le> unat (rcvbuf_size (w_tp ?w3))" "unat (rcvbuf_size (w_tp ?w3)) < HALF"
    unfolding u(2) f(6) sz using c by (auto simp: counts_ok_def word_le_nat_alt)
  have rcv: "seq_off b (recv_ack (w_tp ?w3)) = length T" using assms(5,6) ff(1) gg(1) s'(1) by simp
  have ad: "after_delivery mp deliver eof w1 s' ss =
      tcp_ofo_purge mp (eof (?w3\<lparr>w_tp := (w_tp ?w3)\<lparr>recv_ack := recv_ack (w_tp ?w3) + 1\<rparr>\<rparr>))"
    by (simp only: after_delivery_def Let_def s'(2) if_True)
  note fin = finish_fin [OF used le rcv, of mp, folded ad]
  have "drained queued b T p (w_tp w) (w_tp (after_delivery mp deliver eof w1 s' ss))"
    by (rule drained_eof) (use fin qd sz ff gg assms(6) in simp_all)
  then show ?thesis using s'(1) by simp
qed

lemma drain_loop_ok:
  assumes "ofo (w_tp w) = segs" "ofo_ok b T (length (queued (w_tp w))) (w_tp w)"
    and "seq_off b (recv_ack (w_tp w)) = p" "p \<le> length T" "p < HALF"
  shows "drained queued b T p (w_tp w) (w_tp (drain_loop mp (Some deliver) (Some eof) w segs))"
  using assms
proof (induction segs arbitrary: w p)
  case Nil
  then show ?case by (auto simp: drained_def intro!: exI [of _ p])
next
  case (Cons s ss)
  let ?c = "seq_off b (seg_seq s)" and ?rcv = "recv_ack (w_tp w)"
  have pc: "piece_ok b T (unat (rcvbuf_size (w_tp w))) s" and hi: "unat (rcvbuf_size (w_tp w)) < HALF"
    and q: "queue_ok b T (unat (rcvbuf_size (w_tp w))) 0 (s # ss)"
    using Cons.prems(1,2) by (auto simp: ofo_ok_def counts_ok_def)
  have c: "?c < HALF" "?c + slen s < HALF" using pc hi by (auto simp: piece_ok_def)
  have cmp: "tcp_ofo_seq_gt (seg_seq s) ?rcv \<longleftrightarrow> p < ?c" "tcp_ofo_seq_lt (seg_seq s) ?rcv \<longleftrightarrow> ?c < p"
    using c(1) Cons.prems(3,5) ofo_gt_off(1) [of b "seg_seq s" ?rcv] ofo_lt_off [of b "seg_seq s" ?rcv] by simp_all
  show ?case
  proof (cases "p < ?c")
    case True
    then have "drain_loop mp (Some deliver) (Some eof) w (s # ss) = w"
      by (simp add: drain_loop_unfold cmp(1))
    then show ?thesis using Cons.prems q True by (auto simp: drained_def intro!: exI [of _ p])
  next
    case F: False
    let ?skip = "?rcv - seg_seq s"
    have skip: "unat ?skip = p - ?c" using seq_off_diff [of b "seg_seq s" ?rcv] F Cons.prems(3) by simp
    have IH': "drained queued b T (p' + slen t) (w_tp w') (w_tp (drain_loop mp (Some deliver) (Some eof) w' ss))"
      if "ofo (w_tp w') = ss" "ofo_ok b T (length (queued (w_tp w'))) (w_tp w')"
        "seq_off b (recv_ack (w_tp w')) = p' + slen t" "p' + slen t \<le> length T" "p' + slen t = ?c + slen s" for p' t w'
      using Cons.IH [OF that(1-4)] c(2) that(5) by simp
    show ?thesis
    proof (cases "?c < p")
      case False
      then have eq: "seg_seq s = ?rcv" using F Cons.prems(3) seq_off_inj [of b "seg_seq s" ?rcv] by simp
      have "drain_loop mp (Some deliver) (Some eof) w (s # ss) =
          (case (if seg_len s > 0 then deliver w (seg_bytes s) else (0, w)) of (rc, w) \<Rightarrow>
             if rc \<noteq> 0 then w else after_delivery mp deliver eof w s ss)"
        unfolding drain_loop_unfold Let_def cmp using F False by simp
      then show ?thesis
        using deliver_head_ok [OF Cons.prems(2,1) eq Cons.prems(3), of mp] IH' [where t = s and p' = p] F False by simp
    next
      case lt: True
      let ?drop = "?skip > seg_len s \<or> (?skip = seg_len s \<and> \<not> seg_has_fin s)"
      show ?thesis
      proof (cases ?drop)
        case True
        let ?w1 = "tcp_ofo_unlink (w\<lparr>w_tp := tcp_ofo_rcvbuf_sub (w_tp w) (seg_len s)\<rparr>) s"
        let ?w2 = "tcp_ofo_seg_free mp ?w1 s"
        have run: "drain_loop mp (Some deliver) (Some eof) w (s # ss) = drain_loop mp (Some deliver) (Some eof) ?w2 ss"
          unfolding drain_loop_unfold Let_def cmp using lt True by simp
        from discard_head_ok [OF Cons.prems(2,1)]
        have w1: "ofo_ok b T (length (queued (w_tp w))) (w_tp ?w2)" "ofo (w_tp ?w2) = ss" "ofo_frame (w_tp w) (w_tp ?w2)"
          by simp_all
        note ff = ofo_frame_fields [OF w1(3)]
        have qd: "queued (w_tp ?w2) = queued (w_tp w)" using queued_ofo_frame [OF w1(3)] .
        have "drained queued b T p (w_tp ?w2) (w_tp (drain_loop mp (Some deliver) (Some eof) ?w2 ss))"
          by (rule Cons.IH) (use w1 qd ff(1) Cons.prems in simp_all)
        then show ?thesis unfolding run by (rule drained_start) (use qd ff in simp_all)
      next
        case keep: False
        obtain s' w1 where r: "tcp_ofo_rekey_after_trim w s ?skip = (s', w1)" by fastforce
        have run: "drain_loop mp (Some deliver) (Some eof) w (s # ss) =
            (case (if seg_len s' > 0 then deliver w1 (seg_bytes s') else (0, w1)) of (rc, w) \<Rightarrow>
               if rc \<noteq> 0 then w else after_delivery mp deliver eof w s' ss)"
          unfolding drain_loop_unfold Let_def cmp using lt F keep r by auto
        note f = rekey_fields [OF Cons.prems(1), of ?skip, unfolded r fst_conv snd_conv]
        note ff = ofo_frame_fields [OF f(7)]
        have k: "p - ?c \<le> slen s" using keep skip by (auto simp: word_less_nat_alt)
        show ?thesis
        proof (cases "p - ?c = slen s")
          case True
          then have "?skip = seg_len s" using skip by (simp add: unsigned_word_eqI)
          moreover from this have fin: "seg_has_fin s" using keep by simp
          moreover have "p = length T" using True lt pc fin by (auto simp: piece_ok_def)
          ultimately show ?thesis
            using trimmed_fin_ok [OF Cons.prems(2,1) _ _ Cons.prems(3) _ r, of mp] run by simp
        next
          case ne: False
          then have kl: "p - ?c < slen s" using k by simp
          note t = trimmed_piece [OF pc hi skip kl]
          have ok1: "ofo_ok b T (length (queued (w_tp w))) (w_tp w1)"
            using rekey_ok [OF Cons.prems(2,1) skip kl] r by simp
          have qd: "queued (w_tp w1) = queued (w_tp w)" using queued_ofo_frame [OF f(7)] .
          have s': "s' = trimmed s ?skip" "seg_seq s' = recv_ack (w_tp w1)" "slen s' = slen s - (p - ?c)"
            using f(1) t(3) ff(1) by simp_all
          have "drained queued b T p (w_tp w1)
            (w_tp (case (if seg_len s' > 0 then deliver w1 (seg_bytes s') else (0, w1)) of (rc, w) \<Rightarrow>
               if rc \<noteq> 0 then w else after_delivery mp deliver eof w s' ss))"
            using ok1 qd f(2) s' ff(1) Cons.prems(3) kl lt
            by (intro deliver_head_ok IH' [where t = s']) simp_all
          then show ?thesis unfolding run by (rule drained_start) (use qd ff in simp_all)
        qed
      qed
    qed
  qed
qed

end

end
