(* ===== verification/Tcp_Frames.thy ===== *)
theory Tcp_Frames
  imports Tcp_Receive Tcp_Ofo_Drain
begin

text \<open>
  What the out-of-order queue and the delivery of payload leave alone of a socket: the sending half
  of its stream and everything outside the stream. Collected in \<open>outer_same\<close>.
\<close>

named_theorems outer_same

definition tx_part where
  "tx_part tp = (sent_seq tp, snd_una tp, sndbuf tp, fin_deferred tp, tx_queue tp, status tp)"

definition outer where
  "outer w = (tx_part (w_tp w), ofo_world.more w)"

lemma tx_part_upd [simp]:
  "tx_part (tp\<lparr>ofo := a\<rparr>) = tx_part tp" "tx_part (tp\<lparr>ofo_tree := t\<rparr>) = tx_part tp" "tx_part (tp\<lparr>ofo_count := c\<rparr>) = tx_part tp"
  "tx_part (tp\<lparr>ofo_bytes := n\<rparr>) = tx_part tp" "tx_part (tp\<lparr>ofo_reorder_distance_peak := n\<rparr>) = tx_part tp"
  "tx_part (tp\<lparr>rcvbuf_used := n\<rparr>) = tx_part tp" "tx_part (tp\<lparr>recv_ack := n\<rparr>) = tx_part tp" "tx_part (tp\<lparr>peer_eof := e\<rparr>) = tx_part tp"
  "tx_part (tp\<lparr>rx_queue := q\<rparr>) = tx_part tp" "tx_part (tp\<lparr>rx_current := r\<rparr>) = tx_part tp" "tx_part (tp\<lparr>dsack_pending := e\<rparr>) = tx_part tp"
  "tx_part (tp\<lparr>dsack_block := k\<rparr>) = tx_part tp" "tx_part (tp\<lparr>sack_recent := k\<rparr>) = tx_part tp"
  "tx_part (tp\<lparr>sack_recent_valid := e\<rparr>) = tx_part tp" "tx_part (tp\<lparr>sack_history := h\<rparr>) = tx_part tp"
  "tx_part (tcp_ofo_rcvbuf_sub tp n) = tx_part tp"
  by (simp_all add: tx_part_def tcp_ofo_rcvbuf_sub_def)

lemma outer_upd [simp]:
  "outer (w\<lparr>w_tp := tp\<rparr>) = (tx_part tp, snd (outer w))" "outer (w\<lparr>w_mem := m\<rparr>) = outer w" "outer (w\<lparr>w_st := s\<rparr>) = outer w"
  "tx_part (w_tp w) = fst (outer w)"
  by (simp_all add: outer_def)

lemma duplicate_in_ofo_part [simp]: "tx_part (duplicate_in_ofo tp q e segs) = tx_part tp"
  by (induction segs) (simp_all add: Let_def note_dsack_def)

lemma recent_in_ofo_part [simp]: "tx_part (recent_in_ofo tp q e segs) = tx_part tp"
  by (induction segs arbitrary: tp) simp_all

lemma note_part [simp]: "tx_part (tcp_sack_note_duplicate tp q n) = tx_part tp" "tx_part (tcp_sack_note_recent tp q n) = tx_part tp"
  by (simp_all add: tcp_sack_note_duplicate_def tcp_sack_note_recent_def Let_def note_dsack_def)

lemma rx_enqueue_part: "nsock_tcp_rx_enqueue tp b = Some tp' \<Longrightarrow> tx_part tp' = tx_part tp"
  by (auto simp: nsock_tcp_rx_enqueue_def split: if_splits)


lemma unlink_outer [outer_same]: "outer (tcp_ofo_unlink w s) = outer w"
  by (simp add: tcp_ofo_unlink_def Let_def)

lemma seg_free_outer [outer_same]: "outer (tcp_ofo_seg_free mp w s) = outer w"
  by (simp add: tcp_ofo_seg_free_def Let_def)

lemma rekey_outer [outer_same]: "outer (snd (tcp_ofo_rekey_after_trim w s k)) = outer w"
  by (simp add: tcp_ofo_rekey_after_trim_def Let_def)

lemma purge_loop_outer [outer_same]: "outer (purge_loop mp w segs) = outer w"
  by (induction segs arbitrary: w) (simp_all add: outer_same)

lemma purge_outer [outer_same]: "outer (tcp_ofo_purge mp w) = outer w"
  by (simp add: tcp_ofo_purge_def Let_def outer_same)

lemma window_drop_outer [outer_same]: "outer (tcp_ofo_record_rcv_window_drop w seq len fin) = outer w"
  by (simp add: tcp_ofo_record_rcv_window_drop_def)

lemma admit_outer [outer_same]: "outer (snd (ofo_admit mp w seq data fin before)) = outer w"
  by (simp add: ofo_admit_def Let_def split: prod.split option.split)

lemma link_outer [outer_same]: "outer (snd (tcp_ofo_link mp w seq data fin before)) = outer w"
proof (cases "ofo_admit mp w seq data fin before")
  case (Pair r w1)
  then have "outer w1 = outer w" using admit_outer [of mp w seq data fin before] by simp
  then show ?thesis by (simp add: tcp_ofo_link_def Pair count_drop_alloc_def Let_def split: prod.split sum.split)
qed

lemma queue_insert_loop_outer [outer_same]:
  "outer (snd (queue_insert_loop mp w seq data fin segs)) = outer w"
proof (induction segs arbitrary: w seq data)
  case (Cons s ss)
  have l: "outer (snd (case tcp_ofo_link mp w seq d False (Some s) of (rc, w) \<Rightarrow>
      if rc \<noteq> 0 then (- 1, w) else if c then (0, w) else queue_insert_loop mp w q d' fin ss)) = outer w" for d c q d'
    using link_outer [of mp w seq d False "Some s"] Cons.IH by (auto split: prod.split)
  show ?case by (simp add: Let_def l outer_same Cons.IH)
qed (simp add: outer_same)

lemma insert_in_window_outer [outer_same]:
  "outer (snd (insert_in_window mp w seq data fin)) = outer w"
  by (simp add: insert_in_window_def Let_def outer_same split: prod.split)

lemma queue_insert_outer [outer_same]:
  "outer (snd (tcp_ofo_queue_insert mp w seq data fin)) = outer w"
  by (simp add: tcp_ofo_queue_insert_def Let_def outer_same)

lemma deliver_outer [outer_same]: "outer (snd (tcp_deliver_payload mp w data)) = outer w"
  by (auto simp: tcp_deliver_payload_def Let_def dest!: rx_enqueue_part split: prod.split option.split)

lemma note_peer_eof_outer [outer_same]: "outer (tcp_note_peer_eof w) = outer w"
  by (simp add: tcp_note_peer_eof_def)

lemma drain_loop_outer:
  assumes "\<And>w data. outer (snd (deliver w data)) = outer w" "\<And>w. outer (eof w) = outer w"
  shows "outer (drain_loop mp (Some deliver) (Some eof) w segs) = outer w"
proof (induction segs arbitrary: w)
  case (Cons s ss)
  have after: "outer (after_delivery mp deliver eof w t ss) = outer w" for w t
    by (simp add: after_delivery_def Let_def outer_same Cons.IH assms(2))
  have del: "outer (case (if seg_len t > 0 then deliver w (seg_bytes t) else (0, w)) of
      (rc, w) \<Rightarrow> if rc \<noteq> 0 then w else after_delivery mp deliver eof w t ss) = outer w" for w t
    using assms(1) [of w "seg_bytes t"] by (auto simp: after split: prod.split)
  let ?skip = "recv_ack (w_tp w) - seg_seq s"
  obtain t w1 where r: "tcp_ofo_rekey_after_trim w s ?skip = (t, w1)" by fastforce
  have w1: "outer w1 = outer w" using rekey_outer [of w s ?skip] r by simp
  have unfold: "drain_loop mp (Some deliver) (Some eof) w (s # ss) =
     (if tcp_ofo_seq_gt (seg_seq s) (recv_ack (w_tp w)) then w
      else if tcp_ofo_seq_lt (seg_seq s) (recv_ack (w_tp w)) \<and> (?skip > seg_len s \<or> (?skip = seg_len s \<and> \<not> seg_has_fin s)) then
        drain_loop mp (Some deliver) (Some eof) (tcp_ofo_seg_free mp
          (tcp_ofo_unlink (w\<lparr>w_tp := tcp_ofo_rcvbuf_sub (w_tp w) (seg_len s)\<rparr>) s) s) ss
      else case (if tcp_ofo_seq_lt (seg_seq s) (recv_ack (w_tp w)) then (t, w1) else (s, w)) of (t, w) \<Rightarrow>
        case (if seg_len t > 0 then deliver w (seg_bytes t) else (0, w)) of
        (rc, w) \<Rightarrow> if rc \<noteq> 0 then w else after_delivery mp deliver eof w t ss)"
    unfolding drain_loop.simps after_delivery_def seg_bytes_def option.case Let_def r ..
  show ?case unfolding unfold by (simp add: outer_same Cons.IH del w1)
qed simp

lemma drain_ofo_outer [outer_same]: "outer (drain_ofo env w) = outer w"
  by (simp add: drain_ofo_def tcp_ofo_drain_def drain_loop_outer outer_same)

lemma ofo_insert_outer [outer_same]: "outer (snd (tcp_ofo_insert env w seq data fin)) = outer w"
proof -
  let ?w = "upd_tp (\<lambda>tp. tcp_sack_note_duplicate tp seq (of_nat (length data))) w"
  obtain r w1 where q: "tcp_ofo_queue_insert (env_mp env) ?w seq data fin = (r, w1)" by fastforce
  then have "outer w1 = outer ?w" using queue_insert_outer [of "env_mp env" ?w seq data fin] by simp
  then show ?thesis using q by (simp add: tcp_ofo_insert_def upd_tp_def Let_def)
qed

lemma receive_in_order_outer [outer_same]: "outer (receive_in_order env w seq data fin) = outer w"
proof (cases "tcp_deliver_payload (env_mp env) w data")
  case (Pair r w1)
  then have "outer w1 = outer w" using deliver_outer [of "env_mp env" w data] by simp
  then show ?thesis by (simp add: receive_in_order_def Pair upd_tp_def Let_def outer_same)
qed

declare outer_upd(4) [simp del]

lemma outer_more: "outer w' = outer w \<Longrightarrow> ofo_world.more w' = ofo_world.more w"
  by (simp add: outer_def)

lemma outer_part: "outer w' = outer w \<Longrightarrow> tx_part (w_tp w') = tx_part (w_tp w)"
  by (simp add: outer_def)

named_theorems more_same

lemmas unlink_more [more_same] = unlink_outer [THEN outer_more]
lemmas seg_free_more [more_same] = seg_free_outer [THEN outer_more]
lemmas rekey_more [more_same] = rekey_outer [THEN outer_more]
lemmas purge_loop_more [more_same] = purge_loop_outer [THEN outer_more]
lemmas purge_more [more_same] = purge_outer [THEN outer_more]
lemmas window_drop_more [more_same] = window_drop_outer [THEN outer_more]
lemmas admit_more [more_same] = admit_outer [THEN outer_more]
lemmas link_more [more_same] = link_outer [THEN outer_more]
lemmas queue_insert_loop_more [more_same] = queue_insert_loop_outer [THEN outer_more]
lemmas insert_in_window_more [more_same] = insert_in_window_outer [THEN outer_more]
lemmas queue_insert_more [more_same] = queue_insert_outer [THEN outer_more]
lemmas deliver_more [more_same] = deliver_outer [THEN outer_more]
lemmas note_peer_eof_more [more_same] = note_peer_eof_outer [THEN outer_more]
lemmas drain_ofo_more [more_same] = drain_ofo_outer [THEN outer_more]
lemmas ofo_insert_more [more_same] = ofo_insert_outer [THEN outer_more]
lemmas receive_in_order_more [more_same] = receive_in_order_outer [THEN outer_more]

text \<open>The fields of a socket outside the stream.\<close>

lemma more_fields:
  fixes w w' :: "'p tcp_world"
  assumes "ofo_world.more w' = ofo_world.more w"
  shows "sk_id w' = sk_id w" "sk_local_ip w' = sk_local_ip w" "sk_local_port w' = sk_local_port w"
    "sk_nodelay w' = sk_nodelay w" "sk_app_visible w' = sk_app_visible w" "sk_app_closed w' = sk_app_closed w"
    "sk_terminal_error w' = sk_terminal_error w" "sk_timer w' = sk_timer w" "sk_attached w' = sk_attached w"
    "sk_parent w' = sk_parent w" "sk_registered w' = sk_registered w" "sk_freed w' = sk_freed w" "sk_log w' = sk_log w"
  using assms by (cases w; cases w'; simp)+

lemmas drain_ofo_fields [simp] = more_fields [OF drain_ofo_more]
lemmas ofo_insert_fields [simp] = more_fields [OF ofo_insert_more]
lemmas receive_in_order_fields [simp] = more_fields [OF receive_in_order_more]
lemmas window_drop_fields [simp] = more_fields [OF window_drop_more]

subsection \<open>Teardown\<close>

lemma range_list_clear_sack: "\<exists>x. range_list_clear tp rs = tp\<lparr>sack := x\<rparr>"
proof (induction rs arbitrary: tp)
  case Nil
  have "tp = tp\<lparr>sack := sack tp\<rparr>" by simp
  then show ?case unfolding range_list_clear.simps by blast
next
  case (Cons r rs)
  have "\<exists>y. range_free tp = tp\<lparr>sack := y\<rparr>"
  proof -
    have "tp = tp\<lparr>sack := sack tp\<rparr>" by simp
    then show ?thesis unfolding range_free_def by metis
  qed
  then obtain y where y: "range_free tp = tp\<lparr>sack := y\<rparr>" ..
  from Cons.IH [of "range_free tp"] show ?case by (auto simp: y)
qed

lemma clear_sack: "\<exists>x. clear_sacked tp = tp\<lparr>sack := x\<rparr>" "\<exists>x. clear_retransmitted tp = tp\<lparr>sack := x\<rparr>"
proof -
  obtain x where "range_list_clear tp (sacked (sack tp)) = tp\<lparr>sack := x\<rparr>" using range_list_clear_sack by blast
  then show "\<exists>x. clear_sacked tp = tp\<lparr>sack := x\<rparr>" by (auto simp: clear_sacked_def Let_def)
  obtain x where "range_list_clear tp (retransmitted (sack tp)) = tp\<lparr>sack := x\<rparr>" using range_list_clear_sack by blast
  then show "\<exists>x. clear_retransmitted tp = tp\<lparr>sack := x\<rparr>" by (auto simp: clear_retransmitted_def Let_def)
qed

lemma state_reset_is_init: "tcp_sack_state_reset tp seq = tcp_sack_state_init tp seq"
proof -
  obtain x where x: "clear_sacked tp = tp\<lparr>sack := x\<rparr>" using clear_sack(1) by blast
  obtain y where y: "clear_retransmitted (tp\<lparr>sack := x\<rparr>) = tp\<lparr>sack := y\<rparr>" using clear_sack(2) [of "tp\<lparr>sack := x\<rparr>"] by auto
  show ?thesis unfolding tcp_sack_state_reset_def x y by (simp add: tcp_sack_state_init_def)
qed

lemma drain_fragments_fields:
  "w_tp (drain_fragments env w fs) = (if fs = [] then w_tp w else (w_tp w)\<lparr>tx_queue := []\<rparr>)"
  "ofo_world.more (drain_fragments env w fs) = ofo_world.more w"
proof (induction fs arbitrary: w)
  case (Cons f fs)
  case 1
  show ?case by (simp add: Cons.IH tcp_fragment_free_def upd_tp_def)
  case 2
  show ?case by (simp add: Cons.IH tcp_fragment_free_def upd_tp_def)
qed simp_all

lemma drain_blobs_fields:
  "w_tp (drain_blobs env w bs) = (if bs = [] then w_tp w else (w_tp w)\<lparr>rx_queue := []\<rparr>)"
  "ofo_world.more (drain_blobs env w bs) = ofo_world.more w"
proof (induction bs arbitrary: w)
  case (Cons b bs)
  case 1
  show ?case by (simp add: Cons.IH tcp_rx_blob_release_def upd_tp_def)
  case 2
  show ?case by (simp add: Cons.IH tcp_rx_blob_release_def upd_tp_def)
qed simp_all

lemma drain_send_tp:
  "w_tp (tcp_drain_send env w) = tcp_sack_state_init ((w_tp w)\<lparr>tx_queue := [], ack_pending := False,
     sndbuf := \<lparr>sb_chunks = [], sb_len = 0, sb_head_seq = sent_seq (w_tp w), sb_unacked = 0\<rparr>,
     snd_una := sent_seq (w_tp w)\<rparr>) (sent_seq (w_tp w))"
proof -
  have tx: "tx_queue (w_tp w) = [] \<Longrightarrow> (w_tp w)\<lparr>tx_queue := []\<rparr> = w_tp w" by (metis tcp_stream.surjective tcp_stream.update_convs(14))
  have sb: "sb\<lparr>sb_unacked := 0, sb_chunks := [], sb_len := 0, sb_head_seq := q\<rparr> =
      \<lparr>sb_chunks = [], sb_len = 0, sb_head_seq = q, sb_unacked = 0\<rparr>" for sb :: tcp_sndbuf and q by (cases sb) simp
  show ?thesis
    by (cases "tx_queue (w_tp w) = []")
      (simp_all add: tcp_drain_send_def Let_def drain_fragments_fields tcp_sndbuf_reset_def tcp_sndbuf_free_def
        tcp_sack_score_clear_def state_reset_is_init tx sb split: prod.split)
qed

lemma drain_send_more [more_same]: "ofo_world.more (tcp_drain_send env w) = ofo_world.more w"
  by (simp add: tcp_drain_send_def Let_def drain_fragments_fields split: prod.split)

text \<open>After the receive side was drained nothing waits for the application and no segment is kept.\<close>

lemma drain_recv_fields:
  fixes env and w :: "'p tcp_world"
  defines "w' \<equiv> tcp_drain_recv env w"
  shows "rx_queue (w_tp w') = []" "rx_current (w_tp w') = None" "ofo (w_tp w') = []" "ofo_tree (w_tp w') = RbNil"
    "ofo_count (w_tp w') = 0" "ofo_bytes (w_tp w') = 0" "rcvbuf_used (w_tp w') = 0" "recv_ack (w_tp w') = recv_ack (w_tp w)"
    "peer_eof (w_tp w') = peer_eof (w_tp w)" "status (w_tp w') = status (w_tp w)" "ofo_world.more w' = ofo_world.more w"
proof -
  define w1 where "w1 = drain_blobs env w (rx_queue (w_tp w))"
  define w2 where "w2 = (case rx_current (w_tp w1) of None \<Rightarrow> w1
      | Some b \<Rightarrow> upd_tp (\<lambda>tp. tp\<lparr>rx_current := None\<rparr>) (tcp_rx_blob_release env w1))"
  have w': "w' = upd_tp (\<lambda>tp. tp\<lparr>rcvbuf_used := 0\<rparr>) (tcp_ofo_purge (env_mp env) w2)"
    unfolding w'_def tcp_drain_recv_def Let_def w2_def w1_def ..
  have 1: "rx_queue (w_tp w1) = []" "recv_ack (w_tp w1) = recv_ack (w_tp w)" "peer_eof (w_tp w1) = peer_eof (w_tp w)"
    "status (w_tp w1) = status (w_tp w)" "ofo_world.more w1 = ofo_world.more w"
    by (simp_all add: w1_def drain_blobs_fields)
  have 2: "rx_queue (w_tp w2) = []" "rx_current (w_tp w2) = None" "recv_ack (w_tp w2) = recv_ack (w_tp w)"
    "peer_eof (w_tp w2) = peer_eof (w_tp w)" "status (w_tp w2) = status (w_tp w)" "ofo_world.more w2 = ofo_world.more w"
    by (cases "rx_current (w_tp w1)"; simp add: w2_def upd_tp_def tcp_rx_blob_release_def 1)+
  note p = purge_ok [where mp = "env_mp env" and w = w2]
  show "rx_queue (w_tp w') = []" "rx_current (w_tp w') = None" "ofo (w_tp w') = []" "ofo_tree (w_tp w') = RbNil"
    "ofo_count (w_tp w') = 0" "ofo_bytes (w_tp w') = 0" "rcvbuf_used (w_tp w') = 0" "recv_ack (w_tp w') = recv_ack (w_tp w)"
    "peer_eof (w_tp w') = peer_eof (w_tp w)" "status (w_tp w') = status (w_tp w)" "ofo_world.more w' = ofo_world.more w"
    using p 2 by (simp_all add: w' upd_tp_def rx_frame_def more_same)
qed

lemma set_status_tp: "w_tp (tcp_stream_set_status w s) = (w_tp w)\<lparr>status := s\<rparr>"
  by (simp add: tcp_stream_set_status_def Let_def upd_tp_def nsock_tcp_conn_unregister_def)

lemma set_status_fields [simp]:
  "sk_app_closed (tcp_stream_set_status w s) = sk_app_closed w"
  "sk_app_visible (tcp_stream_set_status w s) = sk_app_visible w"
  "sk_terminal_error (tcp_stream_set_status w s) = sk_terminal_error w"
  "sk_timer (tcp_stream_set_status w s) = sk_timer w"
  "sk_freed (tcp_stream_set_status w s) = sk_freed w"
  "sk_parent (tcp_stream_set_status w s) = sk_parent w"
  "sk_attached (tcp_stream_set_status w s) = sk_attached w"
  "sk_log (tcp_stream_set_status w s) = sk_log w"
  by (simp_all add: tcp_stream_set_status_def Let_def upd_tp_def nsock_tcp_conn_unregister_def)

lemma nsock_free_tp:
  "\<exists>sb st. w_tp (nsock_free env w) = tcp_sack_state_init ((w_tp w)\<lparr>sndbuf := sb, status := st\<rparr>) (snd_una (w_tp w)) \<and>
     (status (w_tp w) \<noteq> TCP_STATUS_TIME_WAIT \<longrightarrow> st = status (w_tp w)) \<and>
     (status (w_tp w) = TCP_STATUS_TIME_WAIT \<longrightarrow> st = TCP_STATUS_CLOSED)"
proof -
  define w1 where "w1 = (if status (w_tp w) = TCP_STATUS_TIME_WAIT then tcp_stream_set_status w TCP_STATUS_CLOSED else w)"
  define w2 where "w2 = sock_timer_cancel (w1\<lparr>sk_attached := False\<rparr>)"
  obtain sb memory where sb: "tcp_sndbuf_free (env_mp env) (w_mem w2) (sndbuf (tcp_sack_state_init (w_tp w2) (snd_una (w_tp w2)))) = (sb, memory)"
    by fastforce
  have tp: "w_tp w2 = (w_tp w)\<lparr>status := status (w_tp w1)\<rparr>" by (simp add: w2_def w1_def sock_timer_cancel_def set_status_tp)
  have "w_tp (nsock_free env w) = tcp_sack_state_init (w_tp w2) (snd_una (w_tp w2))\<lparr>sndbuf := sb\<rparr>"
    using sb by (simp add: nsock_free_def Let_def log_fx_def state_reset_is_init flip: w1_def w2_def)
  also have "\<dots> = tcp_sack_state_init ((w_tp w)\<lparr>sndbuf := sb, status := status (w_tp w1)\<rparr>) (snd_una (w_tp w))"
    by (simp add: tp tcp_sack_state_init_def)
  finally show ?thesis
    by (intro exI [of _ sb] exI [of _ "status (w_tp w1)"]) (simp add: w1_def set_status_tp)
qed

lemma nsock_free_fields [simp]:
  "sk_terminal_error (nsock_free env w) = sk_terminal_error w" "sk_freed (nsock_free env w)"
  "sk_app_closed (nsock_free env w) = sk_app_closed w" "sk_timer (nsock_free env w) = None"
  by (simp_all add: nsock_free_def Let_def log_fx_def sock_timer_cancel_def split: prod.split)

text \<open>An aborted stream is closed, has nothing for the application and remembers the error.\<close>

lemma unpend_fields [simp]:
  "w_tp (parent_unpend w) = w_tp w" "w_mem (parent_unpend w) = w_mem w"
  "sk_app_closed (parent_unpend w) = sk_app_closed w" "sk_terminal_error (parent_unpend w) = sk_terminal_error w"
  by (simp_all add: parent_unpend_def)

lemma abort_fields:
  fixes env and w :: "'p tcp_world" and e and r
  defines "w' \<equiv> tcp_abort_stream env w e r"
  shows "status (w_tp w') = TCP_STATUS_CLOSED" "rx_queue (w_tp w') = []" "rx_current (w_tp w') = None"
    "sk_terminal_error w' = Some e" "ofo (w_tp w') = []" "peer_eof (w_tp w') = peer_eof (w_tp w)"
    "sk_app_closed w \<Longrightarrow> sk_freed w'"
proof -
  define old where "old = status (w_tp w)"
  define w1 where "w1 = upd_tp (\<lambda>tp. tp\<lparr>close_deadline_cycles := 0\<rparr>) (sock_timer_cancel w)"
  define w2 where "w2 = (if r \<and> old \<noteq> TCP_STATUS_CLOSED \<and> old \<noteq> TCP_STATUS_LISTEN \<and> old \<noteq> TCP_STATUS_SYN_SENT \<and> old \<noteq> TCP_STATUS_TIME_WAIT
    then tcp_try_send_abort_reset w1 else w1)"
  define w3 where "w3 = tcp_stream_set_status (if old = TCP_STATUS_SYN_RECV then parent_unpend w2 else w2) TCP_STATUS_CLOSED"
  define w4 where "w4 = tcp_drain_recv env (tcp_drain_send env w3)"
  define w5 where "w5 = log_fx (Fx_ready (OWNER_IO_EV_ERROR OR OWNER_IO_EV_HUP)) (log_fx (Fx_abort_waiters e) (w4\<lparr>sk_terminal_error := Some e\<rparr>))"
  have w': "w' = (if sk_app_closed w5 \<or> old = TCP_STATUS_SYN_RECV then nsock_free env w5 else w5)"
    unfolding w'_def tcp_abort_stream_def Let_def w5_def w4_def w3_def w2_def w1_def old_def ..
  have 3: "status (w_tp w3) = TCP_STATUS_CLOSED" "peer_eof (w_tp w3) = peer_eof (w_tp w)" "sk_app_closed w3 = sk_app_closed w"
    by (simp_all add: w3_def w2_def w1_def set_status_tp upd_tp_def sock_timer_cancel_def tcp_try_send_abort_reset_def log_fx_def)
  note d = drain_recv_fields [of env "tcp_drain_send env w3", folded w4_def]
  have "ofo_world.more w4 = ofo_world.more w3" using d(11) by (simp add: drain_send_more)
  note m = more_fields [OF this]
  have 5: "status (w_tp w5) = TCP_STATUS_CLOSED" "rx_queue (w_tp w5) = []" "rx_current (w_tp w5) = None"
    "sk_terminal_error w5 = Some e" "ofo (w_tp w5) = []" "peer_eof (w_tp w5) = peer_eof (w_tp w)" "sk_app_closed w5 = sk_app_closed w"
    using d 3 m by (simp_all add: w5_def log_fx_def drain_send_tp tcp_sack_state_init_def)
  obtain sb st where f: "w_tp (nsock_free env w5) = tcp_sack_state_init ((w_tp w5)\<lparr>sndbuf := sb, status := st\<rparr>) (snd_una (w_tp w5))"
      "st = TCP_STATUS_CLOSED"
    using nsock_free_tp [of env w5] 5(1) by auto
  show "status (w_tp w') = TCP_STATUS_CLOSED" "rx_queue (w_tp w') = []" "rx_current (w_tp w') = None"
    "sk_terminal_error w' = Some e" "ofo (w_tp w') = []" "peer_eof (w_tp w') = peer_eof (w_tp w)" "sk_app_closed w \<Longrightarrow> sk_freed w'"
    unfolding w' using 5 f by (simp_all add: tcp_sack_state_init_def)
qed

end
