(* ===== verification/Tcp_Receive_Spec.thy ===== *)
theory Tcp_Receive_Spec
  imports Tcp_Frames
begin

text \<open>
  What the receive side promises: whatever the order, duplication and segmentation in which the
  peer's segments arrive, and however the application reads, the bytes it has read followed by
  those waiting for it are exactly the first bytes of the peer's stream, the acknowledgement number
  names the next one, and the end of the stream is reported only after its last byte.
\<close>

subsection \<open>Bytes waiting for the application\<close>

definition blob_bytes :: "tcp_rx_blob \<Rightarrow> byte list" where
  "blob_bytes b = drop (blob_off b) (blob_data b)"

definition current_bytes :: "tcp_stream \<Rightarrow> byte list" where
  "current_bytes tp = (case rx_current tp of None \<Rightarrow> [] | Some b \<Rightarrow> blob_bytes b)"

definition queued :: "tcp_stream \<Rightarrow> byte list" where
  "queued tp = current_bytes tp @ concat (map blob_bytes (rx_queue tp))"

lemma queued_cong: "rx_queue tp' = rx_queue tp \<Longrightarrow> rx_current tp' = rx_current tp \<Longrightarrow> queued tp' = queued tp"
  by (simp add: queued_def current_bytes_def)

lemma rx_enqueue_cases:
  "nsock_tcp_rx_enqueue tp b = Some tp' \<Longrightarrow> tp' = tp\<lparr>rx_queue := rx_queue tp @ [b]\<rparr>"
  by (simp add: nsock_tcp_rx_enqueue_def split: if_splits)

text \<open>A delivery either queues one blob with the data, or changes nothing of the stream.\<close>

lemma deliver_outcome:
  "fst (tcp_deliver_payload mp w data) = 0 \<and>
     (if data = [] then snd (tcp_deliver_payload mp w data) = w
      else w_tp (snd (tcp_deliver_payload mp w data)) =
        (w_tp w)\<lparr>rx_queue := rx_queue (w_tp w) @ [\<lparr>blob_data = data, blob_off = 0\<rparr>]\<rparr>) \<or>
   fst (tcp_deliver_payload mp w data) \<noteq> 0 \<and> w_tp (snd (tcp_deliver_payload mp w data)) = w_tp w"
  unfolding tcp_deliver_payload_def nsock_tcp_rx_enqueue_def Let_def
  by (simp split: prod.split)

lemma deliver_cases:
  assumes "tcp_deliver_payload mp w data = (rc, w')"
  obtains "rc = 0" "data = []" "w' = w"
  | "rc = 0" "data \<noteq> []" "w_tp w' = (w_tp w)\<lparr>rx_queue := rx_queue (w_tp w) @ [\<lparr>blob_data = data, blob_off = 0\<rparr>]\<rparr>"
  | "rc \<noteq> 0" "w_tp w' = w_tp w"
  using deliver_outcome [of mp w data] unfolding assms by (auto split: if_splits)

lemma deliver_queued:
  assumes "tcp_deliver_payload mp w data = (0, w')"
  shows "queued (w_tp w') = queued (w_tp w) @ data"
  using assms
proof (cases rule: deliver_cases)
  case 2
  then show ?thesis by (simp add: queued_def current_bytes_def blob_bytes_def)
qed simp_all

lemma deliver_same:
  assumes "tcp_deliver_payload mp w data = (0, w')"
  shows "queue_same (w_tp w) (w_tp w') \<and> recv_ack (w_tp w') = recv_ack (w_tp w) \<and>
    peer_eof (w_tp w') = peer_eof (w_tp w) \<and> status (w_tp w') = status (w_tp w)"
  using assms
proof (cases rule: deliver_cases)
  case 2
  then show ?thesis by (simp add: queue_same_def)
qed simp_all

lemma note_peer_eof_same:
  "queued (w_tp (tcp_note_peer_eof w)) = queued (w_tp w) \<and> queue_same (w_tp w) (w_tp (tcp_note_peer_eof w)) \<and>
   recv_ack (w_tp (tcp_note_peer_eof w)) = recv_ack (w_tp w) \<and> peer_eof (w_tp (tcp_note_peer_eof w)) \<and>
   status (w_tp (tcp_note_peer_eof w)) = status (w_tp w)"
  by (simp add: tcp_note_peer_eof_def queue_same_def queued_def current_bytes_def)

interpretation sink: stream_sink "tcp_deliver_payload mp" tcp_note_peer_eof queued for mp
proof
  fix w :: "('a, 'b) ofo_world_scheme" and data w'
  assume "tcp_deliver_payload mp w data = (0, w')"
  from deliver_queued [OF this] deliver_same [OF this]
  show "queued (w_tp w') = queued (w_tp w) @ data \<and> queue_same (w_tp w) (w_tp w') \<and>
      recv_ack (w_tp w') = recv_ack (w_tp w) \<and> peer_eof (w_tp w') = peer_eof (w_tp w) \<and> status (w_tp w') = status (w_tp w)" ..
next
  fix w :: "('a, 'b) ofo_world_scheme" and data rc w'
  assume "tcp_deliver_payload mp w data = (rc, w')" "rc \<noteq> 0"
  then show "w_tp w' = w_tp w" by (cases rule: deliver_cases) auto
next
  fix w :: "('a, 'b) ofo_world_scheme"
  show "queued (w_tp (tcp_note_peer_eof w)) = queued (w_tp w) \<and> queue_same (w_tp w) (w_tp (tcp_note_peer_eof w)) \<and>
   recv_ack (w_tp (tcp_note_peer_eof w)) = recv_ack (w_tp w) \<and> peer_eof (w_tp (tcp_note_peer_eof w)) \<and>
   status (w_tp (tcp_note_peer_eof w)) = status (w_tp w)" by (rule note_peer_eof_same)
next
  fix tp tp' :: tcp_stream
  assume "rx_queue tp' = rx_queue tp" "rx_current tp' = rx_current tp"
  then show "queued tp' = queued tp" by (rule queued_cong)
qed

subsection \<open>Frames\<close>

text \<open>The SACK notes touch nothing the receive side depends on.\<close>

definition note_frame :: "tcp_stream \<Rightarrow> tcp_stream \<Rightarrow> bool" where
  "note_frame tp tp' \<longleftrightarrow>
     (\<exists>a b c d. tp' = tp\<lparr>dsack_pending := a, dsack_block := b, sack_recent := c, sack_recent_valid := d\<rparr>)"

lemma note_frame_upd:
  "note_frame tp tp" "note_frame tp (tp\<lparr>dsack_pending := a\<rparr>)" "note_frame tp (tp\<lparr>sack_recent_valid := d\<rparr>)"
  "note_frame tp (tp\<lparr>sack_recent := c, sack_recent_valid := d\<rparr>)" "note_frame tp (note_dsack tp l r)"
proof -
  have "tp = tp\<lparr>dsack_pending := dsack_pending tp, dsack_block := dsack_block tp, sack_recent := sack_recent tp, sack_recent_valid := sack_recent_valid tp\<rparr>"
    "tp\<lparr>dsack_pending := a\<rparr> = tp\<lparr>dsack_pending := a, dsack_block := dsack_block tp, sack_recent := sack_recent tp, sack_recent_valid := sack_recent_valid tp\<rparr>"
    "tp\<lparr>sack_recent_valid := d\<rparr> = tp\<lparr>dsack_pending := dsack_pending tp, dsack_block := dsack_block tp, sack_recent := sack_recent tp, sack_recent_valid := d\<rparr>"
    "tp\<lparr>sack_recent := c, sack_recent_valid := d\<rparr> = tp\<lparr>dsack_pending := dsack_pending tp, dsack_block := dsack_block tp, sack_recent := c, sack_recent_valid := d\<rparr>"
    "note_dsack tp l r = tp\<lparr>dsack_pending := True, dsack_block := \<lparr>blk_left = l, blk_right = r\<rparr>, sack_recent := sack_recent tp, sack_recent_valid := sack_recent_valid tp\<rparr>"
    by (simp_all add: note_dsack_def)
  then show "note_frame tp tp" "note_frame tp (tp\<lparr>dsack_pending := a\<rparr>)" "note_frame tp (tp\<lparr>sack_recent_valid := d\<rparr>)"
    "note_frame tp (tp\<lparr>sack_recent := c, sack_recent_valid := d\<rparr>)" "note_frame tp (note_dsack tp l r)"
    unfolding note_frame_def by blast+
qed

lemma note_frame_trans:
  assumes "note_frame tp tp'" "note_frame tp' tp''"
  shows "note_frame tp tp''"
proof -
  obtain a b c d where 1: "tp' = tp\<lparr>dsack_pending := a, dsack_block := b, sack_recent := c, sack_recent_valid := d\<rparr>"
    using assms(1) unfolding note_frame_def by blast
  obtain a' b' c' d' where "tp'' = tp'\<lparr>dsack_pending := a', dsack_block := b', sack_recent := c', sack_recent_valid := d'\<rparr>"
    using assms(2) unfolding note_frame_def by blast
  then have "tp'' = tp\<lparr>dsack_pending := a', dsack_block := b', sack_recent := c', sack_recent_valid := d'\<rparr>"
    unfolding 1 by simp
  then show ?thesis unfolding note_frame_def by blast
qed

lemma duplicate_in_ofo_frame: "note_frame tp (duplicate_in_ofo tp seq e segs)"
  by (induction segs) (simp_all add: note_frame_upd Let_def)

lemma note_duplicate_frame: "note_frame tp (tcp_sack_note_duplicate tp seq len)"
proof -
  let ?tp = "tp\<lparr>dsack_pending := False\<rparr>"
  have "note_frame ?tp (tcp_sack_note_duplicate tp seq len)"
    unfolding tcp_sack_note_duplicate_def Let_def
    by (simp add: note_frame_upd(1,5) duplicate_in_ofo_frame)
  then show ?thesis by (rule note_frame_trans [OF note_frame_upd(2)])
qed

lemma recent_in_ofo_frame: "note_frame tp (recent_in_ofo tp seq e segs)"
proof (induction segs arbitrary: tp)
  case (Cons seg segs)
  have "note_frame tp (recent_in_ofo (tp\<lparr>sack_recent := x, sack_recent_valid := True\<rparr>) seq e segs)" for x
    by (rule note_frame_trans [OF note_frame_upd(4) Cons.IH])
  then show ?case using Cons.IH by simp
qed (simp add: note_frame_upd(1))

lemma note_recent_frame: "note_frame tp (tcp_sack_note_recent tp seq len)"
proof -
  let ?tp = "tp\<lparr>sack_recent_valid := False\<rparr>"
  have "note_frame ?tp (tcp_sack_note_recent tp seq len)"
    unfolding tcp_sack_note_recent_def Let_def by (simp add: note_frame_upd(1) recent_in_ofo_frame)
  then show ?thesis by (rule note_frame_trans [OF note_frame_upd(3)])
qed

text \<open>What the receive invariant reads.\<close>

definition rx_same :: "tcp_stream \<Rightarrow> tcp_stream \<Rightarrow> bool" where
  "rx_same tp tp' \<longleftrightarrow> queue_same tp tp' \<and> recv_ack tp' = recv_ack tp \<and> peer_eof tp' = peer_eof tp \<and>
     rx_queue tp' = rx_queue tp \<and> rx_current tp' = rx_current tp"

lemma rx_same_refl [simp]: "rx_same tp tp"
  by (simp add: rx_same_def)

lemma rx_same_trans: "rx_same tp tp' \<Longrightarrow> rx_same tp' tp'' \<Longrightarrow> rx_same tp tp''"
  by (simp add: rx_same_def queue_same_def)

lemma note_frame_same:
  assumes "note_frame tp tp'"
  shows "rx_same tp tp' \<and> status tp' = status tp"
  using assms unfolding note_frame_def by (elim exE) (simp add: rx_same_def queue_same_def)

lemmas note_duplicate_same = note_frame_same [OF note_duplicate_frame]
lemmas note_recent_same = note_frame_same [OF note_recent_frame]

lemma set_status_same: "rx_same (w_tp w) (w_tp (tcp_stream_set_status w s))"
  by (simp add: set_status_tp rx_same_def queue_same_def)

subsection \<open>Queued blobs are never empty\<close>

definition blob_ok :: "tcp_rx_blob \<Rightarrow> bool" where
  "blob_ok b \<longleftrightarrow> blob_off b < length (blob_data b)"

definition blobs_ok :: "tcp_stream \<Rightarrow> bool" where
  "blobs_ok tp \<longleftrightarrow> (\<forall>b \<in> set (rx_queue tp). blob_ok b) \<and> (\<forall>b. rx_current tp = Some b \<longrightarrow> blob_ok b)"

text \<open>\<open>tp'\<close> has the queue of \<open>tp\<close>, possibly with more proper blobs at its end.\<close>

definition rx_grown :: "tcp_stream \<Rightarrow> tcp_stream \<Rightarrow> bool" where
  "rx_grown tp tp' \<longleftrightarrow> rx_current tp' = rx_current tp \<and>
     (\<exists>bs. rx_queue tp' = rx_queue tp @ bs \<and> (\<forall>b \<in> set bs. blob_ok b))"

lemma rx_grown_ok: "rx_grown tp tp' \<Longrightarrow> blobs_ok tp \<Longrightarrow> blobs_ok tp'"
  by (auto simp: rx_grown_def blobs_ok_def)

lemma rx_grown_trans: "rx_grown tp tp' \<Longrightarrow> rx_grown tp' tp'' \<Longrightarrow> rx_grown tp tp''"
  unfolding rx_grown_def by fastforce

lemma rx_grown_frame: "rx_queue tp' = rx_queue tp \<Longrightarrow> rx_current tp' = rx_current tp \<Longrightarrow> rx_grown tp tp'"
  by (simp add: rx_grown_def)

lemma ofo_frame_grown: "ofo_frame tp tp' \<Longrightarrow> rx_grown tp tp'"
  by (intro rx_grown_frame ofo_frame_fields)

lemma deliver_grown:
  assumes "tcp_deliver_payload mp w data = (rc, w')"
  shows "rx_grown (w_tp w) (w_tp w')"
  using assms by (cases rule: deliver_cases) (simp_all add: rx_grown_def blob_ok_def)

lemma rekey_frame: "ofo_frame (w_tp w) (w_tp (snd (tcp_ofo_rekey_after_trim w s k)))"
  by (simp add: tcp_ofo_rekey_after_trim_def Let_def tcp_ofo_rcvbuf_sub_def ofo_frame_def)

lemma after_delivery_grown:
  assumes "\<And>w. rx_grown (w_tp w) (w_tp (drain_loop mp (Some deliver) (Some tcp_note_peer_eof) w ss))"
  shows "rx_grown (w_tp w) (w_tp (after_delivery mp deliver tcp_note_peer_eof w s ss))"
proof -
  let ?w1 = "tcp_ofo_seg_free mp (tcp_ofo_unlink w s) s"
  let ?w2 = "?w1\<lparr>w_tp := (w_tp ?w1)\<lparr>recv_ack := recv_ack (w_tp ?w1) + seg_len s\<rparr>\<rparr>"
  let ?w3 = "tcp_note_peer_eof (?w2\<lparr>w_tp := (w_tp ?w2)\<lparr>recv_ack := recv_ack (w_tp ?w2) + 1\<rparr>\<rparr>)"
  have g2: "rx_grown (w_tp w) (w_tp ?w2)"
    using ofo_frame_grown [OF unlink_frame, of w s] by (simp add: rx_grown_def)
  have "rx_grown (w_tp ?w2) (w_tp ?w3)" by (rule rx_grown_frame) (simp_all add: tcp_note_peer_eof_def)
  moreover have "rx_grown (w_tp ?w3) (w_tp (tcp_ofo_purge mp ?w3))"
    using purge_ok(6) [of ?w3 mp] by (intro rx_grown_frame) (simp_all add: rx_frame_def)
  ultimately have "rx_grown (w_tp w) (w_tp (tcp_ofo_purge mp ?w3))" using g2 rx_grown_trans by blast
  then show ?thesis
    using rx_grown_trans [OF g2 assms [of ?w2]] by (simp add: after_delivery_def Let_def)
qed

lemma drain_loop_grown:
  "rx_grown (w_tp w) (w_tp (drain_loop mp (Some (tcp_deliver_payload mp)) (Some tcp_note_peer_eof) w segs))"
proof (induction segs arbitrary: w)
  case Nil
  show ?case by (simp add: rx_grown_frame)
next
  case (Cons s ss)
  have del: "rx_grown (w_tp w) (w_tp (case (if seg_len t > 0 then tcp_deliver_payload mp w (seg_bytes t) else (0, w)) of
      (rc, w) \<Rightarrow> if rc \<noteq> 0 then w else after_delivery mp (tcp_deliver_payload mp) tcp_note_peer_eof w t ss))" for w :: "('a, 'b) ofo_world_scheme" and t
  proof -
    obtain rc w1 where d: "(if seg_len t > 0 then tcp_deliver_payload mp w (seg_bytes t) else (0, w)) = (rc, w1)" by fastforce
    have g: "rx_grown (w_tp w) (w_tp w1)"
      using d deliver_grown by (auto split: if_splits intro: rx_grown_frame)
    then show ?thesis unfolding d using rx_grown_trans [OF g after_delivery_grown [OF Cons.IH]] by simp
  qed
  let ?skip = "recv_ack (w_tp w) - seg_seq s"
  let ?w1 = "w\<lparr>w_tp := tcp_ofo_rcvbuf_sub (w_tp w) (seg_len s)\<rparr>"
  have "rx_grown (w_tp w) (w_tp (tcp_ofo_seg_free mp (tcp_ofo_unlink ?w1 s) s))"
    using ofo_frame_grown [OF ofo_frame_trans [OF rcvbuf_sub_frame unlink_frame [of ?w1, simplified]]] by simp
  note discard = rx_grown_trans [OF this Cons.IH]
  obtain t w1 where r: "tcp_ofo_rekey_after_trim w s ?skip = (t, w1)" by fastforce
  have trim: "rx_grown (w_tp w) (w_tp w1)" using ofo_frame_grown [OF rekey_frame, of w s ?skip] r by simp
  show ?case
    unfolding sink.drain_loop_unfold Let_def r
    using discard rx_grown_trans [OF trim del [of w1 t]] del [of w s] by (auto simp: rx_grown_frame)
qed

subsection \<open>The receive invariant\<close>

text \<open>
  \<open>S\<close> is the peer's whole stream, \<open>b\<close> the sequence number of its first byte, \<open>p\<close> how many of its bytes
  have arrived in order.
\<close>

definition rx_core :: "byte list \<Rightarrow> u32 \<Rightarrow> nat \<Rightarrow> tcp_stream \<Rightarrow> bool" where
  "rx_core S b p tp \<longleftrightarrow> p \<le> length S \<and> ofo_ok (recv_ack tp) (drop p S) (length (queued tp)) tp \<and>
     (if peer_eof tp then p = length S \<and> recv_ack tp = b + of_nat p + 1 \<and> ofo tp = []
      else recv_ack tp = b + of_nat p)"

definition rx_ok :: "byte list \<Rightarrow> u32 \<Rightarrow> nat \<Rightarrow> tcp_stream \<Rightarrow> bool" where
  "rx_ok S b p tp \<longleftrightarrow> rx_core S b p tp \<and> blobs_ok tp"

lemma rx_same_ok: "rx_same tp tp' \<Longrightarrow> rx_ok S b p tp' \<longleftrightarrow> rx_ok S b p tp"
  unfolding rx_ok_def rx_core_def using queue_same_ok [of tp tp'] queued_cong [of tp' tp]
  by (simp add: rx_same_def blobs_ok_def queue_same_def)

lemma rx_same_queued: "rx_same tp tp' \<Longrightarrow> queued tp' = queued tp"
  by (intro queued_cong) (simp_all add: rx_same_def)

text \<open>Moving the origin of the queue up to the receive point.\<close>

lemma piece_rebase:
  assumes "piece_ok b T hi s" "seq_off b rcv = k" "k \<le> seq_off b (seg_seq s)"
  shows "seq_off rcv (seg_seq s) = seq_off b (seg_seq s) - k" "piece_ok rcv (drop k T) hi s"
proof -
  show off: "seq_off rcv (seg_seq s) = seq_off b (seg_seq s) - k"
    using seq_off_diff [of b rcv "seg_seq s"] assms(2,3) by (simp add: seq_off_def)
  show "piece_ok rcv (drop k T) hi s"
    using assms unfolding piece_ok_def off by auto
qed

lemma queue_rebase:
  assumes "queue_ok b T hi lo ss" "seq_off b rcv = k" "k \<le> lo"
  shows "queue_ok rcv (drop k T) hi (lo - k) ss"
  using assms(1,3)
proof (induction ss arbitrary: lo)
  case (Cons s ss)
  then have k: "k \<le> seq_off b (seg_seq s)" by simp
  note r = piece_rebase [OF _ assms(2) k]
  have "queue_ok rcv (drop k T) hi (seq_off b (seg_seq s) + max 1 (slen s) - k) ss"
    using Cons.prems(1) k by (intro Cons.IH) auto
  then show ?case using Cons.prems k r [of T hi] by auto
qed simp

lemma ofo_rebase:
  assumes "ofo_ok b T n tp" "seq_off b rcv = k" "queue_ok b T (unat (rcvbuf_size tp)) k (ofo tp)"
  shows "ofo_ok rcv (drop k T) n tp"
  using assms(1) queue_rebase [OF assms(3,2)] by (simp add: ofo_ok_def)

text \<open>Draining from a state in which \<open>k\<close> more bytes have just been delivered.\<close>

lemma drain_core:
  assumes "p + k \<le> length S" "k < HALF" "\<not> peer_eof (w_tp w)"
    and "recv_ack (w_tp w) = b + of_nat (p + k)"
    and "ofo_ok (b + of_nat p) (drop p S) (length (queued (w_tp w))) (w_tp w)"
  shows "\<exists>p' \<ge> p + k. rx_core S b p' (w_tp (drain_ofo env w)) \<and>
    queued (w_tp (drain_ofo env w)) = queued (w_tp w) @ take (p' - (p + k)) (drop (p + k) S) \<and>
    status (w_tp (drain_ofo env w)) = status (w_tp w)"
proof -
  let ?b = "b + of_nat p :: u32" and ?T = "drop p S" and ?w' = "drain_ofo env w"
  have "seq_off ?b (recv_ack (w_tp w)) = k" using assms(2,4) by (simp add: seq_off_def unat_of_nat)
  then have d: "drained queued ?b ?T k (w_tp w) (w_tp ?w')"
    using sink.drain_loop_ok [OF refl assms(5), of k] assms(1,2) by (simp add: drain_ofo_def tcp_ofo_drain_def)
  have st: "status (w_tp ?w') = status (w_tp w)" using d by (simp add: drained_def)
  have dd: "drop k ?T = drop (p + k) S" by (simp add: add.commute)
  from d consider
      (eof) "peer_eof (w_tp ?w')" "queued (w_tp ?w') = queued (w_tp w) @ drop k ?T" "recv_ack (w_tp ?w') = ?b + of_nat (length ?T) + 1"
        "ofo (w_tp ?w') = []" "ofo_ok ?b ?T (length (queued (w_tp ?w'))) (w_tp ?w')"
    | (more) k' where "\<not> peer_eof (w_tp ?w')" "k \<le> k'" "k' \<le> length ?T" "seq_off ?b (recv_ack (w_tp ?w')) = k'"
        "queued (w_tp ?w') = queued (w_tp w) @ take (k' - k) (drop k ?T)" "ofo_ok ?b ?T (length (queued (w_tp ?w'))) (w_tp ?w')"
        "queue_ok ?b ?T (unat (rcvbuf_size (w_tp ?w'))) k' (ofo (w_tp ?w'))"
    using assms(3) unfolding drained_def by blast
  then show ?thesis
  proof cases
    case eof
    have "of_nat p + of_nat (length S - p) = (of_nat (length S) :: u32)"
      using assms(1) by (simp flip: of_nat_add)
    then have ra: "recv_ack (w_tp ?w') = b + of_nat (length S) + 1" using eof(3) by (simp add: add.assoc)
    have "ofo_ok (recv_ack (w_tp ?w')) [] (length (queued (w_tp ?w'))) (w_tp ?w')"
      using eof(4,5) by (simp add: ofo_ok_def)
    then have "rx_core S b (length S) (w_tp ?w')" using eof(1,4) ra by (simp add: rx_core_def)
    then show ?thesis using eof(2) dd st assms(1) by (intro exI [of _ "length S"]) simp
  next
    case (more k')
    have "recv_ack (w_tp ?w') = ?b + of_nat k'" using more(4) [symmetric] by (simp add: seq_off_def)
    moreover have "ofo_ok (recv_ack (w_tp ?w')) (drop k' ?T) (length (queued (w_tp ?w'))) (w_tp ?w')"
      by (rule ofo_rebase) (use more in simp_all)
    ultimately have "rx_core S b (p + k') (w_tp ?w')"
      using more assms(1) by (simp add: rx_core_def add.commute add.left_commute)
    moreover have "p + k' - (p + k) = k' - k" by simp
    ultimately show ?thesis using more(2,5) dd st by (intro exI [of _ "p + k'"]) simp
  qed
qed

lemma drain_blobs_ok: "blobs_ok (w_tp w) \<Longrightarrow> blobs_ok (w_tp (drain_ofo env w))"
  using rx_grown_ok [OF drain_loop_grown] by (simp add: drain_ofo_def tcp_ofo_drain_def)

lemma drain_ok:
  assumes "p + k \<le> length S" "k < HALF" "\<not> peer_eof (w_tp w)" "blobs_ok (w_tp w)"
    and "recv_ack (w_tp w) = b + of_nat (p + k)"
    and "ofo_ok (b + of_nat p) (drop p S) (length (queued (w_tp w))) (w_tp w)"
  shows "\<exists>p' \<ge> p + k. rx_ok S b p' (w_tp (drain_ofo env w)) \<and>
    queued (w_tp (drain_ofo env w)) = queued (w_tp w) @ take (p' - (p + k)) (drop (p + k) S) \<and>
    status (w_tp (drain_ofo env w)) = status (w_tp w)"
  using drain_core [OF assms(1-3,5,6), of env] drain_blobs_ok [OF assms(4), of env] by (auto simp: rx_ok_def)

subsection \<open>One segment\<close>

lemma tcp_seq_ofo: "tcp_seq_lt = tcp_ofo_seq_lt" "tcp_seq_gt = tcp_ofo_seq_gt"
  by (intro ext; simp add: tcp_seq_lt_def tcp_ofo_seq_lt_def tcp_seq_gt_def tcp_ofo_seq_gt_def)+

lemma honest_prefix:
  assumes "honest P T rcv seq data fin" "data' = take k data" "fin' \<Longrightarrow> fin \<and> data' = data"
  shows "honest P T rcv seq data' fin'"
proof -
  obtain p where p: "length data < 65536" "p + length data \<le> length (P @ T)" "data = take (length data) (drop p (P @ T))"
      "fin \<longrightarrow> p + length data = length (P @ T)"
      "if p < length P then length P - p \<le> HALF \<and> unat (rcv - seq) = length P - p
           else p - length P < HALF \<and> seq_off rcv seq = p - length P"
    using assms(1) by (auto simp: honest_def)
  have len: "length data' = min k (length data)" using assms(2) by simp
  have "data' = take k (take (length data) (drop p (P @ T)))" using assms(2) p(3) by simp
  also have "\<dots> = take (length data') (drop p (P @ T))" by (simp only: take_take len)
  finally have "data' = take (length data') (drop p (P @ T))" .
  moreover have "fin' \<longrightarrow> p + length data' = length (P @ T)" using assms(3) p(4) by auto
  moreover have "length data' < 65536" "p + length data' \<le> length (P @ T)" using p(1,2) len by auto
  ultimately show ?thesis unfolding honest_def using p(5) by blast
qed

lemma clip_honest:
  assumes "honest P T rcv seq data fin" "clip_right e seq data fin = (data', fin')"
  shows "honest P T rcv seq data' fin'"
proof -
  obtain k where "data' = take k data" "fin' \<Longrightarrow> fin \<and> data' = data"
    using assms(2) that [of "unat (e - seq)"] that [of "length data"]
    by (auto simp: clip_right_def Let_def split: if_splits)
  then show ?thesis by (rule honest_prefix [OF assms(1)])
qed

text \<open>An in-order segment, clipped to the window, is the next piece of the stream.\<close>

lemma honest_in_order:
  assumes "honest P T rcv rcv data fin"
  shows "length data \<le> length T" "data = take (length data) T" "fin \<Longrightarrow> data = T"
proof -
  have "\<not> tcp_ofo_seq_lt rcv rcv" using ofo_sq.lt_irrefl .
  from honest_ahead [OF assms this] show a: "length data \<le> length T" "data = take (length data) T"
    by (auto simp: offer_def piece_at_def)
  show "data = T" if fin
  proof -
    have "length data = length T" using honest_ahead [OF assms ofo_sq.lt_irrefl] that by (auto simp: offer_def piece_at_def)
    then show ?thesis using a(2) by simp
  qed
qed

lemma clip_in_window:
  assumes "length data < 65536" "unat wnd < HALF" "clip_right (rcv + wnd) rcv data fin = (data', fin')"
  shows "length data' \<le> unat wnd"
proof -
  let ?n = "of_nat (length data) :: u32"
  have n: "unat ?n = length data" using assms(1) by (simp add: unat_of_nat)
  have o: "seq_off rcv (rcv + ?n) = length data" "seq_off rcv (rcv + wnd) = unat wnd"
    using n by (simp_all add: seq_off_def)
  have "tcp_seq_gt (rcv + ?n) (rcv + wnd) \<longleftrightarrow> unat wnd < length data"
    unfolding tcp_seq_ofo using ofo_gt_off(1) [of rcv "rcv + ?n" "rcv + wnd"] o assms(1,2) by simp
  then show ?thesis using assms(3) by (auto simp: clip_right_def Let_def split: if_splits)
qed

lemma ofo_insert_ok:
  assumes "rx_ok S b p (w_tp w)" "\<not> peer_eof (w_tp w)" "honest (take p S) (drop p S) (recv_ack (w_tp w)) seq data fin"
    and "tcp_ofo_insert env w seq data fin = (rc, w')"
  shows "rx_ok S b p (w_tp w') \<and> queued (w_tp w') = queued (w_tp w) \<and> status (w_tp w') = status (w_tp w) \<and> \<not> peer_eof (w_tp w')"
proof -
  let ?len = "of_nat (length data) :: u32"
  let ?w1 = "upd_tp (\<lambda>tp. tcp_sack_note_duplicate tp seq ?len) w"
  obtain r w2 where q: "tcp_ofo_queue_insert (env_mp env) ?w1 seq data fin = (r, w2)" by fastforce
  have w': "w' = upd_tp (\<lambda>tp. tcp_sack_note_recent tp seq ?len) w2"
    using assms(4) q by (simp add: tcp_ofo_insert_def Let_def)
  have s1: "rx_same (w_tp w) (w_tp ?w1)" "status (w_tp ?w1) = status (w_tp w)"
    using note_duplicate_same by (simp_all add: upd_tp_def)
  have s2: "rx_same (w_tp w2) (w_tp w')" "status (w_tp w') = status (w_tp w2)"
    unfolding w' using note_recent_same by (simp_all add: upd_tp_def)
  have ok1: "rx_ok S b p (w_tp ?w1)" using assms(1) rx_same_ok [OF s1(1)] by simp
  have ra: "recv_ack (w_tp ?w1) = recv_ack (w_tp w)" "\<not> peer_eof (w_tp ?w1)" using s1 assms(2) by (auto simp: rx_same_def)
  have q': "ofo_ok (recv_ack (w_tp ?w1)) (drop p S) (length (queued (w_tp ?w1))) (w_tp w2)" and fr: "ofo_frame (w_tp ?w1) (w_tp w2)"
    using queue_insert_ok [OF _ _ q, of "drop p S" _ "take p S"] ok1 assms(3) ra(1) by (auto simp: rx_ok_def rx_core_def)
  note ff = ofo_frame_fields [OF fr]
  have qd: "queued (w_tp w2) = queued (w_tp ?w1)" by (rule queued_cong) (use ff in simp_all)
  have "blobs_ok (w_tp w2)" using rx_grown_ok [OF ofo_frame_grown [OF fr]] ok1 by (simp add: rx_ok_def rx_core_def)
  then have "rx_ok S b p (w_tp w2)" using ok1 q' ff ra qd by (simp add: rx_ok_def rx_core_def)
  then have "rx_ok S b p (w_tp w')" using rx_same_ok [OF s2(1)] by simp
  moreover have "queued (w_tp w') = queued (w_tp w)" using rx_same_queued [OF s2(1)] qd rx_same_queued [OF s1(1)] by simp
  moreover have "\<not> peer_eof (w_tp w')" using s2(1) ff ra by (simp add: rx_same_def)
  ultimately show ?thesis using s1(2) s2(2) ff by simp
qed

text \<open>Taking in the in-order segment.\<close>

lemma receive_in_order_ok:
  assumes "rx_ok S b p (w_tp w)" "\<not> peer_eof (w_tp w)" "seq = recv_ack (w_tp w)"
    and "honest (take p S) (drop p S) seq seq data fin" "length data \<le> unat (tcp_rcv_wnd (w_tp w))"
  shows "\<exists>p' \<ge> p. rx_ok S b p' (w_tp (receive_in_order env w seq data fin)) \<and>
    queued (w_tp (receive_in_order env w seq data fin)) = queued (w_tp w) @ take (p' - p) (drop p S) \<and>
    status (w_tp (receive_in_order env w seq data fin)) = status (w_tp w) \<and>
    (fst (tcp_deliver_payload (env_mp env) w data) = 0 \<longrightarrow> p + length data \<le> p')"
proof -
  obtain rc w1 where d: "tcp_deliver_payload (env_mp env) w data = (rc, w1)" by fastforce
  let ?n = "of_nat (length data) :: u32" and ?k = "length data" and ?T = "drop p S"
  have ok: "p \<le> length S" "recv_ack (w_tp w) = b + of_nat p" "blobs_ok (w_tp w)"
      "ofo_ok (b + of_nat p) ?T (length (queued (w_tp w))) (w_tp w)"
    using assms(1,2) by (auto simp: rx_ok_def rx_core_def)
  note io = honest_in_order [OF assms(4)]
  have k: "?k < 65536" using assms(4) by (simp add: honest_def)
  then have n: "unat ?n = ?k" by (simp add: unat_of_nat)
  show ?thesis
  proof (cases "rc = 0")
    case False
    with d have tp: "w_tp w1 = w_tp w" by (rule sink.deliver_fail)
    obtain r w2 where i: "tcp_ofo_insert env w1 seq data fin = (r, w2)" by fastforce
    have "receive_in_order env w seq data fin = w2" using d False i by (simp add: receive_in_order_def)
    moreover have "rx_ok S b p (w_tp w2) \<and> queued (w_tp w2) = queued (w_tp w) \<and> status (w_tp w2) = status (w_tp w)"
      using ofo_insert_ok [OF _ _ _ i] assms(1-4) by (simp add: tp)
    ultimately show ?thesis using d False by (intro exI [of _ p]) simp
  next
    case True
    define w2 where "w2 = upd_tp (\<lambda>tp. tp\<lparr>recv_ack := recv_ack tp + ?n, rcvbuf_used := rcvbuf_used tp + ?n\<rparr>) w1"
    have qd: "queued (w_tp w1) = queued (w_tp w) @ data" and sm: "queue_same (w_tp w) (w_tp w1)" "recv_ack (w_tp w1) = recv_ack (w_tp w)"
        "peer_eof (w_tp w1) = peer_eof (w_tp w)" "status (w_tp w1) = status (w_tp w)"
      using deliver_queued deliver_same d True by blast+
    have qd2: "queued (w_tp w2) = queued (w_tp w) @ data" unfolding qd [symmetric] by (rule queued_cong) (simp_all add: w2_def upd_tp_def)
    have bl2: "blobs_ok (w_tp w2)"
      using rx_grown_ok [OF deliver_grown [OF d] ok(3)] by (simp add: w2_def upd_tp_def blobs_ok_def)
    have c: "counts_ok (length (queued (w_tp w))) (w_tp w)" using ok(4) by (simp add: ofo_ok_def)
    have "rcvbuf_used (w_tp w) \<le> rcvbuf_size (w_tp w)" "unat (rcvbuf_size (w_tp w)) < HALF" using c by (auto simp: counts_ok_def)
    then have room: "unat (rcvbuf_used (w_tp w)) + ?k \<le> unat (rcvbuf_size (w_tp w))"
      using assms(5) by (auto simp: tcp_rcv_wnd_def word_le_nat_alt unat_sub split: if_splits)
    then have u: "unat (rcvbuf_used (w_tp w) + ?n) = unat (rcvbuf_used (w_tp w)) + ?k"
      using n \<open>unat (rcvbuf_size (w_tp w)) < HALF\<close> by (simp add: unat_add_u32)
    have ofo2: "ofo_ok (b + of_nat p) ?T (length (queued (w_tp w2))) (w_tp w2)"
      using ok(4) c sm(1) u room unfolding qd2
      by (simp add: ofo_ok_def index_ok_def counts_ok_def queue_same_def w2_def upd_tp_def word_le_nat_alt)
    have ra2: "recv_ack (w_tp w2) = b + of_nat (p + ?k)" using sm(2) ok(2) by (simp add: w2_def upd_tp_def)
    have pe: "\<not> peer_eof (w_tp w2)" "status (w_tp w2) = status (w_tp w)" using sm assms(2) by (simp_all add: w2_def upd_tp_def)
    have pk: "p + ?k \<le> length S" using io(1) ok(1) by auto
    show ?thesis
    proof (cases fin)
      case False
      then have run: "receive_in_order env w seq data fin = drain_ofo env w2"
        using d True by (simp add: receive_in_order_def w2_def Let_def)
      obtain p' where p': "p + ?k \<le> p'" "rx_ok S b p' (w_tp (drain_ofo env w2))"
          "queued (w_tp (drain_ofo env w2)) = queued (w_tp w2) @ take (p' - (p + ?k)) (drop (p + ?k) S)"
          "status (w_tp (drain_ofo env w2)) = status (w_tp w2)"
        using drain_ok [OF pk _ pe(1) bl2 ra2 ofo2, of env] k by auto
      have "data @ take (p' - (p + ?k)) (drop (p + ?k) S) = take ?k ?T @ take (p' - (p + ?k)) (drop ?k ?T)"
        using io(2) by (simp add: add.commute)
      also have "\<dots> = take (?k + (p' - (p + ?k))) ?T" by (rule take_add [symmetric])
      finally have "data @ take (p' - (p + ?k)) (drop (p + ?k) S) = take (p' - p) ?T" using p'(1) by simp
      then show ?thesis unfolding run using p' qd2 pe(2) by (intro exI [of _ p']) simp
    next
      case fin: True
      let ?w3 = "tcp_note_peer_eof (upd_tp (\<lambda>tp. tp\<lparr>recv_ack := recv_ack tp + 1\<rparr>) w2)"
      let ?w4 = "tcp_ofo_purge (env_mp env) ?w3"
      have run: "receive_in_order env w seq data fin = ?w4"
        using d True fin by (simp add: receive_in_order_def w2_def Let_def)
      note pg = purge_ok [where mp = "env_mp env" and w = ?w3]
      have T: "data = ?T" "p + ?k = length S" using io(3) fin pk by auto
      have w3: "queued (w_tp ?w3) = queued (w_tp w2)" "rcvbuf_used (w_tp ?w3) = rcvbuf_used (w_tp w2)" "ofo (w_tp ?w3) = ofo (w_tp w2)"
          "rcvbuf_size (w_tp ?w3) = rcvbuf_size (w_tp w2)" "blobs_ok (w_tp ?w3)"
        using bl2 by (simp_all add: tcp_note_peer_eof_def upd_tp_def queued_def current_bytes_def blobs_ok_def)
      have fr: "rcvbuf_size (w_tp ?w4) = rcvbuf_size (w_tp w2)" "status (w_tp ?w4) = status (w_tp w)"
          "rx_queue (w_tp ?w4) = rx_queue (w_tp ?w3)" "rx_current (w_tp ?w4) = rx_current (w_tp ?w3)"
        using pg(6) w3(4) pe(2) by (simp_all add: rx_frame_def tcp_note_peer_eof_def upd_tp_def)
      have qd4: "queued (w_tp ?w4) = queued (w_tp w2)" using queued_cong [OF fr(3,4)] w3(1) by simp
      have "ofo_ok (recv_ack (w_tp ?w4)) [] (length (queued (w_tp ?w4))) (w_tp ?w4)"
      proof (rule empty_ok)
        show "unat (rcvbuf_used (w_tp ?w4)) = length (queued (w_tp ?w4))"
          unfolding pg(5) qd4 w3 using ofo2 by (simp add: ofo_ok_def counts_ok_def)
        show "length (queued (w_tp ?w4)) \<le> unat (rcvbuf_size (w_tp ?w4))" "unat (rcvbuf_size (w_tp ?w4)) < HALF"
          unfolding qd4 fr(1) using ofo2 by (auto simp: ofo_ok_def counts_ok_def word_le_nat_alt)
      qed (rule pg)+
      moreover have "blobs_ok (w_tp ?w4)" using w3(5) fr(3,4) by (simp add: blobs_ok_def)
      moreover have "peer_eof (w_tp ?w4)" "recv_ack (w_tp ?w4) = b + of_nat (length S) + 1"
        unfolding pg(7,8) using ra2 T(2) by (simp_all add: tcp_note_peer_eof_def upd_tp_def)
      ultimately have "rx_ok S b (length S) (w_tp ?w4)" using pg(1) by (simp add: rx_ok_def rx_core_def)
      then show ?thesis unfolding run using qd4 qd2 T fr(2) ok(1) d True by (intro exI [of _ "length S"]) simp
    qed
  qed
qed

subsection \<open>The end of the stream\<close>

text \<open>The states in which the peer's FIN has been taken in.\<close>

definition eof_status :: "tcp_stream \<Rightarrow> bool" where
  "eof_status tp \<longleftrightarrow>
     (status tp \<in> {TCP_STATUS_CLOSE_WAIT, TCP_STATUS_LAST_ACK, TCP_STATUS_CLOSING, TCP_STATUS_TIME_WAIT} \<longrightarrow> peer_eof tp)"

text \<open>A socket torn down locally: closed, with nothing to read and a sticky error.\<close>

definition torn_down :: "'p tcp_world \<Rightarrow> bool" where
  "torn_down w \<longleftrightarrow> status (w_tp w) = TCP_STATUS_CLOSED \<and> queued (w_tp w) = [] \<and> sk_terminal_error w \<noteq> None"

lemma time_wait_ok:
  assumes "tcp_enter_time_wait env w = (alive, w')"
  shows "if alive then rx_same (w_tp w) (w_tp w') \<and> status (w_tp w') = TCP_STATUS_TIME_WAIT \<and>
      sk_terminal_error w' = sk_terminal_error w else torn_down w'"
proof -
  let ?w1 = "upd_tp (\<lambda>tp. tp\<lparr>retries := 0, close_deadline_cycles := 0\<rparr>) (tcp_stream_set_status w TCP_STATUS_TIME_WAIT)"
  have "rx_same (w_tp w) (w_tp ?w1)" "status (w_tp ?w1) = TCP_STATUS_TIME_WAIT" "sk_terminal_error ?w1 = sk_terminal_error w"
    by (simp_all add: upd_tp_def set_status_tp rx_same_def queue_same_def)
  then show ?thesis
    using assms abort_fields(1-4) [of env ?w1 ENOBUFS False]
    by (auto simp: tcp_enter_time_wait_def Let_def owner_timer_arm_after_ms_def sock_arm_at_def torn_down_def
        queued_def current_bytes_def split: if_splits)
qed

lemma apply_eof_ok:
  assumes "tcp_apply_peer_eof env w = (alive, w')" "eof_status (w_tp w)"
  shows "if alive then rx_same (w_tp w) (w_tp w') \<and> eof_status (w_tp w') \<and> sk_terminal_error w' = sk_terminal_error w
    else torn_down w'"
proof (cases "peer_eof (w_tp w)")
  case False
  then show ?thesis using assms by (auto simp: tcp_apply_peer_eof_def)
next
  case True
  have st: "rx_same (w_tp w) (w_tp (tcp_stream_set_status w s)) \<and> eof_status (w_tp (tcp_stream_set_status w s))" for s
    using set_status_same [of w s] True by (simp add: eof_status_def rx_same_def)
  have pe: "rx_same (w_tp w) (w_tp w') \<Longrightarrow> eof_status (w_tp w')" using True by (simp add: eof_status_def rx_same_def)
  show ?thesis
    using assms True st pe time_wait_ok [of env w alive w']
    by (cases "status (w_tp w)") (auto simp: tcp_apply_peer_eof_def)
qed

text \<open>
  One payload range through the receive path: the invariant is kept, the delivered bytes are the
  next ones of the stream.
\<close>

lemma receive_range_ok:
  assumes "rx_ok S b p (w_tp w)" "eof_status (w_tp w)"
    and "\<not> peer_eof (w_tp w) \<Longrightarrow> honest (take p S) (drop p S) (recv_ack (w_tp w)) seq data fin"
    and "tcp_receive_stream_range env w seq data fin = (alive, w')"
  shows "if alive then (\<exists>p' \<ge> p. rx_ok S b p' (w_tp w') \<and> queued (w_tp w') = queued (w_tp w) @ take (p' - p) (drop p S)) \<and>
      eof_status (w_tp w') \<and> sk_terminal_error w' = sk_terminal_error w else torn_down w'"
proof -
  let ?len = "of_nat (length data) :: u32"
  define w1 where "w1 = upd_tp (\<lambda>tp. tcp_sack_note_duplicate tp seq ?len) w"
  define w2 where "w2 = (if status (w_tp w1) \<in> {TCP_STATUS_CLOSE_WAIT, TCP_STATUS_LAST_ACK, TCP_STATUS_CLOSING, TCP_STATUS_TIME_WAIT}
    then tcp_note_peer_eof w1 else w1)"
  have s1: "rx_same (w_tp w) (w_tp w1)" "status (w_tp w1) = status (w_tp w)" "sk_terminal_error w1 = sk_terminal_error w"
    using note_duplicate_same by (simp_all add: w1_def upd_tp_def)
  have "rx_same (w_tp w1) (w_tp w2)"
    using assms(2) s1 by (auto simp: w2_def tcp_note_peer_eof_def rx_same_def queue_same_def eof_status_def)
  then have s2: "rx_same (w_tp w) (w_tp w2)" "status (w_tp w2) = status (w_tp w)" "sk_terminal_error w2 = sk_terminal_error w"
    using rx_same_trans [OF s1(1)] s1 by (auto simp: w2_def tcp_note_peer_eof_def)
  have ok2: "rx_ok S b p (w_tp w2)" and es2: "eof_status (w_tp w2)" and q2: "queued (w_tp w2) = queued (w_tp w)"
    using assms(1,2) s2 rx_same_ok rx_same_queued by (auto simp: eof_status_def rx_same_def)
  have same: "tcp_rcv_wnd (w_tp w2) = tcp_rcv_wnd (w_tp w)" "recv_ack (w_tp w2) = recv_ack (w_tp w)" "peer_eof (w_tp w2) = peer_eof (w_tp w)"
    using s2(1) by (simp_all add: rx_same_def queue_same_def tcp_rcv_wnd_def)
  have idle: "if True then (\<exists>p' \<ge> p. rx_ok S b p' (w_tp w3) \<and> queued (w_tp w3) = queued (w_tp w) @ take (p' - p) (drop p S)) \<and>
      eof_status (w_tp w3) \<and> sk_terminal_error w3 = sk_terminal_error w else torn_down w3"
    if "w_tp w3 = w_tp w2" "sk_terminal_error w3 = sk_terminal_error w2" for w3
    using that ok2 es2 q2 s2(3) by (auto intro!: exI [of _ p])
  let ?go = "\<lambda>w3. (\<exists>p' \<ge> p. rx_ok S b p' (w_tp w3) \<and> queued (w_tp w3) = queued (w_tp w) @ take (p' - p) (drop p S)) \<and>
      status (w_tp w3) = status (w_tp w) \<and> sk_terminal_error w3 = sk_terminal_error w \<and> (peer_eof (w_tp w) \<longrightarrow> peer_eof (w_tp w3))"
  have finish: "if alive then (\<exists>p' \<ge> p. rx_ok S b p' (w_tp w') \<and> queued (w_tp w') = queued (w_tp w) @ take (p' - p) (drop p S)) \<and>
      eof_status (w_tp w') \<and> sk_terminal_error w' = sk_terminal_error w else torn_down w'"
    if "?go w3" "tcp_apply_peer_eof env w3 = (alive, w')" for w3
  proof -
    have "eof_status (w_tp w3)" using that(1) assms(2) by (auto simp: eof_status_def)
    from apply_eof_ok [OF that(2) this] show ?thesis
      using that(1) rx_same_ok rx_same_queued by (auto split: if_splits)
  qed
  obtain data' fin' where c: "clip_right (recv_ack (w_tp w) + tcp_rcv_wnd (w_tp w)) seq data fin = (data', fin')" by fastforce
  have run: "tcp_receive_stream_range env w seq data fin =
      (if peer_eof (w_tp w2) then (True, w2)
       else if \<not> tcp_segment_acceptable (w_tp w2) seq (of_nat (length data)) fin then
         (True, if \<not> tcp_seq_lt seq (recv_ack (w_tp w)) then tcp_ofo_record_rcv_window_drop w2 seq ?len fin else w2)
       else tcp_apply_peer_eof env (if seq = recv_ack (w_tp w) then receive_in_order env w2 seq data' fin'
            else drain_ofo env (snd (tcp_ofo_insert env w2 seq data' fin'))))"
    unfolding tcp_receive_stream_range_def Let_def w1_def [symmetric] w2_def [symmetric] c split ..
  have wd: "w_tp (tcp_ofo_record_rcv_window_drop w2 seq ?len fin) = w_tp w2" by (simp add: tcp_ofo_record_rcv_window_drop_def)
  show ?thesis
  proof (cases "peer_eof (w_tp w2) \<or> \<not> tcp_segment_acceptable (w_tp w2) seq (of_nat (length data)) fin")
    case True
    then have "alive" "w_tp w' = w_tp w2" "sk_terminal_error w' = sk_terminal_error w2"
      using assms(4) wd unfolding run by (auto split: if_splits)
    then show ?thesis using idle [of w'] by simp
  next
    case F: False
    then have pe: "\<not> peer_eof (w_tp w2)" "\<not> peer_eof (w_tp w)" using same(3) by auto
    have h: "honest (take p S) (drop p S) (recv_ack (w_tp w)) seq data' fin'" using clip_honest [OF assms(3) [OF pe(2)] c] .
    have wnd: "unat (tcp_rcv_wnd (w_tp w)) < HALF"
      using assms(1) by (auto simp: rx_ok_def rx_core_def ofo_ok_def counts_ok_def tcp_rcv_wnd_def unat_sub word_le_nat_alt)
    show ?thesis
    proof (cases "seq = recv_ack (w_tp w)")
      case True
      have "length data < 65536" using assms(3) [OF pe(2)] by (simp add: honest_def)
      then have "length data' \<le> unat (tcp_rcv_wnd (w_tp w))" using clip_in_window [OF _ wnd] c True by blast
      then have "?go (receive_in_order env w2 seq data' fin')"
        using receive_in_order_ok [OF ok2 pe(1), of seq data' fin' env] h True same q2 s2 pe(2) by auto
      moreover have "tcp_apply_peer_eof env (receive_in_order env w2 seq data' fin') = (alive, w')"
        using assms(4) F True unfolding run by simp
      ultimately show ?thesis by (rule finish)
    next
      case False
      obtain r w3 where i: "tcp_ofo_insert env w2 seq data' fin' = (r, w3)" by fastforce
      note io = ofo_insert_ok [OF ok2 pe(1) _ i, unfolded same(2), OF h]
      have t3: "sk_terminal_error w3 = sk_terminal_error w2" using ofo_insert_fields(7) [of env w2 seq data' fin'] i by simp
      have rx3: "p \<le> length S" "blobs_ok (w_tp w3)" "recv_ack (w_tp w3) = b + of_nat p" "ofo_ok (b + of_nat p) (drop p S) (length (queued (w_tp w3))) (w_tp w3)"
        using io by (auto simp: rx_ok_def rx_core_def)
      have "?go (drain_ofo env w3)"
        using drain_ok [of p 0 S w3 b env] rx3 io t3 q2 s2 pe by auto
      moreover have "tcp_apply_peer_eof env (drain_ofo env w3) = (alive, w')"
        using assms(4) F False i unfolding run by simp
      ultimately show ?thesis by (rule finish)
    qed
  qed
qed

end
