(* ===== verification/Tcp_Receive_Run.thy ===== *)
theory Tcp_Receive_Run
  imports Tcp_Receive_Spec "HOL-Library.Sublist"
begin

text \<open>
  The receive path as its two users see it.  Segments arrive from the network through
  \<^const>\<open>tcp_receive_stream_range\<close> and the application reads through \<^const>\<open>tcp_recv\<close>
  (\<^verbatim>\<open>src/pro-stack/tcp.c\<close>); \<open>rx_run\<close> is the relation of all interleavings of the two.  The
  theorems say that the bytes the application has read are always a prefix of the stream the
  peer sent, that end of file is reported only at the end of that stream, and that a segment the
  window and the memory have room for advances the stream.
\<close>

subsection \<open>The application reads\<close>

text \<open>The state after \<open>n\<close> bytes of the first blob were copied out.\<close>

lemma read_step:
  assumes "rx_ok S b p tp" "(case rx_current tp of Some c \<Rightarrow> Some (c, tp) | None \<Rightarrow> nsock_tcp_rx_dequeue tp) = Some (c, tp1)"
    and "n = min len (length (blob_data c) - blob_off c)" "c' = c\<lparr>blob_off := blob_off c + n\<rparr>"
    and "tp2 = tp1\<lparr>rx_current := Some c',
      rcvbuf_used := (if of_nat n > rcvbuf_used tp1 then 0 else rcvbuf_used tp1 - of_nat n)\<rparr>"
  shows "take n (blob_bytes c) @ queued tp2 = queued tp" "blob_ok c" "\<forall>x \<in> set (rx_queue tp2). blob_ok x"
    "peer_eof tp2 = peer_eof tp" "status tp2 = status tp" "recv_ack tp2 = recv_ack tp" "ofo tp2 = ofo tp"
    "ofo_ok (recv_ack tp2) (drop p S) (length (queued tp2)) tp2"
proof -
  have bl: "blobs_ok tp" and o: "ofo_ok (recv_ack tp) (drop p S) (length (queued tp)) tp" using assms(1) by (auto simp: rx_ok_def rx_core_def)
  have tp1: "rx_current tp = Some c \<and> tp1 = tp \<or> (\<exists>q. rx_current tp = None \<and> rx_queue tp = c # q \<and> tp1 = tp\<lparr>rx_queue := q\<rparr>)"
    using assms(2) by (auto simp: nsock_tcp_rx_dequeue_def split: option.splits list.splits)
  have q: "queued tp = blob_bytes c @ concat (map blob_bytes (rx_queue tp1))"
    using tp1 by (auto simp: queued_def current_bytes_def)
  show "blob_ok c" "\<forall>x \<in> set (rx_queue tp2). blob_ok x" using tp1 bl by (auto simp: blobs_ok_def assms(5))
  have n: "n \<le> length (blob_bytes c)" using assms(3) by (simp add: blob_bytes_def)
  have "queued tp2 = drop n (blob_bytes c) @ concat (map blob_bytes (rx_queue tp1))"
    by (simp add: assms(4,5) queued_def current_bytes_def blob_bytes_def add.commute)
  then show qd: "take n (blob_bytes c) @ queued tp2 = queued tp" using q by simp
  then have len: "length (queued tp) = n + length (queued tp2)" using n by (metis length_append length_take min.absorb2)
  have same: "peer_eof tp1 = peer_eof tp" "status tp1 = status tp" "recv_ack tp1 = recv_ack tp" "ofo tp1 = ofo tp" "ofo_tree tp1 = ofo_tree tp"
      "ofo_count tp1 = ofo_count tp" "ofo_bytes tp1 = ofo_bytes tp" "rcvbuf_used tp1 = rcvbuf_used tp" "rcvbuf_size tp1 = rcvbuf_size tp"
    using tp1 by auto
  then show "peer_eof tp2 = peer_eof tp" "status tp2 = status tp" "recv_ack tp2 = recv_ack tp" "ofo tp2 = ofo tp" by (simp_all add: assms(5))
  have u: "unat (rcvbuf_used tp) = length (queued tp) + ofo_total (ofo tp)" using o by (simp add: ofo_ok_def counts_ok_def)
  then have nu: "n \<le> unat (rcvbuf_used tp)" using len by simp
  then have un: "unat (of_nat n :: u32) = n" using unat_u32_lt [of "rcvbuf_used tp"] by (simp add: unat_of_nat)
  have "rcvbuf_used tp2 = rcvbuf_used tp - of_nat n"
    using nu same(8) un by (simp add: assms(5) word_less_nat_alt)
  then have used: "unat (rcvbuf_used tp2) = length (queued tp2) + ofo_total (ofo tp)"
    using nu u len un by (simp add: unat_sub word_le_nat_alt)
  then show "ofo_ok (recv_ack tp2) (drop p S) (length (queued tp2)) tp2"
    using o same len u by (auto simp: ofo_ok_def index_ok_def counts_ok_def assms(5) word_le_nat_alt)
qed

text \<open>Room made in the buffer lets more out-of-order data in.\<close>

lemma read_drain:
  assumes "rx_ok S b p tp" "eof_status tp" "peer_eof tp2 = peer_eof tp" "status tp2 = status tp" "recv_ack tp2 = recv_ack tp"
    and "ofo tp2 = ofo tp" "ofo_ok (recv_ack tp2) (drop p S) (length (queued tp2)) tp2"
  shows "(\<exists>p' \<ge> p. rx_core S b p' (w_tp (drain_ofo env (w\<lparr>w_tp := tp2\<rparr>))) \<and>
      queued (w_tp (drain_ofo env (w\<lparr>w_tp := tp2\<rparr>))) = queued tp2 @ take (p' - p) (drop p S)) \<and>
    rx_grown tp2 (w_tp (drain_ofo env (w\<lparr>w_tp := tp2\<rparr>))) \<and> eof_status (w_tp (drain_ofo env (w\<lparr>w_tp := tp2\<rparr>)))"
    (is "?core \<and> ?grown \<and> ?es")
proof (intro conjI)
  show ?grown using drain_loop_grown [of "w\<lparr>w_tp := tp2\<rparr>"] by (simp add: drain_ofo_def tcp_ofo_drain_def)
  have "?core \<and> ?es"
  proof (cases "peer_eof tp")
    case True
    then have "ofo tp2 = []" "rx_core S b p tp2" using assms by (auto simp: rx_ok_def rx_core_def)
    then show ?thesis using True assms(3) by (auto simp: drain_ofo_def tcp_ofo_drain_def eof_status_def intro!: exI [of _ p])
  next
    case False
    then have "recv_ack tp = b + of_nat p" "p \<le> length S" using assms(1) by (auto simp: rx_ok_def rx_core_def)
    then show ?thesis
      using drain_core [of p 0 S "w\<lparr>w_tp := tp2\<rparr>" b env] assms(2-5,7) False by (auto simp: eof_status_def)
  qed
  then show ?core ?es by auto
qed

lemma rx_same_core: "rx_same tp tp' \<Longrightarrow> rx_core S b p tp' \<longleftrightarrow> rx_core S b p tp"
  unfolding rx_core_def using queue_same_ok [of tp tp'] queued_cong [of tp' tp]
  by (simp add: rx_same_def queue_same_def)

lemma recv_ok:
  assumes "rx_ok S b p (w_tp w)" "eof_status (w_tp w)" "sk_terminal_error w = None" "0 < len"
    and "tcp_recv env w len = (r, w')"
  shows "case r of
      Inl e \<Rightarrow> e = EAGAIN \<and> w' = w
    | Inr [] \<Rightarrow> w' = w \<and> queued (w_tp w) = [] \<and> (peer_eof (w_tp w) \<or> status (w_tp w) = TCP_STATUS_CLOSED)
    | Inr out \<Rightarrow> (\<exists>rest. queued (w_tp w) = out @ rest) \<and>
        (torn_down w' \<or> sk_terminal_error w' = None \<and> eof_status (w_tp w') \<and>
         (\<exists>p' \<ge> p. rx_ok S b p' (w_tp w') \<and> out @ queued (w_tp w') = queued (w_tp w) @ take (p' - p) (drop p S)))"
proof (cases "case rx_current (w_tp w) of Some c \<Rightarrow> Some (c, w_tp w) | None \<Rightarrow> nsock_tcp_rx_dequeue (w_tp w)")
  case None
  then have "queued (w_tp w) = []"
    by (auto simp: queued_def current_bytes_def nsock_tcp_rx_dequeue_def split: option.splits list.splits)
  then show ?thesis using assms(3-5) None by (auto simp: tcp_recv_def split: if_splits)
next
  case (Some ct)
  obtain c tp1 where ct: "ct = (c, tp1)" by fastforce
  define n where "n = min len (length (blob_data c) - blob_off c)"
  define out where "out = take n (blob_bytes c)"
  define c' where "c' = c\<lparr>blob_off := blob_off c + n\<rparr>"
  define tp2 where "tp2 = tp1\<lparr>rx_current := Some c', rcvbuf_used := (if of_nat n > rcvbuf_used tp1 then 0 else rcvbuf_used tp1 - of_nat n)\<rparr>"
  note st = read_step [OF assms(1) Some [unfolded ct] n_def c'_def tp2_def]
  define w3 where "w3 = drain_ofo env (w\<lparr>w_tp := tp2\<rparr>)"
  obtain alive w4 where ap: "tcp_apply_peer_eof env w3 = (alive, w4)" by fastforce
  have "0 < n" using assms(4) st(2) by (simp add: n_def blob_ok_def)
  then have ne: "out \<noteq> []" using st(2) by (simp add: out_def blob_bytes_def blob_ok_def)
  have run: "tcp_recv env w len = (if \<not> alive then (Inr out, w4)
      else let w = tcp_mark_tx_dirty (upd_tp (\<lambda>tp. tp\<lparr>ack_pending := True\<rparr>) w4) in
           if blob_off c' < length (blob_data c') then (Inr out, w)
           else (Inr out, upd_tp (\<lambda>tp. tp\<lparr>rx_current := None\<rparr>) (tcp_rx_blob_release env w)))"
    unfolding tcp_recv_def assms(3) Some ct option.case prod.case Let_def n_def [symmetric] c'_def [symmetric] out_def blob_bytes_def
    using assms(4) ap unfolding w3_def tp2_def by (simp split del: if_split cong: if_cong)
  have core: "\<exists>p' \<ge> p. rx_core S b p' (w_tp w3) \<and> queued (w_tp w3) = queued tp2 @ take (p' - p) (drop p S)"
    and grown: "rx_grown tp2 (w_tp w3)" and es3: "eof_status (w_tp w3)"
    using read_drain [OF assms(1,2) st(4-8), of env w] unfolding w3_def by blast+
  have te3: "sk_terminal_error w3 = None" using assms(3) by (simp add: w3_def)
  have rest: "queued (w_tp w) = out @ queued tp2" using st(1) by (simp add: out_def)
  note ae = apply_eof_ok [OF ap es3]
  show ?thesis
  proof (cases alive)
    case False
    then show ?thesis using ae assms(5) run ne rest by (auto split: list.split)
  next
    case True
    define w5 where "w5 = tcp_mark_tx_dirty (upd_tp (\<lambda>tp. tp\<lparr>ack_pending := True\<rparr>) w4)"
    have rs: "rx_same (w_tp w3) (w_tp w5)" "eof_status (w_tp w5)" "sk_terminal_error w5 = None"
      using ae True te3 by (auto simp: w5_def upd_tp_def tcp_mark_tx_dirty_def log_fx_def rx_same_def queue_same_def eof_status_def)
    have w': "r = Inr out" "w' = (if blob_off c' < length (blob_data c') then w5
        else upd_tp (\<lambda>tp. tp\<lparr>rx_current := None\<rparr>) (tcp_rx_blob_release env w5))"
      using assms(5) run True by (auto simp: w5_def Let_def split: if_splits)
    have g5: "rx_grown tp2 (w_tp w5)" using grown rs(1) by (simp add: rx_grown_def rx_same_def)
    have cur: "rx_current tp2 = Some c'" by (simp add: tp2_def)
    have "\<exists>p' \<ge> p. rx_core S b p' (w_tp w5) \<and> queued (w_tp w5) = queued tp2 @ take (p' - p) (drop p S)"
      using core rx_same_core [OF rs(1)] rx_same_queued [OF rs(1)] by simp
    then obtain p' where p': "p \<le> p'" "rx_core S b p' (w_tp w5)" "queued (w_tp w5) = queued tp2 @ take (p' - p) (drop p S)" by blast
    have "rx_ok S b p' (w_tp w') \<and> queued (w_tp w') = queued (w_tp w5) \<and> eof_status (w_tp w') \<and> sk_terminal_error w' = None"
    proof (cases "blob_off c' < length (blob_data c')")
      case True
      then show ?thesis using w'(2) p'(2) g5 cur st(3) rs(2,3) by (auto simp: rx_ok_def rx_grown_def blobs_ok_def blob_ok_def)
    next
      case False
      then have "queued (w_tp w') = queued (w_tp w5)"
        using w'(2) g5 cur by (simp add: queued_def current_bytes_def blob_bytes_def rx_grown_def upd_tp_def tcp_rx_blob_release_def)
      then show ?thesis using False w'(2) p'(2) g5 st(3) rs(2,3)
        by (auto simp: rx_ok_def rx_core_def rx_grown_def blobs_ok_def upd_tp_def tcp_rx_blob_release_def eof_status_def
            ofo_ok_def index_ok_def counts_ok_def)
    qed
    then show ?thesis using w'(1) p'(1,3) ne rest by (auto split: list.split)
  qed
qed

subsection \<open>Runs\<close>

text \<open>
  A receive side at the start of the data transfer: the peer's first data byte has sequence number
  \<open>b\<close>, nothing has arrived.
\<close>

definition rx_fresh :: "u32 \<Rightarrow> 'p tcp_world \<Rightarrow> bool" where
  "rx_fresh b w \<longleftrightarrow> recv_ack (w_tp w) = b \<and> \<not> peer_eof (w_tp w) \<and> rx_current (w_tp w) = None \<and> rx_queue (w_tp w) = [] \<and>
     ofo (w_tp w) = [] \<and> ofo_tree (w_tp w) = RbNil \<and> ofo_count (w_tp w) = 0 \<and> ofo_bytes (w_tp w) = 0 \<and>
     rcvbuf_used (w_tp w) = 0 \<and> unat (rcvbuf_size (w_tp w)) < HALF \<and>
     status (w_tp w) = TCP_STATUS_ESTABLISHED \<and> sk_terminal_error w = None"

text \<open>
  A segment a correct peer can send: \<open>n\<close> bytes of its stream from position \<open>q\<close>, with \<^verbatim>\<open>FIN\<close> only at the
  end.  Copies may be old or early, but within half the sequence space of the receive point.
\<close>

definition peer_segment :: "byte list \<Rightarrow> u32 \<Rightarrow> nat \<Rightarrow> u32 \<Rightarrow> byte list \<Rightarrow> bool \<Rightarrow> bool" where
  "peer_segment S b r seq data fin \<longleftrightarrow> length data < 65536 \<and>
     (\<exists>q. seq = b + of_nat q \<and> q + length data \<le> length S \<and> data = take (length data) (drop q S) \<and>
          (fin \<longrightarrow> q + length data = length S) \<and> (if q < r then r - q \<le> HALF else q - r < HALF))"

text \<open>
  \<open>rx_run S b C w\<close>: from a fresh connection, segments of the stream \<open>S\<close> and reads, interleaved in
  any way, have led to the state \<open>w\<close>, and the reads have returned the bytes \<open>C\<close>.
\<close>

inductive rx_run :: "byte list \<Rightarrow> u32 \<Rightarrow> byte list \<Rightarrow> 'p tcp_world \<Rightarrow> bool" for S b where
  fresh: "rx_fresh b w \<Longrightarrow> rx_run S b [] w"
| segment: "rx_run S b C w \<Longrightarrow> sk_terminal_error w = None \<Longrightarrow>
    peer_segment S b (length C + length (queued (w_tp w))) seq data fin \<Longrightarrow>
    tcp_receive_stream_range env w seq data fin = (alive, w') \<Longrightarrow> rx_run S b C w'"
| read: "rx_run S b C w \<Longrightarrow> tcp_recv env w len = (Inr out, w') \<Longrightarrow> rx_run S b (C @ out) w'"
| read_fails: "rx_run S b C w \<Longrightarrow> tcp_recv env w len = (Inl e, w') \<Longrightarrow> rx_run S b C w'"

definition rx_inv :: "byte list \<Rightarrow> u32 \<Rightarrow> byte list \<Rightarrow> 'p tcp_world \<Rightarrow> bool" where
  "rx_inv S b C w \<longleftrightarrow> prefix C S \<and>
     (sk_terminal_error w = None \<longrightarrow>
        eof_status (w_tp w) \<and> (\<exists>p. rx_ok S b p (w_tp w) \<and> C @ queued (w_tp w) = take p S))"

lemma fresh_inv:
  assumes "rx_fresh b w"
  shows "rx_inv S b [] w"
proof -
  have q: "queued (w_tp w) = []" using assms by (simp add: rx_fresh_def queued_def current_bytes_def)
  have "rx_ok S b 0 (w_tp w)"
    unfolding rx_ok_def rx_core_def q using assms
    by (simp add: rx_fresh_def ofo_ok_def index_ok_def counts_ok_def blobs_ok_def rb_inv_def)
  then show ?thesis using assms q by (auto simp: rx_inv_def rx_fresh_def eof_status_def intro!: exI [of _ 0])
qed

lemma rx_ok_bound: "rx_ok S b p tp \<Longrightarrow> p \<le> length S"
  by (simp add: rx_ok_def rx_core_def)

lemma peer_segment_honest:
  assumes "peer_segment S b p seq data fin" "p \<le> length S" "rcv = b + of_nat p"
  shows "honest (take p S) (drop p S) rcv seq data fin"
proof -
  obtain q where q: "seq = b + of_nat q" "q + length data \<le> length S" "data = take (length data) (drop q S)"
      "fin \<longrightarrow> q + length data = length S" "if q < p then p - q \<le> HALF else q - p < HALF" and l: "length data < 65536"
    using assms(1) unfolding peer_segment_def by blast
  have "unat (rcv - seq) = p - q" if "q < p"
  proof -
    have "rcv - seq = of_nat (p - q)" using that by (simp add: assms(3) q(1) of_nat_diff)
    then show ?thesis using that q(5) by (simp add: unat_of_nat del: of_nat_diff)
  qed
  moreover have "seq_off rcv seq = q - p" if "\<not> q < p"
  proof -
    have "seq - rcv = of_nat (q - p)" using that by (simp add: assms(3) q(1) of_nat_diff)
    then show ?thesis using that q(5) by (simp add: seq_off_def unat_of_nat del: of_nat_diff)
  qed
  ultimately show ?thesis using q(2-5) l assms(2) unfolding honest_def by (intro conjI exI [of _ q]) auto
qed

lemma take_more: "C @ Q = take p S \<Longrightarrow> p \<le> p' \<Longrightarrow> C @ Q @ take (p' - p) (drop p S) = take p' S"
  by (metis append.assoc le_add_diff_inverse take_add)

lemma segment_inv:
  assumes "rx_inv S b C w" "sk_terminal_error w = None" "peer_segment S b (length C + length (queued (w_tp w))) seq data fin"
    and "tcp_receive_stream_range env w seq data fin = (alive, w')"
  shows "rx_inv S b C w'"
proof -
  obtain p where p: "rx_ok S b p (w_tp w)" "C @ queued (w_tp w) = take p S" "eof_status (w_tp w)"
    using assms(1,2) by (auto simp: rx_inv_def)
  have pl: "p \<le> length S" using p(1) by (rule rx_ok_bound)
  then have "length C + length (queued (w_tp w)) = p" using p(2) by (metis length_append length_take min.absorb2)
  then have "honest (take p S) (drop p S) (recv_ack (w_tp w)) seq data fin" if "\<not> peer_eof (w_tp w)"
    using assms(3) pl p(1) that by (intro peer_segment_honest) (auto simp: rx_ok_def rx_core_def)
  from receive_range_ok [OF p(1,3) this assms(4)]
  show ?thesis using assms(1) take_more [OF p(2)] by (auto simp: rx_inv_def torn_down_def split: if_splits)
qed

lemma read_inv:
  assumes "rx_inv S b C w" "tcp_recv env w len = (Inr out, w')"
  shows "rx_inv S b (C @ out) w'" and "out = [] \<Longrightarrow> 0 < len \<Longrightarrow> status (w_tp w) \<noteq> TCP_STATUS_CLOSED \<Longrightarrow> C = S"
proof -
  have "rx_inv S b (C @ out) w' \<and> (out = [] \<and> 0 < len \<and> status (w_tp w) \<noteq> TCP_STATUS_CLOSED \<longrightarrow> C = S)"
  proof (cases "len = 0")
    case True
    then show ?thesis using assms by (simp add: tcp_recv_def)
  next
    case False
    then have te: "sk_terminal_error w = None" using assms(2) by (auto simp: tcp_recv_def split: option.splits)
    obtain p where p: "rx_ok S b p (w_tp w)" "C @ queued (w_tp w) = take p S" "eof_status (w_tp w)"
      using assms(1) te by (auto simp: rx_inv_def)
    have r: "(out = [] \<longrightarrow> w' = w \<and> queued (w_tp w) = [] \<and> (peer_eof (w_tp w) \<or> status (w_tp w) = TCP_STATUS_CLOSED)) \<and>
       (out \<noteq> [] \<longrightarrow> (\<exists>rest. queued (w_tp w) = out @ rest) \<and>
        (torn_down w' \<or> sk_terminal_error w' = None \<and> eof_status (w_tp w') \<and>
         (\<exists>p' \<ge> p. rx_ok S b p' (w_tp w') \<and> out @ queued (w_tp w') = queued (w_tp w) @ take (p' - p) (drop p S))))"
      using recv_ok [OF p(1,3) te _ assms(2)] False by (cases out) auto
    have pre: "prefix (C @ out) S" if "queued (w_tp w) = out @ rest" for rest
      using p(2) that by (metis append.assoc prefixI take_is_prefix prefix_order.trans)
    show ?thesis
    proof (cases "out = []")
      case True
      then show ?thesis using r assms(1) p by (auto simp: rx_ok_def rx_core_def)
    next
      case False
      then show ?thesis using r pre take_more [OF p(2)] by (auto simp: rx_inv_def torn_down_def)
    qed
  qed
  then show "rx_inv S b (C @ out) w'" "out = [] \<Longrightarrow> 0 < len \<Longrightarrow> status (w_tp w) \<noteq> TCP_STATUS_CLOSED \<Longrightarrow> C = S" by auto
qed

lemma read_fails_same: "tcp_recv env w len = (Inl e, w') \<Longrightarrow> w' = w"
  by (auto simp: tcp_recv_def Let_def split: if_splits option.splits prod.splits)

lemma run_inv: "rx_run S b C w \<Longrightarrow> rx_inv S b C w"
  by (induction rule: rx_run.induct) (auto intro: fresh_inv segment_inv read_inv dest: read_fails_same)

subsection \<open>Progress\<close>

text \<open>The pools and the ring have room for one more blob.\<close>

definition rx_room :: "'p tcp_env \<Rightarrow> 'p tcp_world \<Rightarrow> bool" where
  "rx_room env w \<longleftrightarrow> length (rx_queue (w_tp w)) < RING_SIZE \<and>
     (\<forall>k \<in> {TCP_MEMORY_RX_BLOB, TCP_MEMORY_PAYLOAD}. case mem_pools (w_mem w) k of None \<Rightarrow> False | Some p \<Rightarrow> mp_avail (env_mp env) p \<noteq> 0)"

lemma update_peak_pools [simp]: "mem_pools (tcp_memory_update_peak mp memory k) = mem_pools memory"
  by (simp add: tcp_memory_update_peak_def Let_def)

lemma get_available:
  assumes "mempool_laws mp" "mem_pools memory k = Some p" "mp_avail mp p \<noteq> 0"
  shows "\<exists>memory'. tcp_memory_get mp memory k = (True, memory') \<and> (\<forall>j. j \<noteq> k \<longrightarrow> mem_pools memory' j = mem_pools memory j)"
  using assms by (auto simp: tcp_memory_get_def mempool_laws_def split: option.split)

lemma deliver_succeeds:
  assumes "mempool_laws (env_mp env)" "rx_room env w" "length data \<le> 2048"
  shows "fst (tcp_deliver_payload (env_mp env) w data) = 0"
proof (cases "data = []")
  case False
  obtain p where p: "mem_pools (w_mem w) TCP_MEMORY_RX_BLOB = Some p" "mp_avail (env_mp env) p \<noteq> 0"
    using assms(2) by (auto simp: rx_room_def split: option.splits)
  obtain q where q: "mem_pools (w_mem w) TCP_MEMORY_PAYLOAD = Some q" "mp_avail (env_mp env) q \<noteq> 0"
    using assms(2) by (auto simp: rx_room_def split: option.splits)
  obtain m1 where m1: "tcp_memory_get (env_mp env) (w_mem w) TCP_MEMORY_RX_BLOB = (True, m1)" "mem_pools m1 TCP_MEMORY_PAYLOAD = Some q"
    using get_available [OF assms(1) p] q(1) by auto
  obtain m2 where m2: "tcp_memory_get (env_mp env) m1 TCP_MEMORY_PAYLOAD = (True, m2)"
    using get_available [OF assms(1) m1(2) q(2)] by auto
  show ?thesis
    using False assms(2,3) m1(1) m2
    by (simp add: tcp_deliver_payload_def tcp_memory_rx_blob_alloc_def tcp_memory_payload_alloc_def nsock_tcp_rx_enqueue_def rx_room_def)
qed (simp add: tcp_deliver_payload_def)

lemma apply_eof_alive: "env_timer_ok env \<Longrightarrow> fst (tcp_apply_peer_eof env w)"
  by (cases "status (w_tp w)")
    (simp_all add: tcp_apply_peer_eof_def tcp_enter_time_wait_def owner_timer_arm_after_ms_def sock_arm_at_def Let_def)

lemma in_order_accepted:
  assumes "0 < n" "n \<le> unat (tcp_rcv_wnd tp)" "unat (tcp_rcv_wnd tp) < HALF" "n < 65536"
  shows "tcp_segment_acceptable tp (recv_ack tp) (of_nat n) fin"
proof -
  let ?sl = "ucast (of_nat n :: u16) + (if fin then 1 else 0) :: u32"
  have un: "unat (ucast (of_nat n :: u16) :: u32) = n" using assms(4) by (simp add: unsigned_ucast_eq take_bit_nat_eq_self unat_of_nat)
  then have sl: "0 < unat ?sl" "unat ?sl < HALF" using assms(1,4) by (auto simp: unat_add_u32)
  have "tcp_rcv_wnd tp \<noteq> 0" "?sl \<noteq> 0" using assms(1,2) sl(1) by (auto simp: unat_gt_0)
  then show ?thesis
    using sl assms(1-3) ofo_lt_off [of "recv_ack tp" "recv_ack tp" "recv_ack tp + tcp_rcv_wnd tp"]
      ofo_gt_off(1) [of "recv_ack tp" "recv_ack tp + ?sl" "recv_ack tp"]
    unfolding tcp_segment_acceptable_def Let_def tcp_seq_ofo by (simp add: seq_off_def)
qed

lemma in_order_not_clipped:
  assumes "length data \<le> unat wnd" "unat wnd < HALF"
  shows "fst (clip_right (rcv + wnd) rcv data fin) = data"
proof -
  have "unat (of_nat (length data) :: u32) = length data" using assms by (simp add: unat_of_nat)
  then have "\<not> tcp_seq_gt (rcv + of_nat (length data)) (rcv + wnd)"
    unfolding tcp_seq_ofo using ofo_gt_off(1) [of rcv "rcv + of_nat (length data)" "rcv + wnd"] assms by (simp add: seq_off_def)
  then show ?thesis by (simp add: clip_right_def Let_def)
qed

lemma in_order_progress:
  assumes ok: "rx_ok S b p (w_tp w)" "eof_status (w_tp w)" "\<not> peer_eof (w_tp w)"
    and data: "data = take n (drop p S)" "0 < n" "n \<le> 2048" "n \<le> unat (tcp_rcv_wnd (w_tp w))" "p + n \<le> length S" "fin \<Longrightarrow> p + n = length S"
    and env: "mempool_laws (env_mp env)" "rx_room env w" "env_timer_ok env"
  shows "\<exists>w' p'. tcp_receive_stream_range env w (recv_ack (w_tp w)) data fin = (True, w') \<and> p + n \<le> p' \<and> rx_ok S b p' (w_tp w') \<and>
    queued (w_tp w') = queued (w_tp w) @ take (p' - p) (drop p S) \<and> sk_terminal_error w' = sk_terminal_error w"
proof -
  let ?seq = "recv_ack (w_tp w)"
  define w1 where "w1 = upd_tp (\<lambda>tp. tcp_sack_note_duplicate tp ?seq (of_nat (length data))) w"
  have s1: "rx_same (w_tp w) (w_tp w1)" "status (w_tp w1) = status (w_tp w)" "sk_terminal_error w1 = sk_terminal_error w" "w_mem w1 = w_mem w"
    using note_duplicate_same by (simp_all add: w1_def upd_tp_def)
  have ok1: "rx_ok S b p (w_tp w1)" "eof_status (w_tp w1)" "\<not> peer_eof (w_tp w1)" "queued (w_tp w1) = queued (w_tp w)"
      "recv_ack (w_tp w1) = ?seq" "tcp_rcv_wnd (w_tp w1) = tcp_rcv_wnd (w_tp w)"
    using ok rx_same_ok [OF s1(1)] rx_same_queued [OF s1(1)] s1(1,2)
    by (auto simp: rx_same_def eof_status_def queue_same_def tcp_rcv_wnd_def)
  have len: "length data = n" using data(1,5) by simp
  have wnd: "unat (tcp_rcv_wnd (w_tp w)) < HALF"
    using ok(1) by (auto simp: rx_ok_def rx_core_def ofo_ok_def counts_ok_def tcp_rcv_wnd_def unat_sub word_le_nat_alt)
  have acc: "tcp_segment_acceptable (w_tp w1) ?seq (of_nat (length data)) fin"
    using in_order_accepted [of n "w_tp w1" fin] data wnd ok1(5,6) len by simp
  obtain fin' where c: "clip_right (?seq + tcp_rcv_wnd (w_tp w)) ?seq data fin = (data, fin')" and f: "fin' \<Longrightarrow> fin"
    using in_order_not_clipped [of data "tcp_rcv_wnd (w_tp w)" ?seq fin] data(4) wnd len
    by (cases "clip_right (?seq + tcp_rcv_wnd (w_tp w)) ?seq data fin") (auto simp: clip_right_def Let_def split: if_splits)
  define w2 where "w2 = receive_in_order env w1 ?seq data fin'"
  have st: "status (w_tp w1) \<notin> {TCP_STATUS_CLOSE_WAIT, TCP_STATUS_LAST_ACK, TCP_STATUS_CLOSING, TCP_STATUS_TIME_WAIT}"
    using ok1(2,3) by (auto simp: eof_status_def)
  have run: "tcp_receive_stream_range env w ?seq data fin = tcp_apply_peer_eof env w2"
    unfolding tcp_receive_stream_range_def Let_def w1_def [symmetric] if_not_P [OF st] c w2_def
    using ok1(3) acc by simp
  have "honest (take p S) (drop p S) ?seq ?seq data fin'"
  proof (rule peer_segment_honest)
    have "?seq = b + of_nat p" using ok(1,3) by (simp add: rx_ok_def rx_core_def)
    then show "peer_segment S b p ?seq data fin'" "?seq = b + of_nat p"
      using data f len by (auto simp: peer_segment_def intro!: exI [of _ p])
    show "p \<le> length S" using data(5) by simp
  qed
  moreover have "fst (tcp_deliver_payload (env_mp env) w1 data) = 0"
    using deliver_succeeds [OF env(1), of w1 data] env(2) s1 len data(3) by (simp add: rx_room_def rx_same_def)
  ultimately obtain p' where p': "p + n \<le> p'" "rx_ok S b p' (w_tp w2)" "queued (w_tp w2) = queued (w_tp w1) @ take (p' - p) (drop p S)"
      "status (w_tp w2) = status (w_tp w1)"
    using receive_in_order_ok [OF ok1(1,3) ok1(5) [symmetric], of data fin' env] len data(4) ok1(6) w2_def ok1(5) by auto
  have es2: "eof_status (w_tp w2)" using p'(4) st by (simp add: eof_status_def)
  obtain w3 where ap: "tcp_apply_peer_eof env w2 = (True, w3)" using apply_eof_alive [OF env(3), of w2] by (cases "tcp_apply_peer_eof env w2") auto
  have te: "sk_terminal_error w2 = sk_terminal_error w" using s1(3) by (simp add: w2_def)
  show ?thesis
    using apply_eof_ok [OF ap es2] run ap p' ok1(4) te rx_same_ok rx_same_queued by (intro exI [of _ w3] exI [of _ p']) auto
qed

subsection \<open>Properties\<close>

definition sample_rx :: "u32 tcp_world" where
  "sample_rx = sample_world (tcp_stream_zero\<lparr>status := TCP_STATUS_ESTABLISHED, recv_ack := 0xFFFFFFFE, rcvbuf_size := 65535\<rparr>)"

lemma sample_fresh: "rx_fresh 0xFFFFFFFE sample_rx"
  by (simp add: rx_fresh_def sample_rx_def sample_world_def tcp_stream_zero_def)

text \<open>
  Claim C1.  Reliable, ordered delivery.  Whatever segments of the peer's stream arrive --- in any
  order, overlapping, repeated, across the wrap of the sequence space --- and whenever the
  application reads, the bytes it has read are a prefix of the stream.  As long as the connection
  has no terminal error, the bytes read and the bytes waiting together are exactly the first bytes
  of the stream, the acknowledgement number names the next one (past the FIN once it is reached,
  which happens only when the whole stream has arrived), and the receive buffer is never
  overcommitted.
\<close>

theorem received_is_prefix_of_sent:
  assumes "rx_run S b C w"
  shows "prefix C S \<and>
    (sk_terminal_error w = None \<longrightarrow>
      (let r = length C + length (queued (w_tp w)) in
       C @ queued (w_tp w) = take r S \<and> r \<le> length S \<and>
       recv_ack (w_tp w) = b + of_nat r + (if peer_eof (w_tp w) then 1 else 0) \<and>
       (peer_eof (w_tp w) \<longrightarrow> r = length S) \<and>
       unat (rcvbuf_used (w_tp w)) = length (queued (w_tp w)) + ofo_total (ofo (w_tp w)) \<and>
       rcvbuf_used (w_tp w) \<le> rcvbuf_size (w_tp w)))"
proof -
  note inv = run_inv [OF assms]
  have "?thesis" if te: "sk_terminal_error w = None"
  proof -
    obtain p where p: "rx_ok S b p (w_tp w)" "C @ queued (w_tp w) = take p S" using inv te by (auto simp: rx_inv_def)
    have "length C + length (queued (w_tp w)) = p" using p(2) rx_ok_bound [OF p(1)] by (metis length_append length_take min.absorb2)
    then show ?thesis using p inv by (auto simp: rx_inv_def rx_ok_def rx_core_def ofo_ok_def counts_ok_def Let_def)
  qed
  then show ?thesis using inv by (auto simp: rx_inv_def)
qed

theorem received_is_prefix_of_sent_witness:
  "fst (tcp_recv sample_env (snd (tcp_receive_stream_range sample_env sample_rx 0xFFFFFFFE [3, 4] False)) 1) = Inr [3] \<and>
   prefix [3] ([3, 4, 5, 6] :: byte list)"
proof
  let ?S = "[3, 4, 5, 6] :: byte list"
  define w1 where "w1 = snd (tcp_receive_stream_range sample_env sample_rx 0xFFFFFFFE [3, 4] False)"
  have t0: "sk_terminal_error sample_rx = None" "length (queued (w_tp sample_rx)) = 0" by code_simp+
  have s1: "tcp_receive_stream_range sample_env sample_rx 0xFFFFFFFE [3, 4] False =
      (fst (tcp_receive_stream_range sample_env sample_rx 0xFFFFFFFE [3, 4] False), w1)" by (simp add: w1_def)
  have "rx_run ?S 0xFFFFFFFE [] w1"
    by (rule rx_run.segment [OF rx_run.fresh [OF sample_fresh] t0(1) _ s1])
      (auto simp: t0 peer_segment_def intro!: exI [of _ 0])
  moreover have rd: "fst (tcp_recv sample_env w1 1) = Inr [3]" unfolding w1_def by code_simp
  then have "tcp_recv sample_env w1 1 = (Inr [3], snd (tcp_recv sample_env w1 1))" by (simp add: prod_eq_iff)
  ultimately have "rx_run ?S 0xFFFFFFFE ([] @ [3]) (snd (tcp_recv sample_env w1 1))" by (rule rx_run.read)
  from received_is_prefix_of_sent [OF this] show "prefix [3] ?S" by simp
  show "fst (tcp_recv sample_env (snd (tcp_receive_stream_range sample_env sample_rx 0xFFFFFFFE [3, 4] False)) 1) = Inr [3]"
    using rd by (simp only: w1_def)
qed

text \<open>
  Claim C2.  End of file is the end.  A read that returns zero bytes (for a positive length, on a
  socket that is not closed) happens only when the application has already read every byte of the
  peer's stream.
\<close>

theorem eof_only_at_end_of_stream:
  assumes "rx_run S b C w" "tcp_recv env w len = (Inr [], w')" "0 < len" "status (w_tp w) \<noteq> TCP_STATUS_CLOSED"
  shows "C = S"
  using read_inv(2) [OF run_inv [OF assms(1)] assms(2)] assms(3,4) by simp

theorem eof_only_at_end_of_stream_witness:
  "fst (tcp_recv sample_env (snd (tcp_receive_stream_range sample_env sample_rx 0xFFFFFFFE [] True)) 10) = Inr [] \<and> ([] :: byte list) = []"
proof
  define w1 where "w1 = snd (tcp_receive_stream_range sample_env sample_rx 0xFFFFFFFE [] True)"
  have t0: "sk_terminal_error sample_rx = None" "length (queued (w_tp sample_rx)) = 0" by code_simp+
  have r: "fst (tcp_recv sample_env w1 10) = Inr []" and st: "status (w_tp w1) \<noteq> TCP_STATUS_CLOSED"
    unfolding w1_def by code_simp+
  have s1: "tcp_receive_stream_range sample_env sample_rx 0xFFFFFFFE [] True =
      (fst (tcp_receive_stream_range sample_env sample_rx 0xFFFFFFFE [] True), w1)" by (simp add: w1_def)
  have run: "rx_run [] 0xFFFFFFFE [] w1"
    by (rule rx_run.segment [OF rx_run.fresh [OF sample_fresh] t0(1) _ s1]) (auto simp: t0 peer_segment_def)
  have rd: "tcp_recv sample_env w1 10 = (Inr [], snd (tcp_recv sample_env w1 10))" using r by (simp add: prod_eq_iff)
  show "fst (tcp_recv sample_env (snd (tcp_receive_stream_range sample_env sample_rx 0xFFFFFFFE [] True)) 10) = Inr []"
    using r by (simp add: w1_def)
  show "([] :: byte list) = []" using eof_only_at_end_of_stream [OF run rd _ st] by simp
qed



end
