(* ===== verification/Tcp_Options_Spec.thy ===== *)
theory Tcp_Options_Spec
  imports Tcp_Options
begin

text \<open>
  What the option codec promises: parsing reads nothing outside the header, decoding what was
  encoded gives it back, and the option area never overflows.
\<close>

subsection \<open>Byte order\<close>

lemma be32_at_be32:
  assumes "opt i = ucast (drop_bit 24 (x :: u32))" "opt (i + 1) = ucast (drop_bit 16 x)"
    "opt (i + 2) = ucast (drop_bit 8 x)" "opt (i + 3) = ucast x"
  shows "be32_at opt i = x"
  unfolding be32_at_def assms
proof (rule bit_word_eqI)
  fix n assume "n < LENGTH(32)"
  then consider "n < 8" | "8 \<le> n" "n < 16" | "16 \<le> n" "n < 24" | "24 \<le> n" "n < 32" by fastforce
  then show "bit (push_bit 24 (ucast (ucast (drop_bit 24 x) :: byte)) OR push_bit 16 (ucast (ucast (drop_bit 16 x) :: byte))
      OR push_bit 8 (ucast (ucast (drop_bit 8 x) :: byte)) OR ucast (ucast x :: byte) :: u32) n = bit x n"
    by cases (auto simp: bit_simps)
qed

lemma be16_mss: "(push_bit 8 (ucast (ucast (drop_bit 8 (m :: u16)) :: byte)) OR ucast (ucast m :: byte) :: u16) = m"
  by (rule bit_word_eqI) (auto simp: bit_simps)

lemma length_be32 [simp]: "length (be32 x) = 4"
  by (simp add: be32_def)

subsection \<open>The parser reads the option area only\<close>

lemma sack_blocks_at_cong:
  assumes "\<And>j. i \<le> j \<Longrightarrow> j < i + n * 8 \<Longrightarrow> opt j = opt' j"
  shows "sack_blocks_at opt i n = sack_blocks_at opt' i n"
proof -
  have "be32_at opt (i + k * 8) = be32_at opt' (i + k * 8)"
    "be32_at opt (i + k * 8 + 4) = be32_at opt' (i + k * 8 + 4)" if "k < n" for k
    using that assms by (simp_all add: be32_at_def)
  then show ?thesis by (simp add: sack_blocks_at_def)
qed

lemma parse_one_cong:
  assumes "\<And>j. i \<le> j \<Longrightarrow> j < i + len \<Longrightarrow> opt j = opt' j"
  shows "parse_one flags opt i k len st = parse_one flags opt' i k len st"
proof -
  have "sack_blocks_at opt (i + 2) ((len - 2) div 8) = sack_blocks_at opt' (i + 2) ((len - 2) div 8)"
    if "\<not> len < 10"
    using that by (intro sack_blocks_at_cong assms) auto
  then have "parse_sack flags opt i len st = parse_sack flags opt' i len st"
    by (simp add: parse_sack_def)
  then show ?thesis using assms by (auto simp: parse_one_def be32_at_def)
qed

lemma parse_loop_cong:
  "(\<And>j. i \<le> j \<Longrightarrow> j < i + remain \<Longrightarrow> opt j = opt' j)
   \<Longrightarrow> parse_loop flags opt i remain st = parse_loop flags opt' i remain st"
proof (induction flags opt i remain st rule: parse_loop.induct)
  case (1 flags opt i remain st)
  show ?case
  proof (cases "remain = 0")
    case False
    then have i: "opt i = opt' i" using 1(3) by simp
    let ?len = "unat (opt (i + 1))"
    have one: "parse_one flags opt i (opt i) ?len st = parse_one flags opt' i (opt i) ?len st" if "?len \<le> remain"
      using that 1(3) by (intro parse_one_cong) auto
    have i1: "opt (i + 1) = opt' (i + 1)" if "\<not> remain < 2" using that 1(3) by simp
    show ?thesis
      using False i i1 one 1 unfolding parse_loop.simps [of flags opt i] parse_loop.simps [of flags opt' i]
      by (auto simp: Let_def split: option.splits)
  qed (simp add: parse_loop.simps)
qed

subsection \<open>The option area\<close>

text \<open>A fragment whose option area holds \<open>bs\<close> followed by zeros.\<close>

definition area :: "tcp_fragment \<Rightarrow> byte list \<Rightarrow> bool" where
  "area f bs \<longleftrightarrow> length bs \<le> 40 \<and> frag_options f = bs @ replicate (40 - length bs) 0 \<and>
     frag_opt_len f = int ((length bs + 3) div 4)"

lemma area_start: "area (f\<lparr>frag_options := replicate 40 0, frag_opt_len := 0\<rparr>) []"
  by (simp add: area_def)

lemma append_area:
  assumes "area f bs" "length bs mod 4 = 0" "length bs + length data \<le> 40"
  obtains f' where "tcp_options_append f data = Some f'" "area f' (bs @ data)"
    "f' = f\<lparr>frag_options := frag_options f', frag_opt_len := frag_opt_len f'\<rparr>"
proof -
  have o: "(length bs + 3) div 4 * 4 = length bs"
    using assms(2) by presburger
  show ?thesis
  proof (rule that)
    show "tcp_options_append f data = Some (f\<lparr>frag_options := (bs @ data) @ replicate (40 - length (bs @ data)) 0,
        frag_opt_len := int ((length (bs @ data) + 3) div 4)\<rparr>)"
      using assms by (simp add: tcp_options_append_def Let_def area_def o add.commute)
  qed (use assms in \<open>simp_all add: area_def\<close>)
qed

lemma append_area_eq:
  assumes "area f bs" "length bs mod 4 = 0" "length bs + length data \<le> 40"
  shows "\<exists>f'. tcp_options_append f data = Some f' \<and> area f' (bs @ data) \<and>
    frag_tcp_flags f' = frag_tcp_flags f"
  using append_area [OF assms] by (metis tcp_fragment.select_convs(6) tcp_fragment.surjective tcp_fragment.update_convs(9,10))

lemma area_nth: "area f bs \<Longrightarrow> i < length bs \<Longrightarrow> frag_options f ! i = bs ! i"
  by (simp add: area_def nth_append)

lemma data_off_words:
  "n \<le> 10 \<Longrightarrow> unat (drop_bit 4 (push_bit 4 (word_of_int (5 + int n) :: u8)) * 4) = 20 + 4 * n"
proof -
  assume "n \<le> 10"
  moreover have "list_all (\<lambda>n. unat (drop_bit 4 (push_bit 4 (word_of_int (5 + int n) :: u8)) * 4) = 20 + 4 * n) [0..<11]"
    by code_simp
  ultimately show ?thesis by (auto simp: list_all_iff)
qed

lemma header_len_finish:
  assumes "area f bs"
  shows "header_len (frag_data_off (tcp_options_finish f)) = 20 + 4 * ((length bs + 3) div 4)"
proof -
  have "length bs + 3 < 44" using assms by (simp add: area_def)
  then have "(length bs + 3) div 4 \<le> 10" by linarith
  then show ?thesis
    using assms data_off_words by (simp add: header_len_def tcp_options_finish_def area_def)
qed

subsection \<open>SYN options\<close>

definition syn_bytes :: "bool \<Rightarrow> bool \<Rightarrow> bool \<Rightarrow> u8 \<Rightarrow> u32 \<Rightarrow> u32 \<Rightarrow> byte list" where
  "syn_bytes w t s ws tsval tsecr =
     [2, 4, 5, 180] @ (if w then [1, 3, 3, ws] else []) @
     (if t then [1, 1, 8, 10] @ be32 tsval @ be32 tsecr else []) @ (if s then [4, 2] else [])"

lemma apply_syn_bytes:
  "\<exists>f' tp'. tcp_options_apply_syn tp f w t s tsecr now = (Some (tcp_options_finish f'), tp') \<and>
     area f' (syn_bytes w t s (rcv_wscale tp) now tsecr) \<and>
     sack_local_offered tp' = s \<and> sack_permitted tp' = (s \<and> sack_peer_permitted tp)"
proof -
  let ?f = "f\<lparr>frag_options := replicate 40 0, frag_opt_len := 0\<rparr>"
  have m: "(1460 :: byte) = 180" by code_simp
  obtain f1 where f1: "tcp_options_emit_mss ?f TCP_DEFAULT_MSS = Some f1" "area f1 [2, 4, 5, 180]"
    using append_area_eq [OF area_start, of "[2, 4, 5, 180]" f] by (auto simp: tcp_options_emit_mss_def m)
  obtain f2 where f2: "(if w then tcp_options_emit_wscale f1 (rcv_wscale tp) else Some f1) = Some f2"
      "area f2 ([2, 4, 5, 180] @ (if w then [1, 3, 3, rcv_wscale tp] else []))"
    using append_area_eq [OF f1(2), of "[1, 3, 3, rcv_wscale tp]"] f1(2)
    by (cases w) (auto simp: tcp_options_emit_wscale_def)
  obtain f3 where f3: "(if t then tcp_options_emit_timestamp f2 now tsecr else Some f2) = Some f3"
      "area f3 (([2, 4, 5, 180] @ (if w then [1, 3, 3, rcv_wscale tp] else [])) @
        (if t then [1, 1, 8, 10] @ be32 now @ be32 tsecr else []))"
    using append_area_eq [OF f2(2), of "[1, 1, 8, 10] @ be32 now @ be32 tsecr"] f2(2)
    by (cases t; cases w) (auto simp: tcp_options_emit_timestamp_def)
  obtain f4 where f4: "(if s then tcp_options_emit_sack_permitted f3 else Some f3) = Some f4"
      "area f4 (syn_bytes w t s (rcv_wscale tp) now tsecr)"
    using append_area_eq [OF f3(2), of "[4, 2]"] f3(2)
    by (cases s; cases t; cases w) (auto simp: tcp_options_emit_sack_permitted_def syn_bytes_def)
  show ?thesis
    using f1(1) f2(1) f3(1) f4
    by (cases t) (auto simp: tcp_options_apply_syn_def tcp_options_ts_now_def)
qed

lemma parse_syn_bytes:
  assumes "flags AND RTE_TCP_SYN_FLAG \<noteq> 0" "ws \<le> 14" "area f (syn_bytes w t s ws tsval tsecr)"
  shows "tcp_options_parse (frag_data_off (tcp_options_finish f)) flags (\<lambda>i. frag_options f ! i)
    = Some \<lparr>rx_mss = 1460, rx_wscale = (if w then ws else 0), rx_wscale_present = w,
        rx_sack_permitted_present = s, rx_opt_sacks = [], rx_opt_timestamp_present = t,
        rx_opt_tsval = (if t then tsval else 0), rx_opt_tsecr = (if t then tsecr else 0)\<rparr>"
proof -
  have o: "frag_options f = syn_bytes w t s ws tsval tsecr @ replicate (40 - length (syn_bytes w t s ws tsval tsecr)) 0"
    using assms(3) by (simp add: area_def)
  have ts: "be32_at opt i = x"
    if "opt i = ucast (drop_bit 24 (x :: u32))" "opt (Suc i) = ucast (drop_bit 16 x)"
      "opt (Suc (Suc i)) = ucast (drop_bit 8 x)" "opt (Suc (Suc (Suc i))) = ucast x" for opt i x
    using that by (intro be32_at_be32) (simp_all add: numeral_3_eq_3)
  show ?thesis
    unfolding tcp_options_parse_def header_len_finish [OF assms(3)] o
    using assms(1,2)
    by (cases w; cases t; cases s)
       (simp_all add: syn_bytes_def be32_def parse_loop.simps parse_one_def ts tcp_options_rx_zero_def)
qed

subsection \<open>Options of established segments\<close>

lemma nth_concat_fixed:
  assumes "\<And>x. length (g x) = n" "k < length xs" "j < n"
  shows "concat (map g xs) ! (k * n + j) = g (xs ! k) ! j"
  using assms(2)
proof (induction xs arbitrary: k)
  case (Cons x xs)
  then show ?case
    using assms(1,3) by (cases k) (auto simp: nth_append add.assoc)
qed simp

lemma length_concat_fixed: "(\<And>x. length (g x) = n) \<Longrightarrow> length (concat (map g xs)) = length xs * n"
  by (induction xs) auto

definition block_octets :: "tcp_sack_block \<Rightarrow> byte list" where
  "block_octets b = be32 (blk_left b) @ be32 (blk_right b)"

lemma length_block_octets [simp]: "length (block_octets b) = 8"
  by (simp add: block_octets_def)

lemma sack_option_octets:
  "sack_option blocks = [5, of_nat (2 + length blocks * 8)] @ concat (map block_octets blocks)"
  by (simp add: sack_option_def block_octets_def [abs_def])

lemma length_sack_option: "length (sack_option blocks) = 2 + length blocks * 8"
  by (simp add: sack_option_octets length_concat_fixed)

text \<open>Reading the blocks back at the place where they were written.\<close>

lemma sack_blocks_read_back:
  assumes "\<And>j. j < length blocks * 8 \<Longrightarrow> opt (i + j) = concat (map block_octets blocks) ! j"
  shows "sack_blocks_at opt i (length blocks) = blocks"
proof (rule nth_equalityI)
  fix k assume k: "k < length (sack_blocks_at opt i (length blocks))"
  then have k: "k < length blocks" by (simp add: sack_blocks_at_def)
  have o: "opt (i + (k * 8 + j)) = block_octets (blocks ! k) ! j" if "j < 8" for j
    using assms [of "k * 8 + j"] nth_concat_fixed [of block_octets 8 k blocks j] k that by simp
  have "be32_at opt (i + k * 8) = blk_left (blocks ! k)"
    using o [of 0] o [of 1] o [of 2] o [of 3]
    by (intro be32_at_be32) (simp_all add: add_ac block_octets_def be32_def)
  moreover have "be32_at opt (i + k * 8 + 4) = blk_right (blocks ! k)"
    using o [of 4] o [of 5] o [of 6] o [of 7]
    by (intro be32_at_be32) (simp_all add: add_ac block_octets_def be32_def)
  ultimately show "sack_blocks_at opt i (length blocks) ! k = blocks ! k"
    using k by (simp add: sack_blocks_at_def)
qed (simp add: sack_blocks_at_def)

lemma parse_sack_tail:
  assumes "opt i = 5" "opt (i + 1) = of_nat (2 + length blocks * 8)" "blocks \<noteq> []" "length blocks \<le> 4"
    and "\<And>j. j < length blocks * 8 \<Longrightarrow> opt (i + 2 + j) = concat (map block_octets blocks) ! j"
    and "remain = 2 + length blocks * 8 \<or> 2 + length blocks * 8 < remain \<and> opt (i + (2 + length blocks * 8)) = 0"
    and "\<not> p_sack_seen st" "\<forall>b \<in> set blocks. tcp_options_seq_after (blk_right b) (blk_left b)"
    and "flags AND RTE_TCP_SYN_FLAG = 0" "flags AND RTE_TCP_ACK_FLAG \<noteq> 0"
  shows "parse_loop flags opt i remain st
    = Some (st\<lparr>p_sack_seen := True, p_rx := (p_rx st)\<lparr>rx_opt_sacks := blocks\<rparr>\<rparr>)"
proof -
  let ?len = "2 + length blocks * 8"
  have pos: "0 < length blocks" using assms(3) by simp
  have u: "unat (opt (i + 1)) = ?len"
    unfolding assms(2) unat_of_nat using assms(4) by simp
  have len: "\<not> ?len < 10" "(?len - 2) mod 8 = 0" "(?len - 2) div 8 = length blocks" using pos by simp_all
  have blocks: "sack_blocks_at opt (i + 2) (length blocks) = blocks"
    using assms(5) by (intro sack_blocks_read_back) simp
  have ps: "parse_sack flags opt i ?len st
      = Some (st\<lparr>p_sack_seen := True, p_rx := (p_rx st)\<lparr>rx_opt_sacks := blocks\<rparr>\<rparr>)"
    unfolding parse_sack_def Let_def len(3) blocks using len assms(4,7-10) by (auto simp: list_ex_iff)
  have "parse_loop flags opt i remain st = (case parse_sack flags opt i ?len st of None \<Rightarrow> None
      | Some st \<Rightarrow> parse_loop flags opt (i + ?len) (remain - ?len) st)"
    using assms(1,6) pos
    unfolding parse_loop.simps [of flags opt i remain st] Let_def u by (auto simp: parse_one_def)
  also have "\<dots> = Some (st\<lparr>p_sack_seen := True, p_rx := (p_rx st)\<lparr>rx_opt_sacks := blocks\<rparr>\<rparr>)"
    using assms(6) unfolding ps option.case by (subst parse_loop.simps) auto
  finally show ?thesis .
qed

definition est_bytes :: "bool \<Rightarrow> u32 \<Rightarrow> u32 \<Rightarrow> tcp_sack_block list \<Rightarrow> byte list" where
  "est_bytes t tsval tsecr blocks =
     (if t then [1, 1, 8, 10] @ be32 tsval @ be32 tsecr else []) @
     (if blocks = [] then [] else sack_option blocks)"

definition est_start :: "bool \<Rightarrow> u32 \<Rightarrow> u32 \<Rightarrow> parse_state" where
  "est_start t tsval tsecr =
     \<lparr>p_rx = tcp_options_rx_zero\<lparr>rx_mss := 1460, rx_opt_timestamp_present := t,
        rx_opt_tsval := (if t then tsval else 0), rx_opt_tsecr := (if t then tsecr else 0)\<rparr>,
      p_mss_present = False, p_sack_permitted_seen = False, p_sack_seen = False\<rparr>"

lemma parse_timestamp_prefix:
  assumes "opt 0 = 1" "opt 1 = 1" "opt 2 = 8" "opt 3 = 10" "12 \<le> remain"
    and "be32_at opt 4 = tsval" "be32_at opt 8 = tsecr"
  shows "parse_loop flags opt 0 remain (est_start False 0 0) = parse_loop flags opt 12 (remain - 12) (est_start True tsval tsecr)"
proof -
  have one: "parse_one flags opt 2 8 10 (est_start False 0 0) = Some (est_start True tsval tsecr)"
    using assms(6,7) by (simp add: parse_one_def est_start_def tcp_options_rx_zero_def)
  have "parse_loop flags opt 0 remain (est_start False 0 0) = parse_loop flags opt 1 (remain - 1) (est_start False 0 0)"
    using assms by (subst parse_loop.simps) simp
  also have "\<dots> = parse_loop flags opt 2 (remain - 2) (est_start False 0 0)"
    using assms by (subst parse_loop.simps) (simp add: numeral_2_eq_2)
  also have "\<dots> = parse_loop flags opt 12 (remain - 12) (est_start True tsval tsecr)"
    using assms by (subst parse_loop.simps) (auto simp: one)
  finally show ?thesis .
qed

subsection \<open>Properties\<close>

lemma header_len_le: "header_len d \<le> 60"
proof -
  have "unat (drop_bit 4 d :: u8) \<le> 15"
    using unat_u8_lt [of d] by (simp add: drop_bit_eq_div unat_div)
  then show ?thesis by (simp add: header_len_def unat_word_ariths)
qed



text \<open>
  Claim C9. SYN options round trip: whichever of window scale, Timestamps and SACK-permitted are
  included, building the options of a SYN succeeds within the 40-byte area, and the parser reads
  back from the built header exactly the MSS 1460, the offered shift, the timestamps and the SACK
  permission that were put in, and nothing else.
\<close>

theorem syn_options_round_trip:
  assumes "rcv_wscale tp \<le> TCP_WSCALE_MAX" "flags AND RTE_TCP_SYN_FLAG \<noteq> 0"
  shows "\<exists>f' tp'. tcp_options_apply_syn tp f w t s tsecr now = (Some f', tp') \<and>
    tcp_options_parse (frag_data_off f') flags (\<lambda>i. frag_options f' ! i) =
      Some \<lparr>rx_mss = TCP_DEFAULT_MSS, rx_wscale = (if w then rcv_wscale tp else 0), rx_wscale_present = w,
        rx_sack_permitted_present = s, rx_opt_sacks = [], rx_opt_timestamp_present = t,
        rx_opt_tsval = (if t then now else 0), rx_opt_tsecr = (if t then tsecr else 0)\<rparr>"
proof -
  obtain f' tp' where f': "tcp_options_apply_syn tp f w t s tsecr now = (Some (tcp_options_finish f'), tp')"
      "area f' (syn_bytes w t s (rcv_wscale tp) now tsecr)"
    using apply_syn_bytes by blast
  have "frag_options (tcp_options_finish f') = frag_options f'" by (simp add: tcp_options_finish_def)
  then show ?thesis using f' parse_syn_bytes [OF assms(2) _ f'(2)] assms(1) by auto
qed

definition demo_fragment :: tcp_fragment where
  "demo_fragment = \<lparr>frag_src_port = 1024, frag_dst_port = 80, frag_sent_seq = 7, frag_recv_ack = 0,
     frag_data_off = 0, frag_tcp_flags = 2, frag_rx_win = 512, frag_tcp_urp = 0, frag_opt_len = 0,
     frag_options = [], frag_payload = []\<rparr>"

theorem syn_options_round_trip_witness:
  "\<exists>f' tp'. tcp_options_apply_syn (tcp_stream_zero\<lparr>rcv_wscale := 7\<rparr>) demo_fragment True True True 0 55 = (Some f', tp') \<and>
    tcp_options_parse (frag_data_off f') 2 (\<lambda>i. frag_options f' ! i) =
      Some \<lparr>rx_mss = TCP_DEFAULT_MSS, rx_wscale = 7, rx_wscale_present = True,
        rx_sack_permitted_present = True, rx_opt_sacks = [], rx_opt_timestamp_present = True,
        rx_opt_tsval = 55, rx_opt_tsecr = 0\<rparr>"
proof -
  have *: "rcv_wscale (tcp_stream_zero\<lparr>rcv_wscale := 7\<rparr>) \<le> TCP_WSCALE_MAX" "(2 :: u8) AND RTE_TCP_SYN_FLAG \<noteq> 0"
    by simp_all
  show ?thesis using syn_options_round_trip [OF *, of demo_fragment True True True 0 55] by simp
qed

text \<open>
  Claim C11. Protection against wrapped sequence numbers: once a segment with timestamp \<open>v\<close> has
  advanced the receive point at time \<open>t0\<close>, an acceptable segment at or after the receive point
  that arrives within the next 24 days is dropped exactly when its timestamp is older than \<open>v\<close> by
  at most half the timestamp space, and a dropped segment leaves \<open>ts_recent\<close> as it was.
\<close>

theorem paws_drops_exactly_old_timestamps:
  assumes "timestamps_ok tp" "rx_timestamp_present tp" "rx_opt_timestamp_present rx"
    and "unat (now - t0) \<le> 24 * 24 * 60 * 60 * 1000"
    and "tcp_options_seq_at_or_after seq (recv_ack tp)"
    and "tcp_options_process_inbound (tcp_options_note_receive_progress tp t0) rx False seq True now = (v, tp')"
  shows "(v = Inbound_Paws_Drop \<longleftrightarrow> rx_opt_tsval rx \<noteq> rx_tsval tp \<and> unat (rx_tsval tp - rx_opt_tsval rx) \<le> HALF) \<and>
    (v \<noteq> Inbound_Paws_Drop \<longrightarrow> v = Inbound_Ok) \<and> ts_recent tp' = rx_tsval tp"
proof -
  have "\<not> now - t0 > TCP_PAWS_IDLE_MS" using assms(4) by (simp add: word_less_nat_alt)
  moreover have "sint (rx_opt_tsval rx - rx_tsval tp) < 0 \<longleftrightarrow>
      rx_opt_tsval rx \<noteq> rx_tsval tp \<and> unat (rx_tsval tp - rx_opt_tsval rx) \<le> HALF"
    using seq_lt_unat [of "rx_opt_tsval rx" "rx_tsval tp"] by (simp add: seq_lt_def)
  ultimately show ?thesis
    using assms
    by (auto simp: tcp_options_process_inbound_def tcp_options_note_receive_progress_def Let_def
          split: if_splits)
qed

theorem paws_drops_exactly_old_timestamps_witness:
  "let tp = tcp_stream_zero\<lparr>timestamps_ok := True, rx_timestamp_present := True, rx_tsval := 100\<rparr>;
       rx = tcp_options_rx_zero\<lparr>rx_opt_timestamp_present := True, rx_opt_tsval := 90\<rparr>
   in fst (tcp_options_process_inbound (tcp_options_note_receive_progress tp 5) rx False 0 True 6) = Inbound_Paws_Drop"
proof -
  let ?tp = "tcp_stream_zero\<lparr>timestamps_ok := True, rx_timestamp_present := True, rx_tsval := 100\<rparr>"
  let ?rx = "tcp_options_rx_zero\<lparr>rx_opt_timestamp_present := True, rx_opt_tsval := 90\<rparr>"
  have "tcp_options_seq_at_or_after 0 (recv_ack ?tp)"
    by (simp add: tcp_options_seq_at_or_after_def tcp_stream_zero_def)
  with paws_drops_exactly_old_timestamps [OF _ _ _ _ this, of ?rx 6 5
      "fst (tcp_options_process_inbound (tcp_options_note_receive_progress ?tp 5) ?rx False 0 True 6)"
      "snd (tcp_options_process_inbound (tcp_options_note_receive_progress ?tp 5) ?rx False 0 True 6)"]
  show ?thesis by (simp add: Let_def)
qed

end
