(* ===== verification/Tcp_Sack_Recv.thy ===== *)
theory Tcp_Sack_Recv
  imports Tcp_Options_Spec Tcp_Ofo_Spec
begin

text \<open>
  The SACK blocks the receiver reports (\<^verbatim>\<open>src/pro-stack/tcp_options.c\<close>,
  \<^const>\<open>tcp_options_collect_sacks\<close>): they are the maximal ranges of the out-of-order queue, most recent
  first, never more than fit, and the option area they are written to is read back unchanged by
  the parser.
\<close>

subsection \<open>Merging the out-of-order queue\<close>

lemma after_off:
  assumes "seq_off b x < HALF" "seq_off b y < HALF"
  shows "tcp_options_seq_after x y \<longleftrightarrow> seq_off b y < seq_off b x"
  using ofo_gt_off(1) [OF assms] by (simp add: tcp_options_seq_after_def tcp_ofo_seq_gt_def)

text \<open>Sequence offsets covered by blocks and by queued segments.\<close>

definition blocks_cover :: "u32 \<Rightarrow> tcp_sack_block list \<Rightarrow> nat set" where
  "blocks_cover b bs = (\<Union>x \<in> set bs. {seq_off b (blk_left x) ..< seq_off b (blk_right x)})"

definition segs_cover :: "u32 \<Rightarrow> tcp_ofo_seg list \<Rightarrow> nat set" where
  "segs_cover b ss = (\<Union>s \<in> set ss. {seq_off b (seg_seq s) ..< seq_off b (seg_seq s) + slen s})"

definition block_ok :: "u32 \<Rightarrow> tcp_sack_block \<Rightarrow> bool" where
  "block_ok b x \<longleftrightarrow> seq_off b (blk_left x) < seq_off b (blk_right x) \<and> seq_off b (blk_right x) < HALF"

text \<open>Ascending blocks with a gap between neighbours: none of them could be merged.\<close>

definition blocks_apart :: "u32 \<Rightarrow> tcp_sack_block list \<Rightarrow> bool" where
  "blocks_apart b bs \<longleftrightarrow> (\<forall>x \<in> set bs. block_ok b x) \<and>
     sorted_wrt (\<lambda>x y. seq_off b (blk_right x) < seq_off b (blk_left y)) bs"

lemma cover_simps [simp]:
  "blocks_cover b [] = {}" "blocks_cover b (x # xs) = {seq_off b (blk_left x) ..< seq_off b (blk_right x)} \<union> blocks_cover b xs"
  "segs_cover b [] = {}" "segs_cover b (s # ss) = {seq_off b (seg_seq s) ..< seq_off b (seg_seq s) + slen s} \<union> segs_cover b ss"
  "blocks_cover b (rev xs) = blocks_cover b xs"
  by (auto simp: blocks_cover_def segs_cover_def)

lemma apart_rev_Cons:
  "blocks_apart b (rev (x # xs)) \<longleftrightarrow> block_ok b x \<and> blocks_apart b (rev xs) \<and> (\<forall>y \<in> set xs. seq_off b (blk_right y) < seq_off b (blk_left x))"
  by (auto simp: blocks_apart_def sorted_wrt_append)

lemma apart_below_head:
  assumes "blocks_apart b (rev acc)" "acc \<noteq> []" "y \<in> set acc"
  shows "seq_off b (blk_right y) \<le> seq_off b (blk_right (hd acc))"
proof (cases acc)
  case (Cons x xs)
  then have "block_ok b x" "\<forall>y \<in> set xs. seq_off b (blk_right y) < seq_off b (blk_left x)"
    using assms(1) apart_rev_Cons [of b x xs] by simp_all
  then show ?thesis using assms(3) by (auto simp: Cons block_ok_def)
qed (use assms in simp)

lemma held_end_off:
  assumes "piece_ok b T hi s" "hi < HALF"
  shows "seq_off b (seg_seq s + seg_len s) = seq_off b (seg_seq s) + slen s"
proof -
  have "seq_off b (seg_seq s + seg_len s) = (seq_off b (seg_seq s) + slen s) mod 4294967296"
    unfolding seq_off_def by (subst diff_add_eq [symmetric]) (simp add: unat_word_ariths)
  then show ?thesis using assms by (simp add: piece_ok_def)
qed

lemma normalize_cover:
  assumes "queue_ok b T hi lo segs" "hi < HALF" "length acc + length segs \<le> 32" "blocks_apart b (rev acc)"
    and "acc \<noteq> [] \<Longrightarrow> seq_off b (blk_right (hd acc)) \<le> lo"
  shows "blocks_cover b (normalize_ofo b segs acc) = blocks_cover b acc \<union> segs_cover b segs \<and> blocks_apart b (normalize_ofo b segs acc)"
  using assms(1,3-5)
proof (induction segs arbitrary: acc lo)
  case (Cons s ss)
  let ?o = "seq_off b (seg_seq s)" and ?r = "seg_seq s + seg_len s"
  have p: "piece_ok b T hi s" "lo \<le> ?o" and q: "queue_ok b T hi (?o + max 1 (slen s)) ss" using Cons.prems(1) by auto
  have r: "seq_off b ?r = ?o + slen s" by (rule held_end_off [OF p(1) assms(2)])
  have half: "?o + slen s < HALF" using p(1) assms(2) by (simp add: piece_ok_def)
  show ?case
  proof (cases "seg_len s = 0")
    case True
    have "acc \<noteq> [] \<Longrightarrow> seq_off b (blk_right (hd acc)) \<le> ?o + max 1 (slen s)" using Cons.prems(4) p(2) by fastforce
    from Cons.IH [OF q _ Cons.prems(3) this] show ?thesis using True Cons.prems(2) by simp
  next
    case False
    then have pos: "0 < slen s" by (simp add: unat_gt_0)
    have zero: "seq_off b b = 0" by (simp add: seq_off_def)
    have ra: "tcp_options_seq_after ?r b" "\<not> tcp_options_seq_after b (seg_seq s)"
      using after_off [of b ?r b] after_off [of b b "seg_seq s"] r half zero pos by auto
    let ?new = "\<lparr>blk_left = seg_seq s, blk_right = ?r\<rparr>"
    have new: "block_ok b ?new" using r half pos by (simp add: block_ok_def)
    show ?thesis
    proof (cases acc)
      case Nil
      have "blocks_apart b (rev [?new])" using new by (simp add: blocks_apart_def)
      from Cons.IH [OF q _ this] show ?thesis
        using Cons.prems(2) r ra False by (simp add: Nil Let_def)
    next
      case (Cons prev rest)
      have pr: "block_ok b prev" "seq_off b (blk_right prev) \<le> lo" "blocks_apart b (rev rest)"
          "\<forall>y \<in> set rest. seq_off b (blk_right y) < seq_off b (blk_left prev)"
        using Cons.prems(3,4) apart_rev_Cons [of b prev rest] by (simp_all add: Cons)
      have cmp: "tcp_options_seq_after (seg_seq s) (blk_right prev) \<longleftrightarrow> seq_off b (blk_right prev) < ?o"
          "tcp_options_seq_after ?r (blk_right prev)"
        using after_off [of b "seg_seq s" "blk_right prev"] after_off [of b ?r "blk_right prev"] pr(1,2) half p(2) r pos
        by (auto simp: block_ok_def)
      show ?thesis
      proof (cases "seq_off b (blk_right prev) < ?o")
        case True
        have ap: "blocks_apart b (rev (?new # acc))"
          unfolding apart_rev_Cons using new Cons.prems(3) True apart_below_head [OF Cons.prems(3)] by (fastforce simp: Cons)
        have "length acc \<noteq> 32" using Cons.prems(2) by simp
        then have "normalize_ofo b (s # ss) acc = normalize_ofo b ss (?new # acc)"
          using False ra cmp True by (simp add: Cons Let_def)
        then show ?thesis using Cons.IH [OF q _ ap] Cons.prems(2) r by auto
      next
        case touch: False
        let ?m = "prev\<lparr>blk_right := ?r\<rparr>"
        have eq: "?o = seq_off b (blk_right prev)" using touch pr(2) p(2) by simp
        have ap: "blocks_apart b (rev (?m # rest))"
          unfolding apart_rev_Cons using pr r half eq by (auto simp: block_ok_def)
        have "normalize_ofo b (s # ss) acc = normalize_ofo b ss (?m # rest)"
          using False ra cmp touch by (simp add: Cons Let_def)
        moreover have "{seq_off b (blk_left prev) ..< ?o + slen s} =
            {seq_off b (blk_left prev) ..< seq_off b (blk_right prev)} \<union> {?o ..< ?o + slen s}"
          using eq pr(1) by (auto simp: block_ok_def)
        ultimately show ?thesis using Cons.IH [OF q _ ap] Cons.prems(2) r by (simp add: Cons Un_ac)
      qed
    qed
  qed
qed simp

lemma normalize_ofo_ok:
  assumes "ofo_ok (recv_ack tp) T n tp"
  shows "blocks_cover (recv_ack tp) (normalize_ofo (recv_ack tp) (ofo tp) []) = segs_cover (recv_ack tp) (ofo tp)"
    and "blocks_apart (recv_ack tp) (normalize_ofo (recv_ack tp) (ofo tp) [])"
  using normalize_cover [of "recv_ack tp" T "unat (rcvbuf_size tp)" 0 "ofo tp" "[]"] assms
  by (auto simp: ofo_ok_def counts_ok_def blocks_apart_def)

subsection \<open>Choosing the blocks to report\<close>

lemma contains_refl: "tcp_options_block_contains x x"
  by (simp add: tcp_options_block_contains_def tcp_options_seq_after_def)

lemma apart_separate:
  assumes "blocks_apart b bs" "x \<in> set bs" "y \<in> set bs" "x \<noteq> y"
  shows "seq_off b (blk_right x) < seq_off b (blk_left y) \<or> seq_off b (blk_right y) < seq_off b (blk_left x)"
  using assms unfolding blocks_apart_def sorted_wrt_iff_nth_less in_set_conv_nth by (metis nat_neq_iff)

lemma apart_contains_eq:
  assumes "blocks_apart b bs" "x \<in> set bs" "y \<in> set bs" "tcp_options_block_contains x y"
  shows "x = y"
proof (rule ccontr)
  assume "x \<noteq> y"
  then have sep: "seq_off b (blk_right x) < seq_off b (blk_left y) \<or> seq_off b (blk_right y) < seq_off b (blk_left x)"
    using apart_separate assms(1-3) by blast
  have ok: "block_ok b x" "block_ok b y" using assms(1-3) by (auto simp: blocks_apart_def)
  then show False
    using sep assms(4) after_off [of b "blk_left x" "blk_left y"] after_off [of b "blk_right y" "blk_right x"]
    by (auto simp: tcp_options_block_contains_def block_ok_def)
qed

text \<open>\<open>out\<close> is a choice of distinct blocks among \<open>norm\<close>, at most \<open>cap\<close>.\<close>

definition chosen :: "tcp_sack_block list \<Rightarrow> nat \<Rightarrow> tcp_sack_block list \<Rightarrow> bool" where
  "chosen norm cap out \<longleftrightarrow> set out \<subseteq> set norm \<and> distinct out \<and> length out \<le> cap"

lemma add_distinct_chosen:
  assumes "chosen norm cap out" "n \<in> set norm"
  shows "chosen norm cap (tcp_options_add_distinct out cap n)"
  using assms contains_refl [of n] by (auto simp: chosen_def tcp_options_add_distinct_def list_ex_iff)

lemma add_distinct_extends: "\<exists>ext. tcp_options_add_distinct out cap n = out @ ext"
  by (simp add: tcp_options_add_distinct_def)

lemma emit_history_chosen:
  "chosen norm cap out \<Longrightarrow> chosen norm cap (emit_history norm hs cap out) \<and> (\<exists>ext. emit_history norm hs cap out = out @ ext)"
proof (induction hs arbitrary: out)
  case (Cons h hs)
  let ?o = "case List.find (\<lambda>n. tcp_options_block_contains n h) norm of None \<Rightarrow> out | Some n \<Rightarrow> tcp_options_add_distinct out cap n"
  have "chosen norm cap ?o" "\<exists>ext. ?o = out @ ext"
    using Cons.prems add_distinct_chosen add_distinct_extends
    by (auto simp: find_Some_iff split: option.split)
  with Cons.IH [of ?o] show ?case using Cons.prems by auto
qed auto

lemma emit_remaining_chosen:
  assumes "blocks_apart b norm" "set ns \<subseteq> set norm" "chosen norm cap out"
  shows "chosen norm cap (emit_remaining ns cap out) \<and> (\<exists>ext. emit_remaining ns cap out = out @ ext) \<and>
    (length (emit_remaining ns cap out) = cap \<or> set out \<union> set ns \<subseteq> set (emit_remaining ns cap out))"
  using assms(2,3)
proof (induction ns arbitrary: out)
  case (Cons n ns)
  show ?case
  proof (cases "length out < cap")
    case False
    then show ?thesis using Cons.prems by (auto simp: chosen_def)
  next
    case True
    let ?o = "tcp_options_add_distinct out cap n"
    have "chosen norm cap ?o" using add_distinct_chosen Cons.prems by simp
    from Cons.IH [OF _ this] Cons.prems(1)
    have ih: "chosen norm cap (emit_remaining ns cap ?o)" "\<exists>ext. emit_remaining ns cap ?o = ?o @ ext"
        "length (emit_remaining ns cap ?o) = cap \<or> set ?o \<union> set ns \<subseteq> set (emit_remaining ns cap ?o)" by auto
    have "n \<in> set ?o" "set out \<subseteq> set ?o"
      using True Cons.prems apart_contains_eq [OF assms(1), of _ n]
      by (auto simp: tcp_options_add_distinct_def list_ex_iff chosen_def subset_iff)
    then have "length (emit_remaining ns cap ?o) = cap \<or> set out \<union> set (n # ns) \<subseteq> set (emit_remaining ns cap ?o)"
      using ih(3) by auto
    then show ?thesis using True ih(1,2) add_distinct_extends [of out cap n] by auto
  qed
qed auto

lemma collect_sacks_ok:
  assumes "blocks_apart (recv_ack tp) (normalize_ofo (recv_ack tp) (ofo tp) [])" "\<not> dsack_pending tp"
    and "norm = normalize_ofo (recv_ack tp) (ofo tp) []" "tcp_options_collect_sacks tp cap = (blocks, tp')"
  shows "chosen norm cap blocks" "length blocks = cap \<or> set blocks = set norm"
    "find_recent tp norm = Some n \<Longrightarrow> 0 < cap \<Longrightarrow> \<exists>rest. blocks = n # rest"
proof -
  let ?recent = "find_recent tp norm"
  define out where "out = (case ?recent of None \<Rightarrow> [] | Some n \<Rightarrow> tcp_options_add_distinct [] cap n)"
  have rec: "n \<in> set norm" if "?recent = Some n" for n
    using that by (auto simp: find_recent_def find_Some_iff split: if_splits)
  have out: "chosen norm cap out"
    using rec add_distinct_chosen [of norm cap "[]"] by (auto simp: out_def chosen_def split: option.split)
  obtain hs where b: "blocks = emit_remaining norm cap (emit_history norm hs cap out)"
    using assms(2-4) unfolding tcp_options_collect_sacks_def emit_dsack_def Let_def out_def
    by (cases ?recent) auto
  note eh = emit_history_chosen [OF out, of hs]
  note er = emit_remaining_chosen [OF assms(1) [folded assms(3)] subset_refl conjunct1 [OF eh], folded b]
  show "chosen norm cap blocks" using er by blast
  then show "length blocks = cap \<or> set blocks = set norm" using er by (auto simp: chosen_def)
  show "\<exists>rest. blocks = n # rest" if "?recent = Some n" "0 < cap"
    using er eh that by (auto simp: out_def tcp_options_add_distinct_def)
qed

subsection \<open>The option area of an established segment\<close>

lemma add_distinct_bound: "length out \<le> cap \<Longrightarrow> length (tcp_options_add_distinct out cap n) \<le> cap"
  by (simp add: tcp_options_add_distinct_def)

lemma emit_history_bound: "length out \<le> cap \<Longrightarrow> length (emit_history norm hs cap out) \<le> cap"
  by (induction norm hs cap out rule: emit_history.induct) (auto simp: add_distinct_bound split: option.split)

lemma emit_remaining_bound: "length out \<le> cap \<Longrightarrow> length (emit_remaining ns cap out) \<le> cap"
  by (induction ns cap out rule: emit_remaining.induct) (auto simp: add_distinct_bound)

lemma collect_sacks_bound: "length (fst (tcp_options_collect_sacks tp cap)) \<le> cap"
proof -
  have d: "length (fst (emit_dsack tp norm cap)) \<le> cap" for norm
    by (auto simp: emit_dsack_def Let_def tcp_options_add_distinct_def split: option.split)
  show ?thesis
    unfolding tcp_options_collect_sacks_def Let_def
    using d [of "normalize_ofo (recv_ack tp) (ofo tp) []"]
    by (auto intro!: emit_remaining_bound emit_history_bound add_distinct_bound split: prod.split option.split)
qed

definition sack_capacity :: "tcp_stream \<Rightarrow> nat" where
  "sack_capacity tp = (if timestamps_ok tp then 3 else 4)"

definition reported_sacks :: "tcp_stream \<Rightarrow> u8 \<Rightarrow> tcp_sack_block list" where
  "reported_sacks tp flags = (if flags AND RTE_TCP_ACK_FLAG \<noteq> 0 \<and> sack_permitted tp \<and> (dsack_pending tp \<or> ofo tp \<noteq> [])
     then fst (tcp_options_collect_sacks tp (sack_capacity tp)) else [])"

lemma collect_sacks_ts: "fst (tcp_options_collect_sacks (tp\<lparr>ts_last_val := x\<rparr>) cap) = fst (tcp_options_collect_sacks tp cap)"
  by (simp add: tcp_options_collect_sacks_def find_recent_def emit_dsack_def tcp_options_history_push_def Let_def
      split: option.split prod.split)

lemma apply_established_bytes:
  "\<exists>f' tp'. tcp_options_apply_established tp f now = (Some (tcp_options_finish f'), tp') \<and>
    area f' (est_bytes (timestamps_ok tp) now (ts_recent tp) (reported_sacks tp (frag_tcp_flags f)))"
proof -
  let ?f = "f\<lparr>frag_options := replicate 40 0, frag_opt_len := 0\<rparr>"
  let ?t = "timestamps_ok tp" and ?tp = "if timestamps_ok tp then tp\<lparr>ts_last_val := now\<rparr> else tp"
  let ?b1 = "if ?t then [1, 1, 8, 10] @ be32 now @ be32 (ts_recent tp) else []"
  obtain f1 where f1: "(if ?t then tcp_options_emit_timestamp ?f now (ts_recent tp) else Some ?f) = Some f1"
      "area f1 ?b1" "frag_tcp_flags f1 = frag_tcp_flags f"
    using append_area_eq [OF area_start, of "[1, 1, 8, 10] @ be32 now @ be32 (ts_recent tp)" f] area_start [of f]
    by (cases ?t) (auto simp: tcp_options_emit_timestamp_def)
  let ?off = "nat (frag_opt_len f1) * 4"
  have off: "?off = length ?b1" using f1(2) by (auto simp: area_def)
  have cap: "(if (40 - ?off - 2) div 8 > TCP_SACK_MAX_BLOCKS then TCP_SACK_MAX_BLOCKS else (40 - ?off - 2) div 8) = sack_capacity tp" "\<not> ?off + 2 > 40"
    unfolding off by (simp_all add: sack_capacity_def)
  let ?bl = "fst (tcp_options_collect_sacks tp (sack_capacity tp))"
  have bl: "fst (tcp_options_collect_sacks ?tp (sack_capacity tp)) = ?bl" by (simp add: collect_sacks_ts)
  have room: "length ?b1 + length (sack_option ?bl) \<le> 40" "length ?b1 mod 4 = 0"
    using collect_sacks_bound [of tp "sack_capacity tp"] by (auto simp: length_sack_option sack_capacity_def split: if_splits)
  have "\<exists>f2 tp'. tcp_options_emit_sack ?tp f1 = (Some f2, tp') \<and> area f2 (est_bytes ?t now (ts_recent tp) (reported_sacks tp (frag_tcp_flags f)))"
  proof (cases "frag_tcp_flags f AND RTE_TCP_ACK_FLAG \<noteq> 0 \<and> sack_permitted tp \<and> (dsack_pending tp \<or> ofo tp \<noteq> []) \<and> ?bl \<noteq> []")
    case False
    then have "reported_sacks tp (frag_tcp_flags f) = []" by (auto simp: reported_sacks_def)
    moreover have "\<exists>tp'. tcp_options_emit_sack ?tp f1 = (Some f1, tp')"
      using False bl cap f1(3)
      unfolding tcp_options_emit_sack_def Let_def cap(1)
      by (cases "tcp_options_collect_sacks ?tp (sack_capacity tp)") (auto split: if_splits)
    ultimately show ?thesis using f1(2) by (auto simp: est_bytes_def)
  next
    case True
    obtain f2 where f2: "tcp_options_append f1 (sack_option ?bl) = Some f2" "area f2 (?b1 @ sack_option ?bl)"
      using append_area_eq [OF f1(2) room(2,1)] by blast
    have "tcp_options_emit_sack ?tp f1 = (Some f2, snd (tcp_options_collect_sacks ?tp (sack_capacity tp)))"
      using True bl cap(2) f1(3) f2(1) unfolding tcp_options_emit_sack_def Let_def cap(1)
      by (cases "tcp_options_collect_sacks ?tp (sack_capacity tp)") (auto split: if_splits)
    then show ?thesis using f2(2) True by (auto simp: est_bytes_def reported_sacks_def)
  qed
  then obtain f2 tp' where f2: "tcp_options_emit_sack ?tp f1 = (Some f2, tp')" "area f2 (est_bytes ?t now (ts_recent tp) (reported_sacks tp (frag_tcp_flags f)))"
    by blast
  have "tcp_options_apply_established tp f now = (Some (tcp_options_finish f2), tp')"
    using f1(1) f2(1) by (cases ?t) (simp_all add: tcp_options_apply_established_def tcp_options_ts_now_def)
  then show ?thesis using f2(2) by blast
qed

lemma apply_established_fits: "fst (tcp_options_apply_established tp f now) \<noteq> None"
  using apply_established_bytes [of tp f now] by auto

lemma parse_est_bytes:
  assumes "flags AND RTE_TCP_SYN_FLAG = 0" "flags AND RTE_TCP_ACK_FLAG \<noteq> 0" "area f (est_bytes t tsval tsecr blocks)"
    and "length blocks \<le> (if t then 3 else 4)" "\<forall>b \<in> set blocks. tcp_options_seq_after (blk_right b) (blk_left b)"
  shows "tcp_options_parse (frag_data_off (tcp_options_finish f)) flags (\<lambda>i. frag_options f ! i) =
    Some ((p_rx (est_start t tsval tsecr))\<lparr>rx_opt_sacks := blocks\<rparr>)"
proof -
  let ?opt = "\<lambda>i. frag_options f ! i" and ?bs = "est_bytes t tsval tsecr blocks"
  let ?pre = "if t then 12 else 0 :: nat" and ?len = "4 * ((length ?bs + 3) div 4)"
  have lb: "length ?bs = ?pre + (if blocks = [] then 0 else 2 + length blocks * 8)"
    by (simp add: est_bytes_def length_sack_option)
  have nth: "?opt i = ?bs ! i" if "i < length ?bs" for i using area_nth [OF assms(3) that] .
  have pad: "?opt i = 0" if "length ?bs \<le> i" "i < 40" for i using assms(3) that by (simp add: area_def nth_append)
  have st0: "\<lparr>p_rx = tcp_options_rx_zero\<lparr>rx_mss := TCP_DEFAULT_MSS\<rparr>, p_mss_present = False,
      p_sack_permitted_seen = False, p_sack_seen = False\<rparr> = est_start False 0 0"
    by (simp add: est_start_def tcp_options_rx_zero_def)
  have ge: "length ?bs \<le> ?len" by presburger
  have "length ?bs \<le> 40" using assms(3) by (simp add: area_def)
  then have le: "?len \<le> 40" by presburger
  have "parse_loop flags ?opt 0 ?len (est_start False 0 0) = parse_loop flags ?opt ?pre (?len - ?pre) (est_start t tsval tsecr)"
  proof (cases t)
    case True
    have "?opt 0 = 1" "?opt 1 = 1" "?opt 2 = 8" "?opt 3 = 10" using lb True by (simp_all add: nth est_bytes_def)
    moreover have "be32_at ?opt 4 = tsval" "be32_at ?opt 8 = tsecr"
      by (rule be32_at_be32; use lb True in \<open>simp add: nth est_bytes_def be32_def nth_append\<close>)+
    ultimately show ?thesis using parse_timestamp_prefix [of ?opt ?len tsval tsecr flags] True ge lb by simp
  qed (simp add: est_start_def)
  also have "\<dots> = Some ((est_start t tsval tsecr)\<lparr>p_sack_seen := blocks \<noteq> [], p_rx := (p_rx (est_start t tsval tsecr))\<lparr>rx_opt_sacks := blocks\<rparr>\<rparr>)"
  proof (cases "blocks = []")
    case True
    then have "?len = ?pre" using lb by simp
    then show ?thesis using True by (subst parse_loop.simps) (simp add: est_start_def tcp_options_rx_zero_def)
  next
    case False
    have sb: "?bs ! (?pre + j) = sack_option blocks ! j" for j using False by (simp add: est_bytes_def nth_append)
    have o: "?opt (?pre + j) = sack_option blocks ! j" if "j < 2 + length blocks * 8" for j
      using nth [of "?pre + j"] lb False that sb by simp
    have rem: "?len - ?pre = 2 + length blocks * 8 \<or> 2 + length blocks * 8 < ?len - ?pre \<and> ?opt (?pre + (2 + length blocks * 8)) = 0"
      using lb False le ge pad [of "?pre + (2 + length blocks * 8)"] by auto
    show ?thesis
      using parse_sack_tail [of ?opt ?pre blocks "?len - ?pre" "est_start t tsval tsecr" flags] o [of 0] o [of 1] o [of "2 + j" for j]
        rem False assms(1,2,4,5)
      by (simp add: sack_option_octets est_start_def add.assoc split: if_splits)
  qed
  finally show ?thesis
    unfolding tcp_options_parse_def st0 using header_len_finish [OF assms(3)] by simp
qed

subsection \<open>Properties\<close>


definition demo_ofo :: "u32 \<Rightarrow> byte list \<Rightarrow> tcp_stream" where
  "demo_ofo seq data =
     (let s = \<lparr>seg_ptr = 1, seg_seq = seq, seg_len = of_nat (length data), seg_data_off = 0, seg_has_fin = False, seg_data = data\<rparr>
      in tcp_stream_zero\<lparr>rcvbuf_size := 65535, rcvbuf_used := seg_len s, ofo := [s], ofo_tree := RbNode RB_BLACK RbNil (ofo_ref s) RbNil,
           ofo_count := 1, ofo_bytes := seg_len s, sack_permitted := True, timestamps_ok := True\<rparr>)"

lemma demo_ofo_ok: "ofo_ok (recv_ack (demo_ofo 3 [7, 8])) [1, 2, 3, 7, 8] 0 (demo_ofo 3 [7, 8])"
  by (simp add: demo_ofo_def Let_def tcp_stream_zero_def ofo_ok_def index_ok_def counts_ok_def rb_inv_def piece_ok_def
      seg_bytes_def seq_off_def ofo_ref_def ofo_total_def)


lemma emit_history_subset: "set (emit_history norm hs cap out) \<subseteq> set norm \<union> set out"
  by (induction norm hs cap out rule: emit_history.induct)
    (fastforce simp: tcp_options_add_distinct_def find_Some_iff split: option.splits if_splits)+

lemma emit_remaining_subset: "set (emit_remaining ns cap out) \<subseteq> set ns \<union> set out"
  by (induction ns cap out rule: emit_remaining.induct) (fastforce simp: tcp_options_add_distinct_def split: if_splits)+

lemma collect_sacks_subset:
  "set (fst (tcp_options_collect_sacks tp cap)) \<subseteq>
     set (normalize_ofo (recv_ack tp) (ofo tp) []) \<union> (if dsack_pending tp then {dsack_block tp} else {})"
proof -
  let ?norm = "normalize_ofo (recv_ack tp) (ofo tp) []"
  obtain d tp1 where d: "emit_dsack tp ?norm cap = (d, tp1)" by fastforce
  have ds: "set d \<subseteq> set ?norm \<union> (if dsack_pending tp then {dsack_block tp} else {})"
    using d by (auto simp: emit_dsack_def Let_def tcp_options_add_distinct_def find_Some_iff split: if_splits option.splits)
  define out where "out = (case find_recent tp ?norm of None \<Rightarrow> d | Some n \<Rightarrow> tcp_options_add_distinct d cap n)"
  have "set out \<subseteq> set ?norm \<union> set d"
    by (auto simp: out_def find_recent_def find_Some_iff tcp_options_add_distinct_def split: option.splits if_splits)
  then have o: "set out \<subseteq> set ?norm \<union> (if dsack_pending tp then {dsack_block tp} else {})" using ds by blast
  obtain hs where c: "fst (tcp_options_collect_sacks tp cap) = emit_remaining ?norm cap (emit_history ?norm hs cap out)"
    unfolding tcp_options_collect_sacks_def Let_def d out_def by (cases "find_recent tp ?norm") auto
  have "set (emit_remaining ?norm cap (emit_history ?norm hs cap out)) \<subseteq> set ?norm \<union> set out"
    using emit_remaining_subset [of ?norm cap "emit_history ?norm hs cap out"] emit_history_subset [of ?norm hs cap out] by blast
  also have "\<dots> \<subseteq> set ?norm \<union> (if dsack_pending tp then {dsack_block tp} else {})" using o by blast
  finally show ?thesis unfolding c .
qed

text \<open>
  Claim C5.  Options of established segments survive the wire.  For every connection state with a
  well-formed out-of-order queue, the encoder succeeds, and the peer's parser reads back exactly
  the timestamps and the SACK blocks that were put in, in order, and nothing else.
\<close>

theorem established_options_round_trip:
  assumes "ofo_ok (recv_ack tp) T n tp" "dsack_pending tp \<longrightarrow> tcp_options_seq_after (blk_right (dsack_block tp)) (blk_left (dsack_block tp))"
    and "frag_tcp_flags f AND RTE_TCP_SYN_FLAG = 0" "frag_tcp_flags f AND RTE_TCP_ACK_FLAG \<noteq> 0"
  shows "\<exists>f' tp'. tcp_options_apply_established tp f now = (Some f', tp') \<and>
    tcp_options_parse (frag_data_off f') (frag_tcp_flags f) (\<lambda>i. frag_options f' ! i) =
      Some \<lparr>rx_mss = TCP_DEFAULT_MSS, rx_wscale = 0, rx_wscale_present = False, rx_sack_permitted_present = False,
        rx_opt_sacks = reported_sacks tp (frag_tcp_flags f), rx_opt_timestamp_present = timestamps_ok tp,
        rx_opt_tsval = (if timestamps_ok tp then now else 0), rx_opt_tsecr = (if timestamps_ok tp then ts_recent tp else 0)\<rparr>"
proof -
  let ?bl = "reported_sacks tp (frag_tcp_flags f)"
  obtain f' tp' where f': "tcp_options_apply_established tp f now = (Some (tcp_options_finish f'), tp')"
      "area f' (est_bytes (timestamps_ok tp) now (ts_recent tp) ?bl)"
    using apply_established_bytes by blast
  have "tcp_options_seq_after (blk_right x) (blk_left x)" if "block_ok (recv_ack tp) x" for x
    using that after_off [of "recv_ack tp" "blk_right x" "blk_left x"] by (simp add: block_ok_def)
  then have "\<forall>x \<in> set ?bl. tcp_options_seq_after (blk_right x) (blk_left x)"
    using collect_sacks_subset [of tp "sack_capacity tp"] normalize_ofo_ok(2) [OF assms(1)] assms(2)
    by (auto simp: reported_sacks_def blocks_apart_def split: if_splits)
  moreover have "length ?bl \<le> (if timestamps_ok tp then 3 else 4)"
    using collect_sacks_bound [of tp "sack_capacity tp"] by (auto simp: reported_sacks_def sack_capacity_def split: if_splits)
  ultimately have "tcp_options_parse (frag_data_off (tcp_options_finish f')) (frag_tcp_flags f) (\<lambda>i. frag_options f' ! i) =
      Some ((p_rx (est_start (timestamps_ok tp) now (ts_recent tp)))\<lparr>rx_opt_sacks := ?bl\<rparr>)"
    by (intro parse_est_bytes [OF assms(3,4) f'(2)])
  moreover have "frag_options (tcp_options_finish f') = frag_options f'" by (simp add: tcp_options_finish_def)
  ultimately show ?thesis using f'(1) by (auto simp: est_start_def tcp_options_rx_zero_def)
qed

theorem established_options_round_trip_witness:
  "\<exists>f' tp'. tcp_options_apply_established (demo_ofo 3 [7, 8]) (demo_fragment\<lparr>frag_tcp_flags := 16\<rparr>) 55 = (Some f', tp') \<and>
    map_option rx_opt_sacks (tcp_options_parse (frag_data_off f') 16 (\<lambda>i. frag_options f' ! i)) = Some [\<lparr>blk_left = 3, blk_right = 5\<rparr>]"
proof -
  have "reported_sacks (demo_ofo 3 [7, 8]) 16 = [\<lparr>blk_left = 3, blk_right = 5\<rparr>]" by code_simp
  moreover have d: "\<not> dsack_pending (demo_ofo 3 [7, 8])" by code_simp
  ultimately show ?thesis
    using established_options_round_trip [OF demo_ofo_ok, of "demo_fragment\<lparr>frag_tcp_flags := 16\<rparr>" 55] by auto
qed

end
