(* ===== verification/Tcp_Frame_Io.thy ===== *)
theory Tcp_Frame_Io
  imports Tcp_Input Tcp_Output Tcp_Api Tcp_Receive_Run Tcp_Sack_Recv
begin

text \<open>
  What a connection promises to its two users depends on few fields of the control block: the send
  buffer with its sequence numbers, the receive queues, the queued control segments and the state.
  \<open>io_view\<close> is that part.  The lemmas in \<open>io_same\<close> say which operations leave it alone: congestion
  control, round-trip estimation, the SACK scoreboard and the options.
\<close>

definition io_view where
  "io_view tp = (sent_seq tp, snd_una tp, sndbuf tp, fin_deferred tp, tx_queue tp, status tp,
     recv_ack tp, peer_eof tp, rx_current tp, rx_queue tp, rcvbuf_size tp, rcvbuf_used tp,
     ofo_tree tp, ofo tp, ofo_count tp, ofo_bytes tp)"

named_theorems io_same

lemma io_viewD:
  assumes "io_view tp' = io_view tp"
  shows "sent_seq tp' = sent_seq tp" "snd_una tp' = snd_una tp" "sndbuf tp' = sndbuf tp" "fin_deferred tp' = fin_deferred tp"
    "tx_queue tp' = tx_queue tp" "status tp' = status tp" "recv_ack tp' = recv_ack tp" "peer_eof tp' = peer_eof tp"
    "rx_current tp' = rx_current tp" "rx_queue tp' = rx_queue tp"
  using assms by (simp_all add: io_view_def)

lemma io_view_rx_same: "io_view tp' = io_view tp \<Longrightarrow> rx_same tp tp'"
  by (simp add: io_view_def rx_same_def queue_same_def)

lemma field_io [io_same]:
  "io_view (tp\<lparr>sack := x\<rparr>) = io_view tp" "io_view (tp\<lparr>cc := y\<rparr>) = io_view tp" "io_view (tp\<lparr>retries := r\<rparr>) = io_view tp"
  "io_view (tp\<lparr>close_deadline_cycles := d\<rparr>) = io_view tp" "io_view (tp\<lparr>ack_pending := a\<rparr>) = io_view tp"
  "io_view (tp\<lparr>syn_retransmitted := a\<rparr>) = io_view tp"
  by (simp_all add: io_view_def)

subsection \<open>Congestion control and round trips\<close>

lemma cc_io: "same_but_cc tp tp' \<Longrightarrow> io_view tp' = io_view tp"
  by (auto simp: same_but_cc_def io_view_def)

lemma cc_call_io: "io_view (tcp_cc_call tp c) = io_view tp"
  using tcp_cc_call_safe [of tp c] by (simp add: cc_io cc_step_safe_def)

lemma cc_ops_io [io_same]:
  "io_view (tcp_cc_on_ack tp a) = io_view tp" "io_view (tcp_cc_on_packet_sent tp x) = io_view tp"
  "io_view (tcp_cc_on_loss tp l) = io_view tp" "io_view (tcp_cc_on_rto tp l) = io_view tp"
  "io_view (tcp_cc_on_recovery_exit tp) = io_view tp" "io_view (tcp_cc_on_idle_restart tp n r) = io_view tp"
  "io_view (tcp_cc_on_dsack tp b c) = io_view tp"
  using cc_call_io [of tp "Call_Ack a"] cc_call_io [of tp "Call_Sent x"] cc_call_io [of tp "Call_Loss l"]
    cc_call_io [of tp "Call_Rto l"] cc_call_io [of tp Call_Recovery_Exit] cc_call_io [of tp "Call_Idle n r"]
    cc_call_io [of tp "Call_Dsack b c"] by simp_all

lemma cc_init_io [io_same]: "io_view (tcp_cc_init_default tp b) = io_view tp"
  using cc_io [OF cu.init_frame, of "tp\<lparr>cc := tcp_cc_state_zero\<lparr>ops := Some tcp_cubic_ops\<rparr>\<rparr>" b]
  by (simp add: tcp_cc_init_default_def tcp_cc_default_ops_def tcp_cc_set_ops_def io_view_def)

lemma rtt_ops_io [io_same]:
  "io_view (tcp_rtt_reset tp) = io_view tp" "io_view (tcp_rtt_note_xmit tp e v) = io_view tp"
  "io_view (snd (tcp_rtt_on_ack n tp a p t)) = io_view tp" "io_view (tcp_rtt_on_timeout tp) = io_view tp"
  "io_view (tcp_rtt_on_retransmit tp) = io_view tp" "io_view (tcp_rtt_on_flight_acked tp) = io_view tp"
  by (simp_all add: rtt_defs io_view_def Let_def split: prod.split)

subsection \<open>The scoreboard\<close>

text \<open>Its operations write the field \<open>sack\<close> only.\<close>

definition sack_only :: "tcp_stream \<Rightarrow> tcp_stream \<Rightarrow> bool" where
  "sack_only tp tp' \<longleftrightarrow> (\<exists>x. tp' = tp\<lparr>sack := x\<rparr>)"

lemma sack_only_upd [simp]: "sack_only tp (tp\<lparr>sack := x\<rparr>)"
  by (auto simp: sack_only_def)

lemma sack_only_refl [simp]: "sack_only tp tp"
  using sack_only_upd [of tp "sack tp"] by simp

lemma sack_only_trans: "sack_only a b \<Longrightarrow> sack_only b c \<Longrightarrow> sack_only a c"
  by (auto simp: sack_only_def)

lemma sack_only_then [simp]: "sack_only a b \<Longrightarrow> sack_only a (b\<lparr>sack := x\<rparr>)"
  by (auto simp: sack_only_def)

lemma sack_only_io: "sack_only tp tp' \<Longrightarrow> io_view tp' = io_view tp"
  by (auto simp: sack_only_def io_view_def)

lemma sack_only_iff: "sack_only tp tp' \<longleftrightarrow> tp' = tp\<lparr>sack := sack tp'\<rparr>"
  by (auto simp: sack_only_def)

lemma range_free_only: "sack_only tp (range_free tp)"
  by (simp add: range_free_def)

lemma list_clear_only: "sack_only tp (range_list_clear tp rs)"
  using range_list_clear_sack [of tp rs] by (auto simp: sack_only_def)

lemma clear_only: "sack_only tp (clear_sacked tp)" "sack_only tp (clear_retransmitted tp)"
  using clear_sack [of tp] by (auto simp: sack_only_def)

lemma state_reset_only: "sack_only tp (tcp_sack_state_reset tp s)"
  by (simp add: state_reset_is_init tcp_sack_state_init_def)

lemma degrade_only: "sack_only tp (sack_degrade tp)"
  using sack_only_trans [OF clear_only(1) clear_only(2), of tp] by (simp add: sack_degrade_def Let_def)

lemma merge_only: "range_merge tp rs ol orr l r n reuse = (tp', x) \<Longrightarrow> sack_only tp tp'"
proof (induction rs arbitrary: tp l r n reuse)
  case (Cons c cs)
  show ?case
  proof (cases "seq_gt (rng_left c) r")
    case False
    with Cons.prems obtain l' r' n' where
      "range_merge (if reuse then range_free tp else tp) cs ol orr l' r' n' True = (tp', x)"
      by (auto simp: Let_def)
    from Cons.IH [OF this] have s: "sack_only (if reuse then range_free tp else tp) tp'" .
    have "sack_only tp (if reuse then range_free tp else tp)" by (simp add: range_free_only)
    from sack_only_trans [OF this s] show ?thesis .
  qed (use Cons.prems in simp)
qed simp

lemma insert_only: "range_insert ok tp head l r f = (n, tp', rs) \<Longrightarrow> sack_only tp tp'"
  by (auto simp: range_insert_def range_alloc_def Let_def split: prod.splits option.splits if_splits dest!: merge_only)

lemma trim_list_only: "range_list_trim tp rs l r = (tp', rs') \<Longrightarrow> sack_only tp tp'"
proof (induction rs arbitrary: tp rs')
  case (Cons c cs)
  show ?case
  proof (cases "\<not> seq_lt (rng_left c) r \<or> \<not> seq_lt l (rng_right c)")
    case True
    then have "range_list_trim (range_free tp) cs l r = (tp', rs')" using Cons.prems by (simp split: if_splits)
    then show ?thesis using Cons.IH sack_only_trans [OF range_free_only] by blast
  next
    case False
    then show ?thesis using Cons.prems Cons.IH by (auto simp: Let_def split: prod.splits)
  qed
qed simp

lemma trim_lists_only: "sack_only tp (trim_lists tp e)"
proof (cases "seq_lt (snd_una tp) e")
  case False
  then show ?thesis using sack_only_trans [OF clear_only(1) clear_only(2), of tp] by (simp add: trim_lists_def)
next
  case True
  obtain tp1 rs where 1: "range_list_trim tp (sacked (sack tp)) (snd_una tp) e = (tp1, rs)" by fastforce
  obtain tp2 rs2 where 2: "range_list_trim (tp1\<lparr>sack := (sack tp1)\<lparr>sacked := rs\<rparr>\<rparr>) (retransmitted (sack tp1)) (snd_una tp1) e = (tp2, rs2)"
    by fastforce
  have "sack_only tp tp2"
    using sack_only_trans [OF sack_only_then [OF trim_list_only [OF 1]] trim_list_only [OF 2]] .
  then show ?thesis using True 1 2 by (simp add: trim_lists_def)
qed

lemma trim_only: "sack_only tp (tcp_sack_trim tp e)"
  using trim_lists_only [of tp e] by (simp add: tcp_sack_trim_def Let_def)

lemma add_blocks_only: "sack_add_blocks pool tp bs e n = (tp', x) \<Longrightarrow> sack_only tp tp'"
proof (induction bs arbitrary: pool tp n)
  case (Cons b bs)
  let ?l = "if seq_lt (blk_left b) (snd_una tp) then snd_una tp else blk_left b"
  let ?r = "if seq_gt (blk_right b) e then e else blk_right b"
  obtain added tp1 rs where i: "range_insert (pool 0) tp (sacked (sack tp)) ?l ?r 1 = (added, tp1, rs)" by (metis prod_cases3)
  have 1: "sack_only tp (tp1\<lparr>sack := (sack tp1)\<lparr>sacked := rs\<rparr>\<rparr>)" using insert_only [OF i] by simp
  show ?case
    using Cons.prems Cons.IH sack_only_trans [OF 1] degrade_only unfolding sack_add_blocks.simps Let_def i
    by (auto split: if_splits)
qed simp

lemma recovery_exit_only: "sack_only tp (snd (sack_recovery_exit tp))"
  by (simp add: sack_recovery_exit_def)

lemma update_only: "sack_only tp (snd (tcp_sack_update pool tp ack bs e))"
proof -
  define tp1 where "tp1 = tcp_sack_trim tp e"
  define d where "d = first_block_is_dsack ack (take TCP_SACK_MAX_BLOCKS bs)"
  obtain tp2 n where a: "(if degraded (sack tp1) \<or> \<not> sack_permitted tp1 \<or> \<not> seq_lt (snd_una tp1) e then (tp1, None)
      else sack_add_blocks pool tp1 (if d then tl (take TCP_SACK_MAX_BLOCKS bs) else take TCP_SACK_MAX_BLOCKS bs) e 0) = (tp2, n)"
    by fastforce
  have "sack_only tp1 tp2" using a add_blocks_only by (auto split: if_splits)
  then have "sack_only tp (snd (sack_recovery_exit tp2))"
    using trim_only [of tp e] recovery_exit_only sack_only_trans unfolding tp1_def by blast
  moreover have "snd (tcp_sack_update pool tp ack bs e) = snd (sack_recovery_exit tp2)"
    unfolding tcp_sack_update_def Let_def tp1_def [symmetric] d_def [symmetric] a by (simp split: prod.split)
  ultimately show ?thesis by simp
qed

lemma set_pipe_only: "sack_only tp (snd (tcp_sack_set_pipe tp e))"
  by (simp add: tcp_sack_set_pipe_def Let_def split: prod.split)

lemma candidate_only: "sack_only tp (snd (candidate_set tp k r c s e))"
  by (simp add: candidate_set_def Let_def)

lemma enter_recovery_only: "sack_only tp (tcp_sack_enter_recovery tp m e)"
  unfolding tcp_sack_enter_recovery_def Let_def by (rule sack_only_trans [OF _ candidate_only]) simp

lemma newreno_partial_only: "sack_only tp (snd (tcp_sack_schedule_newreno_partial tp e))"
  unfolding tcp_sack_schedule_newreno_partial_def Let_def
  by (simp, intro impI, rule sack_only_trans [OF _ candidate_only]) simp

lemma on_rto_only: "sack_only tp (tcp_sack_on_rto tp e)"
  unfolding tcp_sack_on_rto_def Let_def
  by (rule sack_only_trans [OF _ enter_recovery_only]) (simp add: clear_only)

lemma schedule_next_only: "sack_only tp (snd (tcp_sack_schedule_next tp e b))"
  by (simp add: tcp_sack_schedule_next_def next_rescue_def Let_def candidate_only split: option.split)

lemma commit_only: "sack_only tp (tcp_sack_commit_candidate ok tp e)"
proof -
  obtain added tp1 rs where i: "range_insert ok tp (retransmitted (sack tp)) (cand_seq (pending (sack tp))) e 2 = (added, tp1, rs)"
    by (metis prod_cases3)
  have 1: "sack_only tp (tp1\<lparr>sack := (sack tp1)\<lparr>retransmitted := rs\<rparr>\<rparr>)" using insert_only [OF i] by simp
  show ?thesis
    using insert_only [OF i] 1 sack_only_trans [OF 1 degrade_only] by (simp add: tcp_sack_commit_candidate_def Let_def i)
qed

lemmas sack_ops_only = state_reset_only update_only set_pipe_only enter_recovery_only newreno_partial_only
  on_rto_only schedule_next_only commit_only

lemmas sack_ops_io [io_same] = sack_ops_only [THEN sack_only_io]

lemma sack_small_io [io_same]:
  "io_view (tcp_sack_cancel_candidate tp) = io_view tp" "io_view (tcp_sack_note_new_data tp e) = io_view tp"
  by (simp_all add: tcp_sack_cancel_candidate_def tcp_sack_note_new_data_def io_view_def)

subsection \<open>Options\<close>

lemma collect_sacks_io: "io_view (snd (tcp_options_collect_sacks tp c)) = io_view tp"
proof -
  obtain out tp1 where d: "emit_dsack tp (normalize_ofo (recv_ack tp) (ofo tp) []) c = (out, tp1)" by fastforce
  have "io_view tp1 = io_view tp" using d by (auto simp: emit_dsack_def Let_def io_view_def split: if_splits prod.splits)
  then show ?thesis
    by (simp add: tcp_options_collect_sacks_def Let_def d tcp_options_history_push_def io_view_def split: option.split prod.split)
qed

lemma emit_sack_io: "io_view (snd (tcp_options_emit_sack tp f)) = io_view tp"
proof -
  have "io_view (snd (case tcp_options_collect_sacks tp c of (bs, tp) \<Rightarrow>
      if bs = [] then (Some f, tp) else (tcp_options_append f (sack_option bs), tp))) = io_view tp" for c
    using collect_sacks_io [of tp c] by (cases "tcp_options_collect_sacks tp c") simp
  then show ?thesis unfolding tcp_options_emit_sack_def Let_def by simp
qed

lemma apply_established_io [io_same]: "io_view (snd (tcp_options_apply_established tp f n)) = io_view tp"
proof -
  obtain m tp1 where t: "(if timestamps_ok tp then tcp_options_ts_now tp n else (n, tp)) = (m, tp1)" by fastforce
  have "io_view tp1 = io_view tp" using t by (auto simp: tcp_options_ts_now_def io_view_def split: if_splits)
  moreover have "io_view (snd (case tcp_options_emit_sack tp1 g of (None, tp) \<Rightarrow> (None, tp) | (Some f, tp) \<Rightarrow> (Some (tcp_options_finish f), tp))) = io_view tp1" for g
    using emit_sack_io [of tp1 g] by (auto split: prod.split option.split)
  ultimately show ?thesis unfolding tcp_options_apply_established_def Let_def t by (simp split: option.split)
qed

lemma apply_syn_io [io_same]: "io_view (snd (tcp_options_apply_syn tp f ws ts sp e n)) = io_view tp"
  by (simp add: tcp_options_apply_syn_def Let_def tcp_options_ts_now_def io_view_def split: option.split prod.split)

lemma process_inbound_io [io_same]: "io_view (snd (tcp_options_process_inbound tp rx r q a n)) = io_view tp"
  by (simp add: tcp_options_process_inbound_def Let_def io_view_def)

lemma options_small_io [io_same]:
  "io_view (tcp_options_note_receive_progress tp n) = io_view tp" "io_view (tcp_options_negotiate_syn tp peer n) = io_view tp"
  by (simp_all add: tcp_options_note_receive_progress_def tcp_options_negotiate_syn_def Let_def io_view_def)

lemma note_io: "note_frame tp tp' \<Longrightarrow> io_view tp' = io_view tp"
  unfolding note_frame_def by (elim exE) (simp add: io_view_def)

subsection \<open>Acknowledgements\<close>

lemma snd_wnd_io: "tcp_update_snd_wnd_local tp q a n s = (x, y, tp') \<Longrightarrow> io_view tp' = io_view tp"
  by (auto simp: tcp_update_snd_wnd_local_def Let_def io_view_def split: if_splits)

lemma ack_sack_io: "ack_sack env cx tp ack = (res, x, y, tp') \<Longrightarrow> io_view tp' = io_view tp"
proof -
  assume a: "ack_sack env cx tp ack = (res, x, y, tp')"
  obtain r tp1 where u: "tcp_sack_update (env_range_pool env) tp ack (if sack_permitted tp then rx_sacks tp else []) (ax_flight_end cx) = (r, tp1)"
    by fastforce
  have "io_view tp1 = io_view tp" using sack_ops_io(2) [of "env_range_pool env" tp ack] u by (metis snd_conv)
  then show ?thesis using a unfolding ack_sack_def u
    by (auto simp: Let_def io_same split: if_splits)
qed

lemma detect_loss_io: "io_view (snd (ack_detect_loss cx tp n d)) = io_view tp"
  by (simp add: ack_detect_loss_def Let_def io_same)

lemma ack_schedule_io: "io_view (ack_schedule cx tp n) = io_view tp"
  by (simp add: ack_schedule_def io_same)

lemma rto_loss_io [io_same]: "io_view (rto_loss tp) = io_view tp"
  by (simp add: rto_loss_def Let_def io_same)

lemma recovery_candidate_io [io_same]: "io_view (recovery_candidate tp) = io_view tp"
proof -
  obtain p tp1 where u: "tcp_sack_set_pipe tp (tcp_sack_payload_flight_end tp) = (p, tp1)" by fastforce
  have "io_view tp1 = io_view tp" using sack_ops_io(3) [of tp] u by (metis snd_conv)
  then show ?thesis by (simp add: recovery_candidate_def u Let_def io_same)
qed

end
