(* ===== verification/Tcp_Sender.thy ===== *)
theory Tcp_Sender
  imports Tcp_Frame_Io
begin

text \<open>
  The sending side of a connection as an invariant: every byte the application handed over is
  acknowledged, in flight or waiting, in order and at the sequence number of its position in the
  stream; every segment that left carries bytes of the stream at their position; a FIN is numbered
  after the last byte and only when no more can be accepted.
\<close>

subsection \<open>Segments that left the socket\<close>

definition emitted :: "'p tcp_world \<Rightarrow> tcp_fragment set" where
  "emitted w = {f. Fx_tx f \<in> set (sk_log w)}"

text \<open>What the two users of a connection can observe of it.\<close>

definition io_w where
  "io_w w = (io_view (w_tp w), emitted w, sk_terminal_error w, sk_app_closed w)"

lemma io_wD:
  assumes "io_w w' = io_w w"
  shows "io_view (w_tp w') = io_view (w_tp w)" "emitted w' = emitted w" "sk_terminal_error w' = sk_terminal_error w"
    "sk_app_closed w' = sk_app_closed w"
  using assms by (simp_all add: io_w_def)

lemma emitted_log [simp]: "emitted (log_fx e w) = emitted w \<union> {f. e = Fx_tx f}"
  by (auto simp: emitted_def log_fx_def)

lemma log_fx_fields [simp]:
  "w_tp (log_fx e w) = w_tp w" "w_mem (log_fx e w) = w_mem w" "w_st (log_fx e w) = w_st w"
  "sk_terminal_error (log_fx e w) = sk_terminal_error w" "sk_app_closed (log_fx e w) = sk_app_closed w"
  by (simp_all add: log_fx_def)

lemma emitted_upd [simp]:
  "emitted (w\<lparr>w_tp := tp\<rparr>) = emitted w" "emitted (w\<lparr>w_mem := m\<rparr>) = emitted w" "emitted (w\<lparr>sk_timer := t\<rparr>) = emitted w"
  "emitted (w\<lparr>sk_terminal_error := e\<rparr>) = emitted w" "emitted (w\<lparr>sk_parent := p\<rparr>) = emitted w"
  "emitted (w\<lparr>sk_attached := a\<rparr>) = emitted w" "emitted (w\<lparr>sk_registered := r\<rparr>) = emitted w" "emitted (w\<lparr>sk_freed := r\<rparr>) = emitted w"
  "emitted (w\<lparr>sk_app_closed := a\<rparr>) = emitted w"
  by (simp_all add: emitted_def)

lemma upd_tp_fields [simp]:
  "w_tp (upd_tp g w) = g (w_tp w)" "emitted (upd_tp g w) = emitted w" "sk_terminal_error (upd_tp g w) = sk_terminal_error w"
  "sk_app_closed (upd_tp g w) = sk_app_closed w" "sk_log (upd_tp g w) = sk_log w"
  by (simp_all add: upd_tp_def)

lemma mark_dirty_fields [simp]:
  "w_tp (tcp_mark_tx_dirty w) = w_tp w" "emitted (tcp_mark_tx_dirty w) = emitted w"
  "sk_terminal_error (tcp_mark_tx_dirty w) = sk_terminal_error w" "sk_app_closed (tcp_mark_tx_dirty w) = sk_app_closed w"
  by (simp_all add: tcp_mark_tx_dirty_def)

lemma cancel_fields [simp]:
  "w_tp (sock_timer_cancel w) = w_tp w" "emitted (sock_timer_cancel w) = emitted w"
  "sk_terminal_error (sock_timer_cancel w) = sk_terminal_error w" "sk_app_closed (sock_timer_cancel w) = sk_app_closed w"
  by (simp_all add: sock_timer_cancel_def)

lemma arm_at_io: "io_w (snd (sock_arm_at env w d)) = io_w w"
  by (simp add: sock_arm_at_def io_w_def)

lemma arm_io:
  "io_w (snd (tcp_arm_data_rto env w d)) = io_w w" "io_w (snd (tcp_arm_syn_timer env w d)) = io_w w"
  "io_w (snd (owner_timer_arm_after_ms env w d)) = io_w w"
  by (simp_all add: tcp_arm_data_rto_def tcp_arm_syn_timer_def owner_timer_arm_after_ms_def Let_def arm_at_io)

lemma set_status_emitted [simp]: "emitted (tcp_stream_set_status w s) = emitted w"
  by (simp add: emitted_def)

lemma more_emitted:
  fixes w w' :: "'p tcp_world"
  shows "ofo_world.more w' = ofo_world.more w \<Longrightarrow> emitted w' = emitted w"
  using more_fields(13) [of w' w] by (simp add: emitted_def)

lemma parent_unpend_emitted [simp]: "emitted (parent_unpend w) = emitted w"
  by (simp add: parent_unpend_def)

lemma drain_emitted [simp]: "emitted (tcp_drain_send env w) = emitted w" "emitted (tcp_drain_recv env w) = emitted w"
  by (rule more_emitted, rule drain_send_more, rule more_emitted, rule drain_recv_fields(11))

lemma nsock_free_emitted [simp]: "emitted (nsock_free env w) = emitted w"
  by (auto simp: nsock_free_def Let_def split: prod.split)

subsection \<open>Torn down\<close>

text \<open>An abort closes the connection, keeps the error and sends nothing but resets.\<close>

definition aborted :: "'p tcp_world \<Rightarrow> 'p tcp_world \<Rightarrow> bool" where
  "aborted w w' \<longleftrightarrow> torn_down w' \<and> emitted w' = emitted w \<and> sk_app_closed w' = sk_app_closed w"

lemma abort_aborted: "aborted w (tcp_abort_stream env w e r)"
proof -
  note f = abort_fields [where env = env and w = w and e = e and r = r]
  have "emitted (tcp_abort_stream env w e r) = emitted w"
    by (simp add: tcp_abort_stream_def Let_def tcp_try_send_abort_reset_def)
  moreover have "sk_app_closed (tcp_abort_stream env w e r) = sk_app_closed w"
    by (simp add: tcp_abort_stream_def Let_def tcp_try_send_abort_reset_def more_fields(6) [OF drain_send_more]
        more_fields(6) [OF drain_recv_fields(11)])
  ultimately show ?thesis using f by (simp add: aborted_def torn_down_def queued_def current_bytes_def)
qed

lemma aborted_trans: "io_w w' = io_w w \<Longrightarrow> aborted w' w'' \<Longrightarrow> aborted w w''"
  by (simp add: aborted_def io_w_def)

subsection \<open>Control segments\<close>

definition frag_same :: "tcp_fragment \<Rightarrow> tcp_fragment \<Rightarrow> bool" where
  "frag_same f g \<longleftrightarrow> frag_payload g = frag_payload f \<and> frag_sent_seq g = frag_sent_seq f \<and> frag_tcp_flags g = frag_tcp_flags f"

lemma append_keeps: "tcp_options_append f bs = Some g \<Longrightarrow> frag_same f g"
  by (auto simp: tcp_options_append_def Let_def frag_same_def split: if_splits)

lemma emit_sack_keeps: "tcp_options_emit_sack tp f = (Some g, tp') \<Longrightarrow> frag_same f g"
proof -
  have "frag_same f g" if "(if bs = [] then (Some f, tp1) else (tcp_options_append f (sack_option bs), tp1)) = (Some g, tp')" for bs tp1
    using that append_keeps by (auto simp: frag_same_def split: if_splits)
  moreover assume "tcp_options_emit_sack tp f = (Some g, tp')"
  ultimately show ?thesis unfolding tcp_options_emit_sack_def Let_def
    by (simp add: frag_same_def split: if_splits prod.splits)
qed

lemma established_keeps:
  assumes "tcp_options_apply_established tp f n = (Some g, tp')"
  shows "frag_same f g"
proof -
  let ?f = "f\<lparr>frag_options := replicate 40 0, frag_opt_len := 0\<rparr>"
  obtain m tp1 where t: "(if timestamps_ok tp then tcp_options_ts_now tp n else (n, tp)) = (m, tp1)" by fastforce
  obtain f1 where f1: "(if timestamps_ok tp1 then tcp_options_emit_timestamp ?f m (ts_recent tp1) else Some ?f) = Some f1"
      "(case tcp_options_emit_sack tp1 f1 of (None, tp) \<Rightarrow> (None, tp) | (Some f, tp) \<Rightarrow> (Some (tcp_options_finish f), tp)) = (Some g, tp')"
    using assms unfolding tcp_options_apply_established_def Let_def t by (simp split: option.splits)
  obtain f2 where f2: "tcp_options_emit_sack tp1 f1 = (Some f2, tp')" "g = tcp_options_finish f2"
    using f1(2) by (auto split: prod.splits option.splits)
  have "frag_same ?f f1" using f1(1) append_keeps by (auto simp: tcp_options_emit_timestamp_def frag_same_def split: if_splits)
  then show ?thesis using emit_sack_keeps [OF f2(1)] by (simp add: f2(2) frag_same_def tcp_options_finish_def)
qed

text \<open>\<open>f\<close> carries no data, has these flags and this number.\<close>

definition control :: "u8 \<Rightarrow> u32 \<Rightarrow> tcp_fragment \<Rightarrow> bool" where
  "control flags seq f \<longleftrightarrow> frag_payload f = [] \<and> frag_sent_seq f = seq \<and> frag_tcp_flags f = flags"

lemma make_fragment_ok:
  assumes "tcp_make_fragment env w flags seq ack = (fo, w')"
  shows "io_w w' = io_w w \<and> (\<forall>f. fo = Some f \<longrightarrow> control flags seq f)"
proof -
  obtain ao w1 where a: "tcp_fragment_alloc env w = (ao, w1)" by fastforce
  have 1: "io_w w1 = io_w w" "\<And>f. ao = Some f \<Longrightarrow> frag_payload f = []"
    using a by (auto simp: tcp_fragment_alloc_def io_w_def tcp_fragment_zero_def split: prod.splits if_splits)
  show ?thesis
  proof (cases ao)
    case None
    then show ?thesis using assms 1(1) by (simp add: tcp_make_fragment_def a)
  next
    case (Some h)
    define g where "g = h\<lparr>frag_src_port := sk_local_port w1, frag_dst_port := remote_port (w_tp w1),
       frag_sent_seq := seq, frag_recv_ack := ack, frag_tcp_flags := flags,
       frag_data_off := 80, frag_rx_win := tcp_wire_rcv_wnd (w_tp w1) flags\<rparr>"
    obtain r tp where e: "tcp_options_apply_established (w_tp w1) g (env_ms env) = (r, tp)" by fastforce
    have g: "control flags seq g" using 1(2) [OF Some] by (simp add: control_def g_def)
    have "io_view tp = io_view (w_tp w1)" using apply_established_io [of "w_tp w1" g "env_ms env"] e by simp
    then have tp: "io_w (w1\<lparr>w_tp := tp\<rparr>) = io_w w" using 1(1) by (simp add: io_w_def)
    have r: "control flags seq f" if "r = Some f" for f
      using established_keeps [of "w_tp w1" g "env_ms env" f tp] e that g by (simp add: control_def frag_same_def)
    have "(fo, w') = (if flags AND RTE_TCP_SYN_FLAG = 0 then (case (r, tp) of (Some f, tp) \<Rightarrow> (Some f, w1\<lparr>w_tp := tp\<rparr>)
        | (None, tp) \<Rightarrow> (Some g, w1\<lparr>w_tp := tp\<rparr>)) else (Some g, w1))"
      using assms unfolding tcp_make_fragment_def a Some prod.case option.case Let_def g_def [symmetric] e by simp
    then show ?thesis using tp r g 1(1) by (cases r) (auto split: if_splits)
  qed
qed

lemma enqueue_ok:
  assumes "tcp_enqueue_fragment env w fo = (ok, w')"
  shows "if ok then \<exists>f. fo = Some f \<and> io_w w' = io_w (upd_tp (\<lambda>tp. tp\<lparr>tx_queue := tx_queue tp @ [f]\<rparr>) w)
    else io_w w' = io_w w"
proof (cases fo)
  case (Some f)
  then show ?thesis using assms
    by (cases "RING_SIZE \<le> length (tx_queue (w_tp w))")
      (auto simp: tcp_enqueue_fragment_def nsock_tcp_tx_enqueue_def tcp_fragment_free_def io_w_def)
qed (use assms in \<open>simp add: tcp_enqueue_fragment_def\<close>)

text \<open>Making a control segment and queueing it appends at most that segment to the queue.\<close>

lemma queue_control:
  assumes "tcp_make_fragment env w flags seq ack = (fo, w1)" "tcp_enqueue_fragment env w1 fo = (ok, w')"
  shows "if ok then \<exists>f. control flags seq f \<and> io_w w' = io_w (upd_tp (\<lambda>tp. tp\<lparr>tx_queue := tx_queue tp @ [f]\<rparr>) w)
    else io_w w' = io_w w"
proof -
  have m: "io_w w1 = io_w w" "\<And>f. fo = Some f \<Longrightarrow> control flags seq f" using make_fragment_ok [OF assms(1)] by auto
  have "io_w (upd_tp (\<lambda>tp. tp\<lparr>tx_queue := tx_queue tp @ [f]\<rparr>) w1) = io_w (upd_tp (\<lambda>tp. tp\<lparr>tx_queue := tx_queue tp @ [f]\<rparr>) w)" for f
    using m(1) by (simp add: io_w_def io_view_def)
  then show ?thesis using enqueue_ok [OF assms(2)] m by (cases ok) auto
qed

subsection \<open>The send buffer under acknowledgement\<close>

lemma remove_loop_unacked: "remove_loop mp m sb cs len = (sb', m') \<Longrightarrow> sb_unacked sb' = sb_unacked sb"
proof (induction mp m sb cs len rule: remove_loop.induct)
  case (2 mp memory sb c cs len)
  then show ?case by (auto simp: Let_def split: if_splits)
qed auto

lemma remove_unacked:
  assumes "tcp_sndbuf_remove mp m sb len = (sb', m')" "len \<le> sb_len sb" "len \<le> sb_unacked sb"
  shows "sb_unacked sb' = sb_unacked sb - len"
proof (cases "len = 0")
  case True
  then show ?thesis using assms(1) by (simp add: tcp_sndbuf_remove_def)
next
  case False
  have 1: "(if len > sb_len sb then sb_len sb else len) = len" using assms(2) by auto
  have 2: "(if len < sb_unacked sb then len else sb_unacked sb) = len" using assms(3) by auto
  show ?thesis
    using assms(1) False unfolding tcp_sndbuf_remove_def Let_def 1 2 by (auto dest: remove_loop_unacked)
qed

lemma peek_found:
  assumes "sndbuf_ok sb" "tcp_sndbuf_peek sb seq = Some bs"
  shows "\<exists>k < length (sndbuf_bytes sb). seq = sb_head_seq sb + of_nat k \<and> bs = take (length bs) (drop k (sndbuf_bytes sb)) \<and>
     k + length bs \<le> length (sndbuf_bytes sb)"
proof -
  let ?h = "sb_head_seq sb" and ?k = "unat (seq - sb_head_seq sb)"
  have ok: "chunks_ok ?h (sb_chunks sb)" "unat (sb_len sb) = length (sndbuf_bytes sb)" "unat (sb_len sb) < HALF"
    using assms(1) by (auto simp: sndbuf_ok_def)
  have lt: "\<not> tcp_seq_lt seq ?h" "tcp_seq_lt seq (?h + sb_len sb)" and pl: "peek_loop (sb_chunks sb) (seq - ?h) = Some bs"
    using assms(2) by (auto simp: tcp_sndbuf_peek_def split: if_splits)
  have half: "?k < HALF" using lt(1) by (simp add: tcp_seq_lt_def sint_neg_iff)
  have e: "seq_off ?h (?h + sb_len sb) = unat (sb_len sb)" by (simp add: seq_off_def)
  have "tcp_seq_lt seq (?h + sb_len sb) \<longleftrightarrow> ?k < unat (sb_len sb)"
    using tcp_sq.lt_window [of ?h seq "?h + sb_len sb"] half e ok(3) by (simp add: in_half_def seq_off_def)
  then have k: "?k < length (sndbuf_bytes sb)" using lt(2) ok(2) by simp
  obtain rest where r: "drop ?k (sndbuf_bytes sb) = bs @ rest"
    using peek_loop_ok [OF ok(1), of "seq - ?h"] pl k ok(2,3) by (auto simp: sndbuf_bytes_def)
  then have "bs = take (length bs) (drop ?k (sndbuf_bytes sb))" by simp
  moreover have "?k + length bs \<le> length (sndbuf_bytes sb)"
    using r k by (metis append_eq_conv_conj length_append length_drop le_add1 le_diff_conv2 less_imp_le_nat add.commute)
  ultimately show ?thesis using k by (intro exI [of _ ?k]) (simp add: add.commute)
qed

subsection \<open>The invariant of the sender\<close>

text \<open>
  \<open>A\<close> is what the application handed over since the connection was established and \<open>b\<close> the sequence
  number of its first byte.  \<open>q\<close> bytes are acknowledged and \<open>n\<close> are sent; \<open>fin\<close> and \<open>ufin\<close> say that our
  FIN has a number, and that it is acknowledged.
\<close>

definition tx_core :: "byte list \<Rightarrow> u32 \<Rightarrow> nat \<Rightarrow> nat \<Rightarrow> bool \<Rightarrow> bool \<Rightarrow> tcp_stream \<Rightarrow> bool" where
  "tx_core A b q n fin ufin tp \<longleftrightarrow>
     sndbuf_ok (sndbuf tp) \<and> sndbuf_bytes (sndbuf tp) = drop q A \<and> q \<le> n \<and> n \<le> length A \<and>
     sb_head_seq (sndbuf tp) = b + of_nat q \<and> sb_unacked (sndbuf tp) = of_nat (n - q) \<and> length A - q \<le> 65536 \<and>
     sent_seq tp = b + of_nat n + (if fin then 1 else 0) \<and> snd_una tp = b + of_nat q + (if ufin then 1 else 0) \<and>
     (fin \<longrightarrow> n = length A) \<and> (ufin \<longrightarrow> fin \<and> q = length A)"

text \<open>A control segment; its FIN, if any, has the number after the last byte.\<close>

definition ctl_ok :: "byte list \<Rightarrow> u32 \<Rightarrow> bool \<Rightarrow> tcp_fragment \<Rightarrow> bool" where
  "ctl_ok A b fin f \<longleftrightarrow> frag_payload f = [] \<and>
     (frag_tcp_flags f AND RTE_TCP_FIN_FLAG \<noteq> 0 \<longrightarrow> fin \<and> frag_sent_seq f = b + of_nat (length A))"

text \<open>A data segment: bytes of the stream at their own position.\<close>

definition data_ok :: "byte list \<Rightarrow> u32 \<Rightarrow> tcp_fragment \<Rightarrow> bool" where
  "data_ok A b f \<longleftrightarrow> frag_tcp_flags f AND RTE_TCP_FIN_FLAG = 0 \<and> length (frag_payload f) < 65536 \<and>
     (\<exists>k. k + length (frag_payload f) \<le> length A \<and> frag_sent_seq f = b + of_nat k \<and>
          frag_payload f = take (length (frag_payload f)) (drop k A))"

text \<open>Once the FIN waits or has a number, the application can send no more; it never does both.\<close>

definition fin_legal :: "bool \<Rightarrow> tcp_stream \<Rightarrow> bool" where
  "fin_legal fin tp \<longleftrightarrow> (fin \<or> fin_deferred tp \<longrightarrow> status tp \<notin> {TCP_STATUS_ESTABLISHED, TCP_STATUS_CLOSE_WAIT}) \<and>
     \<not> (fin \<and> fin_deferred tp)"

definition tx_live :: "byte list \<Rightarrow> u32 \<Rightarrow> 'p tcp_world \<Rightarrow> bool" where
  "tx_live A b w \<longleftrightarrow> (\<exists>q n fin ufin. tx_core A b q n fin ufin (w_tp w) \<and>
     (\<forall>f \<in> set (tx_queue (w_tp w)). ctl_ok A b fin f) \<and> (\<forall>f \<in> emitted w. ctl_ok A b fin f \<or> data_ok A b f) \<and>
     fin_legal fin (w_tp w))"

lemma tx_core_cong:
  "sndbuf tp' = sndbuf tp \<Longrightarrow> sent_seq tp' = sent_seq tp \<Longrightarrow> snd_una tp' = snd_una tp \<Longrightarrow>
   tx_core A b q n fin ufin tp' \<longleftrightarrow> tx_core A b q n fin ufin tp"
  by (simp add: tx_core_def)

lemma tx_live_io:
  assumes "io_w w' = io_w w"
  shows "tx_live A b w' \<longleftrightarrow> tx_live A b w"
  using io_viewD [OF io_wD(1) [OF assms]] io_wD(2) [OF assms] tx_core_cong [of "w_tp w'" "w_tp w"]
  by (simp add: tx_live_def fin_legal_def)

text \<open>An acknowledgement between \<open>snd_una\<close> and \<open>sent_seq\<close> names a position of the stream, or the FIN.\<close>

lemma seq_gt_pos: "0 < unat (x - y) \<Longrightarrow> unat (x - y) < HALF \<Longrightarrow> tcp_seq_gt x y"
proof -
  assume "0 < unat (x - y)" "unat (x - y) < HALF"
  then have "0 < int (unat (x - y))" "sint (x - y) = int (unat (x - y))" by (simp_all only: sint_u32 if_True of_nat_0_less_iff)
  then show ?thesis by (simp add: tcp_seq_gt_def)
qed

lemma ack_in_range:
  assumes "tx_core A b q n fin ufin tp" "\<not> tcp_seq_lt ack (snd_una tp)" "\<not> tcp_seq_gt ack (sent_seq tp)"
  shows "\<exists>d. ack = snd_una tp + of_nat d \<and> unat (ack - snd_una tp) = d \<and>
    d + q + (if ufin then 1 else 0) \<le> n + (if fin then 1 else 0)"
proof -
  define s where "s = n + (if fin then 1 else 0)"
  define u where "u = q + (if ufin then 1 else 0)"
  define d where "d = unat (ack - snd_una tp)"
  have m: "u \<le> s" "s - u \<le> 65537" using assms(1) by (auto simp: tx_core_def s_def u_def)
  have "sent_seq tp = b + of_nat s" "snd_una tp = b + of_nat u" using assms(1) by (auto simp: tx_core_def s_def u_def)
  then have "sent_seq tp - snd_una tp = of_nat (s - u)" using m(1) by (simp add: of_nat_diff)
  then have ds: "ack - sent_seq tp = of_nat d - of_nat (s - u)" by (simp add: d_def diff_add_eq algebra_simps)
  have half: "d < HALF" using assms(2) by (simp add: tcp_seq_lt_def sint_neg_iff d_def)
  have "\<not> s - u < d"
  proof
    assume lt: "s - u < d"
    then have "ack - sent_seq tp = of_nat (d - (s - u))" using ds by (simp only: of_nat_diff less_imp_le)
    then have "unat (ack - sent_seq tp) = d - (s - u)" using half by (simp add: unat_of_nat del: of_nat_diff)
    then show False using assms(3) seq_gt_pos [of ack "sent_seq tp"] lt half by simp
  qed
  then show ?thesis using m by (intro exI [of _ d]) (simp add: d_def s_def u_def)
qed

text \<open>Taking the acknowledged bytes off the buffer.\<close>

lemma core_acked:
  assumes "tx_core A b q n fin ufin tp" "\<not> tcp_seq_lt ack (snd_una tp)" "\<not> tcp_seq_gt ack (sent_seq tp)" "ack \<noteq> snd_una tp"
    and "acked = (if ack - snd_una tp > sb_len (sndbuf tp) then sb_len (sndbuf tp) else ack - snd_una tp)"
    and "tcp_sndbuf_remove mp memory (sndbuf tp) acked = (sb, memory')"
  shows "\<exists>ufin'. tx_core A b (q + unat acked) n fin ufin' (tp\<lparr>sndbuf := sb, snd_una := ack\<rparr>)"
proof -
  note c = assms(1) [unfolded tx_core_def]
  obtain d where d: "ack = snd_una tp + of_nat d" "unat (ack - snd_una tp) = d"
      "d + q + (if ufin then 1 else 0) \<le> n + (if fin then 1 else 0)"
    using ack_in_range [OF assms(1-3)] by blast
  define q' where "q' = q + unat acked"
  have len: "unat (sb_len (sndbuf tp)) = length A - q" using c by (simp add: sndbuf_ok_def)
  have ua: "unat acked = min d (length A - q)" using d(2) len by (auto simp: assms(5) word_less_nat_alt)
  have uf: "\<not> ufin" using assms(4) d c by auto
  have an: "unat acked \<le> n - q" using ua d(3) c uf by (auto split: if_splits)
  have "n - q < 4294967296" using c by auto
  then have nq: "unat (of_nat (n - q) :: u32) = n - q" by (simp add: unat_of_nat del: of_nat_diff)
  have ok: "sndbuf_ok sb" "sndbuf_bytes sb = drop q' A" "sb_head_seq sb = b + of_nat q'"
    using remove_ok [OF _ assms(6)] c ua by (simp_all add: q'_def add.commute)
  have "(of_nat (n - q) :: u32) - acked = of_nat (n - q) - of_nat (unat acked)" by simp
  also have "\<dots> = of_nat (n - q - unat acked)" using an by (simp only: of_nat_diff)
  finally have un: "sb_unacked sb = of_nat (n - q')"
    using remove_unacked [OF assms(6)] c an ua len nq by (simp add: word_le_nat_alt q'_def del: of_nat_diff)
  have "d \<noteq> unat acked \<Longrightarrow> fin \<and> q' = length A \<and> d = unat acked + 1"
    using ua d(3) uf c by (auto simp: q'_def split: if_splits)
  moreover from this have "ack = b + of_nat q' + (if d \<noteq> unat acked then 1 else 0)"
    using d(1) c uf by (auto simp: q'_def)
  moreover have "q' \<le> n" "length A - q' \<le> 65536" using an c by (auto simp: q'_def)
  ultimately have "tx_core A b q' n fin (d \<noteq> unat acked) (tp\<lparr>sndbuf := sb, snd_una := ack\<rparr>)"
    using ok un c by (simp add: tx_core_def del: of_nat_diff)
  then show ?thesis unfolding q'_def by blast
qed

text \<open>Acknowledgements change the send buffer and \<open>snd_una\<close>, and nothing else the two users see.\<close>

definition acked_only :: "'p tcp_world \<Rightarrow> 'p tcp_world \<Rightarrow> bool" where
  "acked_only w w' \<longleftrightarrow> (\<exists>sb una. io_view (w_tp w') = io_view ((w_tp w)\<lparr>sndbuf := sb, snd_una := una\<rparr>)) \<and>
     emitted w' = emitted w \<and> sk_terminal_error w' = sk_terminal_error w \<and> sk_app_closed w' = sk_app_closed w"

lemma acked_only_refl: "io_w w' = io_w w \<Longrightarrow> acked_only w w'"
proof -
  assume "io_w w' = io_w w"
  moreover have "io_view (w_tp w) = io_view ((w_tp w)\<lparr>sndbuf := sndbuf (w_tp w), snd_una := snd_una (w_tp w)\<rparr>)" by simp
  ultimately show ?thesis unfolding acked_only_def io_w_def by (metis prod.inject)
qed

lemma acked_only_io: "acked_only w w1 \<Longrightarrow> io_w w2 = io_w w1 \<Longrightarrow> acked_only w w2"
  by (simp add: acked_only_def io_w_def)

lemma acked_only_pre: "io_w w1 = io_w w \<Longrightarrow> acked_only w1 w2 \<Longrightarrow> acked_only w w2"
  by (auto simp: acked_only_def io_w_def io_view_def)

lemma acked_onlyD:
  assumes "acked_only w w'"
  shows "rx_same (w_tp w) (w_tp w')" "status (w_tp w') = status (w_tp w)" "tx_queue (w_tp w') = tx_queue (w_tp w)"
    "sent_seq (w_tp w') = sent_seq (w_tp w)" "emitted w' = emitted w" "sk_terminal_error w' = sk_terminal_error w"
    "sk_app_closed w' = sk_app_closed w" "fin_deferred (w_tp w') = fin_deferred (w_tp w)"
  using assms by (auto simp: acked_only_def io_view_def rx_same_def queue_same_def)

lemma ack_advance_ok:
  assumes "ack_advance env w ack = (cx, w')"
  shows "acked_only w w'"
    and "tx_core A b q n fin ufin (w_tp w) \<Longrightarrow> \<not> tcp_seq_lt ack (snd_una (w_tp w)) \<Longrightarrow> \<not> tcp_seq_gt ack (sent_seq (w_tp w)) \<Longrightarrow>
      \<exists>q' ufin'. q' = q + unat (ax_acked cx) \<and> tx_core A b q' n fin ufin' (w_tp w')"
proof -
  let ?tp = "w_tp w"
  define acked where "acked = (if ack - snd_una ?tp > sb_len (sndbuf ?tp) then sb_len (sndbuf ?tp) else ack - snd_una ?tp)"
  obtain sb memory where r: "tcp_sndbuf_remove (env_mp env) (w_mem w) (sndbuf ?tp) acked = (sb, memory)" by fastforce
  define tp1 where "tp1 = ?tp\<lparr>sndbuf := sb, snd_una := ack\<rparr>"
  obtain s tp2 where rt: "tcp_rtt_on_ack (env_ms env) tp1 ack (rx_timestamp_present ?tp) (rx_tsecr ?tp) = (s, tp2)" by fastforce
  have io: "io_view tp2 = io_view tp1" using rtt_ops_io(3) [of "env_ms env" tp1 ack "rx_timestamp_present ?tp" "rx_tsecr ?tp"] rt by simp
  have w': "w' = w\<lparr>w_tp := tp2, w_mem := memory\<rparr> \<and> ax_acked cx = acked" if "ack \<noteq> snd_una ?tp"
    using assms that unfolding ack_advance_def Let_def acked_def [symmetric] r by (auto simp: tp1_def [symmetric] rt)
  have w: "w' = w \<and> ax_acked cx = 0" if "ack = snd_una ?tp" using assms that by (auto simp: ack_advance_def Let_def)
  show "acked_only w w'"
  proof (cases "ack = snd_una ?tp")
    case False
    then show ?thesis using w' io by (auto simp: acked_only_def tp1_def)
  qed (use w acked_only_refl in auto)
  assume c: "tx_core A b q n fin ufin ?tp" "\<not> tcp_seq_lt ack (snd_una ?tp)" "\<not> tcp_seq_gt ack (sent_seq ?tp)"
  show "\<exists>q' ufin'. q' = q + unat (ax_acked cx) \<and> tx_core A b q' n fin ufin' (w_tp w')"
  proof (cases "ack = snd_una ?tp")
    case True
    then show ?thesis using w c(1) by auto
  next
    case False
    show ?thesis
      using core_acked [OF c False acked_def r] w' [OF False] tx_core_cong [of tp2 tp1] io_viewD [OF io] by (simp add: tp1_def)
  qed
qed

lemma ack_timer_ok:
  assumes "ack_timer env cx w = (ok, w')"
  shows "if ok then io_w w' = io_w w else aborted w w'"
proof (cases "ax_progressed cx \<and> snd_una (w_tp w) \<noteq> sent_seq (w_tp w)")
  case True
  let ?w = "upd_tp (\<lambda>tp. tp\<lparr>retries := 0\<rparr>) w"
  have i: "io_w ?w = io_w w" by (simp add: io_w_def io_view_def)
  obtain k w1 where a: "tcp_arm_data_rto env ?w (ucast (rto_ms (w_tp w))) = (k, w1)" by fastforce
  have "io_w w1 = io_w w" using arm_io(1) [of env ?w] a i by (metis snd_conv)
  then have "aborted w (tcp_abort_stream env w1 ENOBUFS True)" by (rule aborted_trans [OF _ abort_aborted])
  then show ?thesis using assms True a \<open>io_w w1 = io_w w\<close> by (cases k) (auto simp: ack_timer_def)
next
  case False
  then show ?thesis using assms by (auto simp: ack_timer_def Let_def io_w_def io_same split: if_splits)
qed

lemma ack_notify_io: "io_w (ack_notify cx w a n) = io_w w"
  by (simp add: ack_notify_def Let_def io_w_def)

text \<open>
  The whole call: an acknowledgement out of range is ignored; any other one advances the buffer and,
  unless the timer cannot be armed, does nothing more that the two users see.
\<close>

lemma process_ack_cases:
  assumes "tcp_process_peer_ack_ex env w ack dup aw sq wn sc = (alive, w')"
  obtains (ignored) "tcp_seq_lt ack (snd_una (w_tp w)) \<or> tcp_seq_gt ack (sent_seq (w_tp w))" "alive" "w' = w"
  | (advanced) w1 cx w2 where "\<not> tcp_seq_lt ack (snd_una (w_tp w))" "\<not> tcp_seq_gt ack (sent_seq (w_tp w))" "io_w w1 = io_w w"
      "ack_advance env w1 ack = (cx, w2)" "if alive then io_w w' = io_w w2 else aborted w2 w'"
proof (cases "tcp_seq_lt ack (snd_una (w_tp w)) \<or> tcp_seq_gt ack (sent_seq (w_tp w))")
  case True
  then show ?thesis using assms by (intro ignored) (auto simp: tcp_process_peer_ack_ex_def)
next
  case False
  obtain wa wt tp1 where u: "(if aw then tcp_update_snd_wnd_local (w_tp w) sq ack wn sc else (False, False, w_tp w)) = (wa, wt, tp1)"
    by (metis prod_cases3)
  define w1 where "w1 = w\<lparr>w_tp := tp1\<rparr>"
  obtain cx w2 where ad: "ack_advance env w1 ack = (cx, w2)" by fastforce
  obtain res x y tp3 where sk: "ack_sack env cx (w_tp w2) ack = (res, x, y, tp3)" by (metis prod_cases4)
  obtain e tp4 where dl: "ack_detect_loss cx tp3 (new_sack_information res) dup = (e, tp4)" by fastforce
  define tp5 where "tp5 = ack_schedule cx tp4 (new_sack_information res)"
  define tp6 where "tp6 = tcp_cc_on_ack tp5 (ack_cc_event env cx tp5 ack res dup e y)"
  define tp7 where "tp7 = (if x then tcp_cc_on_recovery_exit tp6 else tp6)"
  obtain ok w8 where tm: "ack_timer env cx (w2\<lparr>w_tp := tp7\<rparr>) = (ok, w8)" by fastforce
  have run: "(alive, w') = (if ok then (True, ack_notify cx w8 wa wt) else (False, w8))"
    using assms False unfolding tcp_process_peer_ack_ex_def u Let_def prod.case w1_def [symmetric] ad sk dl
      tp5_def [symmetric] tp6_def [symmetric] tp7_def [symmetric] tm by (cases ok) auto
  have "io_view tp1 = io_view (w_tp w)" using u snd_wnd_io by (auto split: if_splits)
  then have w1: "io_w w1 = io_w w" by (simp add: w1_def io_w_def)
  have "io_view tp7 = io_view (w_tp w2)"
    using ack_sack_io [OF sk] detect_loss_io [of cx tp3 "new_sack_information res" dup] dl ack_schedule_io
    by (simp add: tp7_def tp6_def tp5_def io_same)
  then have w7: "io_w (w2\<lparr>w_tp := tp7\<rparr>) = io_w w2" by (simp add: io_w_def)
  have "if ok then io_w w8 = io_w w2 else aborted w2 w8" using ack_timer_ok [OF tm] w7 aborted_trans by (auto split: if_splits)
  then have "if alive then io_w w' = io_w w2 else aborted w2 w'"
    using run ack_notify_io [of cx w8 wa wt] by (auto split: if_splits)
  then show ?thesis using False by (intro advanced [OF _ _ w1 ad]) auto
qed

lemma process_ack_ok:
  assumes "tcp_process_peer_ack_ex env w ack dup aw sq wn sc = (alive, w')"
  shows "if alive then acked_only w w' else aborted w w'"
    and "tx_core A b q n fin ufin (w_tp w) \<Longrightarrow> alive \<Longrightarrow> \<exists>q' ufin'. tx_core A b q' n fin ufin' (w_tp w')"
proof -
  have "(if alive then acked_only w w' else aborted w w') \<and>
    (tx_core A b q n fin ufin (w_tp w) \<longrightarrow> alive \<longrightarrow> (\<exists>q' ufin'. tx_core A b q' n fin ufin' (w_tp w')))"
    using assms
  proof (cases rule: process_ack_cases)
    case ignored
    then show ?thesis using acked_only_refl by auto
  next
    case (advanced w1 cx w2)
    note io = io_viewD [OF io_wD(1) [OF advanced(3)]]
    have ao: "acked_only w w2" using ack_advance_ok(1) [OF advanced(4)] acked_only_pre [OF advanced(3)] by blast
    have 1: "if alive then acked_only w w' else aborted w w'"
      using advanced(5) ao acked_only_io acked_onlyD [OF ao] by (auto simp: aborted_def split: if_splits)
    have "\<exists>q' ufin'. tx_core A b q' n fin ufin' (w_tp w')" if c: "tx_core A b q n fin ufin (w_tp w)" and "alive"
    proof -
      have "tx_core A b q n fin ufin (w_tp w1)" using c tx_core_cong [of "w_tp w1" "w_tp w"] io by simp
      then obtain q' ufin' where "tx_core A b q' n fin ufin' (w_tp w2)"
        using ack_advance_ok(2) [OF advanced(4), of A b q n fin ufin] advanced(1,2) io by auto
      then show ?thesis
        using advanced(5) \<open>alive\<close> tx_core_cong [of "w_tp w'" "w_tp w2"] io_viewD [OF io_wD(1), of w' w2] by auto
    qed
    with 1 show ?thesis by blast
  qed
  then show "if alive then acked_only w w' else aborted w w'"
    and "tx_core A b q n fin ufin (w_tp w) \<Longrightarrow> alive \<Longrightarrow> \<exists>q' ufin'. tx_core A b q' n fin ufin' (w_tp w')" by blast+
qed

subsection \<open>What an acknowledgement releases\<close>

lemma ack_advance_bytes:
  assumes "ack_advance env w ack = (cx, w')" "sndbuf_ok (sndbuf (w_tp w))"
  shows "snd_una (w_tp w') = ack"
    "sndbuf_bytes (sndbuf (w_tp w')) = drop (unat (ack - snd_una (w_tp w))) (sndbuf_bytes (sndbuf (w_tp w)))"
proof -
  let ?tp = "w_tp w"
  define acked where "acked = (if ack - snd_una ?tp > sb_len (sndbuf ?tp) then sb_len (sndbuf ?tp) else ack - snd_una ?tp)"
  obtain sb memory where r: "tcp_sndbuf_remove (env_mp env) (w_mem w) (sndbuf ?tp) acked = (sb, memory)" by fastforce
  define tp1 where "tp1 = ?tp\<lparr>sndbuf := sb, snd_una := ack\<rparr>"
  obtain s tp2 where rt: "tcp_rtt_on_ack (env_ms env) tp1 ack (rx_timestamp_present ?tp) (rx_tsecr ?tp) = (s, tp2)" by fastforce
  have io: "io_view tp2 = io_view tp1" using rtt_ops_io(3) [of "env_ms env" tp1 ack "rx_timestamp_present ?tp" "rx_tsecr ?tp"] rt by simp
  have len: "unat (sb_len (sndbuf ?tp)) = length (sndbuf_bytes (sndbuf ?tp))" using assms(2) by (simp add: sndbuf_ok_def)
  have "snd_una (w_tp w') = ack \<and> sndbuf_bytes (sndbuf (w_tp w')) = drop (unat (ack - snd_una ?tp)) (sndbuf_bytes (sndbuf ?tp))"
  proof (cases "ack = snd_una ?tp")
    case True
    then show ?thesis using assms(1) by (auto simp: ack_advance_def Let_def)
  next
    case False
    then have "w_tp w' = tp2"
      using assms(1) unfolding ack_advance_def Let_def acked_def [symmetric] r by (auto simp: tp1_def [symmetric] rt)
    moreover have "acked \<le> sb_len (sndbuf ?tp)" by (auto simp: acked_def)
    then have "sndbuf_bytes sb = drop (unat acked) (sndbuf_bytes (sndbuf ?tp))"
      using remove_ok [OF assms(2) r] by (simp add: word_le_nat_alt len)
    moreover have "drop (unat acked) (sndbuf_bytes (sndbuf ?tp)) = drop (unat (ack - snd_una ?tp)) (sndbuf_bytes (sndbuf ?tp))"
      using len by (auto simp: acked_def word_less_nat_alt)
    ultimately show ?thesis using io_viewD(2,3) [OF io] by (simp add: tp1_def)
  qed
  then show "snd_una (w_tp w') = ack"
    "sndbuf_bytes (sndbuf (w_tp w')) = drop (unat (ack - snd_una (w_tp w))) (sndbuf_bytes (sndbuf (w_tp w)))" by auto
qed

text \<open>
  Claim C0.  Acknowledgements.  An acknowledgement older than \<^verbatim>\<open>snd_una\<close> or beyond \<^verbatim>\<open>sent_seq\<close>, as the signed
  comparison of sequence numbers sees it, leaves the connection exactly as it was.  Any other one, when
  the call reports the socket alive, moves \<^verbatim>\<open>snd_una\<close> to it and takes off the send buffer exactly the
  bytes it covers, through window updates, SACK processing, loss detection, congestion control and the
  retransmission timer; what was sent, the control queue, the state, the receive side and the
  application's view of errors do not change.
\<close>

theorem ack_releases_exactly_acknowledged:
  assumes "tcp_process_peer_ack_ex env w ack dup aw sq wn sc = (True, w')" "sndbuf_ok (sndbuf (w_tp w))"
  shows "if tcp_seq_lt ack (snd_una (w_tp w)) \<or> tcp_seq_gt ack (sent_seq (w_tp w)) then w' = w
    else snd_una (w_tp w') = ack \<and>
      sndbuf_bytes (sndbuf (w_tp w')) = drop (unat (ack - snd_una (w_tp w))) (sndbuf_bytes (sndbuf (w_tp w))) \<and>
      sent_seq (w_tp w') = sent_seq (w_tp w) \<and> tx_queue (w_tp w') = tx_queue (w_tp w) \<and> status (w_tp w') = status (w_tp w) \<and>
      rx_same (w_tp w) (w_tp w') \<and> emitted w' = emitted w \<and> sk_terminal_error w' = sk_terminal_error w"
  using assms(1)
proof (cases rule: process_ack_cases)
  case (advanced w1 cx w2)
  note io = io_viewD [OF io_wD(1) [OF advanced(3)]]
  have i: "io_w w' = io_w w2" using advanced(5) by simp
  have "acked_only w w'" using process_ack_ok(1) [OF assms(1)] by simp
  from acked_onlyD [OF this] show ?thesis
    using ack_advance_bytes [OF advanced(4)] assms(2) io advanced(1,2) io_viewD(2,3) [OF io_wD(1) [OF i]] by simp
qed simp

theorem ack_releases_exactly_acknowledged_witness:
  "snd_una (w_tp (snd (tcp_process_peer_ack_ex sample_env
     (sample_world (tcp_cc_init_default (tcp_stream_zero\<lparr>status := TCP_STATUS_ESTABLISHED, sent_seq := 3, snd_una := 0, snd_mss := 1460,
        sndbuf := \<lparr>sb_chunks = [\<lparr>chunk_seq = 0, chunk_data = [7, 8, 9], chunk_off = 0\<rparr>], sb_len = 3, sb_head_seq = 0, sb_unacked = 3\<rparr>\<rparr>) False))
     2 False False 0 0 0))) = 2"
proof -
  define w :: "u32 tcp_world" where "w = sample_world (tcp_cc_init_default (tcp_stream_zero\<lparr>status := TCP_STATUS_ESTABLISHED, sent_seq := 3, snd_una := 0, snd_mss := 1460,
        sndbuf := \<lparr>sb_chunks = [\<lparr>chunk_seq = 0, chunk_data = [7, 8, 9], chunk_off = 0\<rparr>], sb_len = 3, sb_head_seq = 0, sb_unacked = 3\<rparr>\<rparr>) False)"
  have alive: "fst (tcp_process_peer_ack_ex sample_env w 2 False False 0 0 0)"
    "\<not> (tcp_seq_lt 2 (snd_una (w_tp w)) \<or> tcp_seq_gt 2 (sent_seq (w_tp w)))" unfolding w_def by code_simp+
  have "sndbuf (w_tp w) = \<lparr>sb_chunks = [\<lparr>chunk_seq = 0, chunk_data = [7, 8, 9], chunk_off = 0\<rparr>], sb_len = 3, sb_head_seq = 0, sb_unacked = 3\<rparr>"
    unfolding w_def by (simp add: sample_world_def io_viewD(3) [OF cc_init_io])
  then have ok: "sndbuf_ok (sndbuf (w_tp w))" by (simp add: sndbuf_ok_def sndbuf_bytes_def chunk_bytes_def)
  have "tcp_process_peer_ack_ex sample_env w 2 False False 0 0 0 = (True, snd (tcp_process_peer_ack_ex sample_env w 2 False False 0 0 0))"
    using alive(1) by (simp add: prod_eq_iff)
  from ack_releases_exactly_acknowledged [OF this ok] alive(2) show ?thesis unfolding w_def by simp
qed

end
