(* ===== verification/Tcp_Steps.thy ===== *)
theory Tcp_Steps
  imports Tcp_Sender
begin

text \<open>
  Every handler of a connection preserves the sender's invariant or ends the connection: inbound
  segments in every state, the timer, the application's calls and the flush.
\<close>

subsection \<open>Steps that send nothing but acknowledgements\<close>

definition live_states :: "TCP_STATUS set" where
  "live_states = {TCP_STATUS_ESTABLISHED, TCP_STATUS_CLOSE_WAIT, TCP_STATUS_FIN_WAIT_1, TCP_STATUS_FIN_WAIT_2,
     TCP_STATUS_CLOSING, TCP_STATUS_LAST_ACK, TCP_STATUS_TIME_WAIT}"

text \<open>The moves of the state machine when the peer's FIN is reached.\<close>

definition eof_move :: "TCP_STATUS \<Rightarrow> TCP_STATUS \<Rightarrow> bool" where
  "eof_move s s' \<longleftrightarrow> s' = s \<or> (s, s') \<in> {(TCP_STATUS_ESTABLISHED, TCP_STATUS_CLOSE_WAIT),
     (TCP_STATUS_FIN_WAIT_1, TCP_STATUS_CLOSING), (TCP_STATUS_FIN_WAIT_2, TCP_STATUS_TIME_WAIT)}"

definition quiet :: "'p tcp_world \<Rightarrow> 'p tcp_world \<Rightarrow> bool" where
  "quiet w w' \<longleftrightarrow> sent_seq (w_tp w') = sent_seq (w_tp w) \<and> snd_una (w_tp w') = snd_una (w_tp w) \<and> sndbuf (w_tp w') = sndbuf (w_tp w) \<and>
     fin_deferred (w_tp w') = fin_deferred (w_tp w) \<and>
     (\<exists>cs. tx_queue (w_tp w') = tx_queue (w_tp w) @ cs \<and>
        (\<forall>f \<in> set cs. frag_payload f = [] \<and> frag_tcp_flags f AND RTE_TCP_FIN_FLAG = 0)) \<and>
     emitted w' = emitted w \<and> sk_terminal_error w' = sk_terminal_error w \<and> sk_app_closed w' = sk_app_closed w \<and>
     eof_move (status (w_tp w)) (status (w_tp w'))"

lemma quiet_io: "io_w w' = io_w w \<Longrightarrow> quiet w w'"
  by (auto simp: quiet_def io_w_def io_view_def eof_move_def)

lemma quietD:
  assumes "quiet w w'"
  shows "emitted w' = emitted w" "sk_terminal_error w' = sk_terminal_error w" "sk_app_closed w' = sk_app_closed w"
    "eof_move (status (w_tp w)) (status (w_tp w'))"
  using assms by (simp_all add: quiet_def)

lemma eof_move_trans: "eof_move a b \<Longrightarrow> eof_move b c \<Longrightarrow> eof_move a c"
  by (auto simp: eof_move_def)

lemma quiet_trans: "quiet a b \<Longrightarrow> quiet b c \<Longrightarrow> quiet a c"
  unfolding quiet_def using eof_move_trans by (elim conjE exE) auto

text \<open>A move that closes the connection for good and sends no segment.\<close>

definition ended :: "'p tcp_world \<Rightarrow> 'p tcp_world \<Rightarrow> bool" where
  "ended w w' \<longleftrightarrow> status (w_tp w') = TCP_STATUS_CLOSED \<and> emitted w' = emitted w"

lemma aborted_ended: "aborted w w' \<Longrightarrow> ended w w'"
  by (simp add: aborted_def ended_def torn_down_def)

lemma quiet_live:
  assumes "quiet w w'" "tx_live A b w"
  shows "tx_live A b w'"
proof -
  obtain q n fin ufin where l: "tx_core A b q n fin ufin (w_tp w)" "\<forall>f \<in> set (tx_queue (w_tp w)). ctl_ok A b fin f"
      "\<forall>f \<in> emitted w. ctl_ok A b fin f \<or> data_ok A b f" "fin_legal fin (w_tp w)"
    using assms(2) by (auto simp: tx_live_def)
  have "tx_core A b q n fin ufin (w_tp w')" using l(1) assms(1) tx_core_cong [of "w_tp w'" "w_tp w"] by (simp add: quiet_def)
  moreover have "\<forall>f \<in> set (tx_queue (w_tp w')). ctl_ok A b fin f" using l(2) assms(1) by (auto simp: quiet_def ctl_ok_def)
  moreover have "\<forall>f \<in> emitted w'. ctl_ok A b fin f \<or> data_ok A b f" using l(3) assms(1) by (simp add: quiet_def)
  moreover have "fin_legal fin (w_tp w')"
    using l(4) assms(1) by (auto simp: quiet_def eof_move_def fin_legal_def)
  ultimately show ?thesis unfolding tx_live_def by blast
qed

lemma eof_move_live: "eof_move s s' \<Longrightarrow> s \<in> live_states \<Longrightarrow> s' \<in> live_states"
  by (auto simp: eof_move_def live_states_def)

lemma ack_no_fin: "control RTE_TCP_ACK_FLAG q f \<Longrightarrow> frag_payload f = [] \<and> frag_tcp_flags f AND RTE_TCP_FIN_FLAG = 0"
  by (simp add: control_def)

lemma quiet_ack:
  assumes "tcp_make_fragment env w RTE_TCP_ACK_FLAG q a = (fo, w1)" "tcp_enqueue_fragment env w1 fo = (ok, w')"
  shows "quiet w w'" "rx_same (w_tp w) (w_tp w')" "status (w_tp w') = status (w_tp w)"
proof -
  have "quiet w w' \<and> rx_same (w_tp w) (w_tp w') \<and> status (w_tp w') = status (w_tp w)"
  proof (cases ok)
    case True
    then obtain f where f: "control RTE_TCP_ACK_FLAG q f" "io_w w' = io_w (upd_tp (\<lambda>tp. tp\<lparr>tx_queue := tx_queue tp @ [f]\<rparr>) w)"
      using queue_control [OF assms] by auto
    then show ?thesis
      using ack_no_fin [OF f(1)] by (auto simp: quiet_def io_w_def io_view_def eof_move_def rx_same_def queue_same_def)
  next
    case False
    then have "io_w w' = io_w w" using queue_control [OF assms] by simp
    then show ?thesis using quiet_io io_view_rx_same by (auto simp: io_w_def io_view_def rx_same_def queue_same_def)
  qed
  then show "quiet w w'" "rx_same (w_tp w) (w_tp w')" "status (w_tp w') = status (w_tp w)" by auto
qed

subsection \<open>The receive path\<close>

lemma outer_quiet:
  fixes w w' :: "'p tcp_world"
  assumes "outer w' = outer w"
  shows "quiet w w'"
  using outer_part [OF assms] more_emitted [OF outer_more [OF assms]] more_fields(6,7) [OF outer_more [OF assms]]
  by (auto simp: quiet_def tx_part_def eof_move_def)

lemma time_wait_quiet:
  assumes "tcp_enter_time_wait env w = (ok, w')"
  shows "if ok then quiet (w\<lparr>w_tp := (w_tp w)\<lparr>status := TCP_STATUS_TIME_WAIT\<rparr>\<rparr>) w' else aborted w w'"
proof -
  define w1 where "w1 = upd_tp (\<lambda>tp. tp\<lparr>retries := 0, close_deadline_cycles := 0\<rparr>) (tcp_stream_set_status w TCP_STATUS_TIME_WAIT)"
  let ?w = "w\<lparr>w_tp := (w_tp w)\<lparr>status := TCP_STATUS_TIME_WAIT\<rparr>\<rparr>"
  have i: "io_w w1 = io_w ?w" by (simp add: w1_def io_w_def set_status_tp io_view_def)
  obtain k w2 where a: "owner_timer_arm_after_ms env w1 TCP_2MSL_MS = (k, w2)" by fastforce
  have i2: "io_w w2 = io_w ?w" using arm_io(3) [of env w1 TCP_2MSL_MS] a i by simp
  have "aborted ?w (tcp_abort_stream env w2 ENOBUFS False)" by (rule aborted_trans [OF i2 abort_aborted])
  then have "aborted w (tcp_abort_stream env w2 ENOBUFS False)" by (simp add: aborted_def)
  moreover have "(ok, w') = (if k then (True, w2) else (False, tcp_abort_stream env w2 ENOBUFS False))"
    using assms unfolding tcp_enter_time_wait_def Let_def w1_def [symmetric] a by (cases k) auto
  ultimately show ?thesis using quiet_io [OF i2] by (auto split: if_splits)
qed

lemma apply_eof_quiet:
  assumes "tcp_apply_peer_eof env w = (alive, w')"
  shows "if alive then quiet w w' else aborted w w'"
proof (cases "peer_eof (w_tp w)")
  case False
  then show ?thesis using assms quiet_io by (auto simp: tcp_apply_peer_eof_def)
next
  case True
  have st: "quiet w (tcp_stream_set_status w s)" if "eof_move (status (w_tp w)) s" for s
    using that by (simp add: quiet_def set_status_tp)
  have tw: "if alive then quiet w w' else aborted w w'"
    if "tcp_enter_time_wait env w = (alive, w')" "status (w_tp w) = TCP_STATUS_FIN_WAIT_2"
    using time_wait_quiet [OF that(1)] that(2) by (auto simp: quiet_def eof_move_def split: if_splits)
  show ?thesis
    using assms True st tw quiet_io [of w w] by (cases "status (w_tp w)") (auto simp: tcp_apply_peer_eof_def eof_move_def)
qed

lemma receive_range_quiet:
  assumes "tcp_receive_stream_range env w seq data fin = (alive, w')"
  shows "if alive then quiet w w' else aborted w w'"
proof -
  let ?len = "of_nat (length data) :: u32"
  define w1 where "w1 = upd_tp (\<lambda>tp. tcp_sack_note_duplicate tp seq ?len) w"
  define w2 where "w2 = (if status (w_tp w1) \<in> {TCP_STATUS_CLOSE_WAIT, TCP_STATUS_LAST_ACK, TCP_STATUS_CLOSING, TCP_STATUS_TIME_WAIT}
    then tcp_note_peer_eof w1 else w1)"
  obtain data' fin' where cl: "clip_right (recv_ack (w_tp w) + tcp_rcv_wnd (w_tp w)) seq data fin = (data', fin')" by fastforce
  define w3 where "w3 = (if seq = recv_ack (w_tp w) then receive_in_order env w2 seq data' fin'
     else drain_ofo env (snd (tcp_ofo_insert env w2 seq data' fin')))"
  have "outer w1 = outer w" by (simp add: w1_def upd_tp_def outer_upd(4))
  then have o2: "outer w2 = outer w" by (simp add: w2_def outer_same)
  have o3: "outer w3 = outer w" using o2 by (simp add: w3_def outer_same)
  have q2: "quiet w w2" "quiet w w3" using outer_quiet [OF o2] outer_quiet [OF o3] .
  have qd: "quiet w (if c then tcp_ofo_record_rcv_window_drop w2 seq ?len fin else w2)" for c
    using o2 by (intro outer_quiet) (simp add: outer_same)
  have run: "(alive, w') = (if peer_eof (w_tp w2) then (True, w2)
      else if \<not> tcp_segment_acceptable (w_tp w2) seq (of_nat (length data)) fin then
        (True, if \<not> tcp_seq_lt seq (recv_ack (w_tp w)) then tcp_ofo_record_rcv_window_drop w2 seq ?len fin else w2)
      else tcp_apply_peer_eof env w3)"
    using assms unfolding tcp_receive_stream_range_def Let_def w1_def [symmetric] w2_def [symmetric] cl prod.case w3_def [symmetric] by simp
  have ab: "aborted w3 w' \<Longrightarrow> aborted w w'" using q2(2) by (simp add: aborted_def quiet_def)
  show ?thesis
    using run q2(1) qd apply_eof_quiet [of env w3 alive w'] quiet_trans [OF q2(2)] ab
    by (auto split: if_splits)
qed

text \<open>
  A whole stream segment: it is ignored, or its range is received and an acknowledgement may be
  queued, which touches neither user.
\<close>

lemma receive_segment_cases:
  assumes "tcp_receive_stream_segment env w s = (alive, w')"
  obtains "alive" "w' = w" "in_payload s = [] \<and> \<not> has_flag s RTE_TCP_FIN_FLAG \<or> has_flag s RTE_TCP_SYN_FLAG"
  | w1 where "tcp_receive_stream_range env w (in_seq s) (in_payload s) (has_flag s RTE_TCP_FIN_FLAG) = (alive, w1)"
      "\<not> has_flag s RTE_TCP_SYN_FLAG" "in_payload s \<noteq> [] \<or> has_flag s RTE_TCP_FIN_FLAG"
      "if alive then quiet w1 w' \<and> rx_same (w_tp w1) (w_tp w') \<and> status (w_tp w') = status (w_tp w1) else w' = w1"
proof (cases "in_payload s = [] \<and> \<not> has_flag s RTE_TCP_FIN_FLAG \<or> has_flag s RTE_TCP_SYN_FLAG")
  case True
  then have "(alive, w') = (True, w)"
    using assms unfolding tcp_receive_stream_segment_def Let_def
    by (cases "in_payload s = [] \<and> \<not> has_flag s RTE_TCP_FIN_FLAG") auto
  then show ?thesis using True that(1) by simp
next
  case False
  then have F: "\<not> (in_payload s = [] \<and> \<not> has_flag s RTE_TCP_FIN_FLAG)" "\<not> has_flag s RTE_TCP_SYN_FLAG" by auto
  obtain al w1 where r: "tcp_receive_stream_range env w (in_seq s) (in_payload s) (has_flag s RTE_TCP_FIN_FLAG) = (al, w1)" by fastforce
  define w2 where "w2 = (if recv_ack (w_tp w1) \<noteq> recv_ack (w_tp w)
      then upd_tp (\<lambda>tp. tcp_options_note_receive_progress tp (env_ms env)) w1 else w1)"
  obtain fo wf where mk: "tcp_make_fragment env w2 RTE_TCP_ACK_FLAG (sent_seq (w_tp w2)) (recv_ack (w_tp w2)) = (fo, wf)" by fastforce
  obtain ok we where en: "tcp_enqueue_fragment env wf fo = (ok, we)" by fastforce
  define delay where "delay \<longleftrightarrow> \<not> has_flag s RTE_TCP_FIN_FLAG \<and> in_seq s = recv_ack (w_tp w) \<and> recv_ack (w_tp w2) \<noteq> recv_ack (w_tp w) \<and>
      ofo (w_tp w2) = [] \<and> \<not> dsack_pending (w_tp w2) \<and> \<not> peer_eof (w_tp w2)"
  define w3 where "w3 = (if delay then tcp_mark_tx_dirty (upd_tp (\<lambda>tp. tp\<lparr>ack_pending := True\<rparr>) w2) else we)"
  define w4 where "w4 = (if nsock_tcp_rx_count (w_tp w3) \<noteq> 0 \<or> peer_eof (w_tp w3)
      then log_fx (Fx_ready (if peer_eof (w_tp w3) then OWNER_IO_EV_READ OR OWNER_IO_EV_HUP else OWNER_IO_EV_READ))
             (log_fx Fx_wake_recv w3) else w3)"
  have run: "(alive, w') = (if al then (True, w4) else (False, w1))"
    using assms unfolding tcp_receive_stream_segment_def Let_def if_not_P [OF F(1)] if_not_P [OF F(2)] r prod.case
      w2_def [symmetric] mk en snd_conv delay_def [symmetric] w3_def [symmetric] w4_def [symmetric] by (cases al) auto
  have i2: "io_w w2 = io_w w1" by (simp add: w2_def io_w_def io_same)
  have 2: "quiet w1 w2" "rx_same (w_tp w1) (w_tp w2)" "status (w_tp w2) = status (w_tp w1)"
    using quiet_io [OF i2] io_view_rx_same [OF io_wD(1) [OF i2]] io_viewD [OF io_wD(1) [OF i2]] by auto
  have i3: "io_w (tcp_mark_tx_dirty (upd_tp (\<lambda>tp. tp\<lparr>ack_pending := True\<rparr>) w2)) = io_w w2" by (simp add: io_w_def io_same)
  have 3: "quiet w2 w3" "rx_same (w_tp w2) (w_tp w3)" "status (w_tp w3) = status (w_tp w2)"
    using quiet_ack [OF mk en] quiet_io [OF i3] io_view_rx_same [OF io_wD(1) [OF i3]] by (auto simp: w3_def)
  have 4: "io_w w4 = io_w w3" by (simp add: w4_def io_w_def)
  have "quiet w1 w4" "rx_same (w_tp w1) (w_tp w4)" "status (w_tp w4) = status (w_tp w1)"
    using quiet_trans [OF quiet_trans [OF 2(1) 3(1)] quiet_io [OF 4]] rx_same_trans [OF rx_same_trans [OF 2(2) 3(2)] io_view_rx_same [OF io_wD(1) [OF 4]]]
      2(3) 3(3) io_viewD(6) [OF io_wD(1) [OF 4]] by auto
  then show ?thesis using that(2) [of w1] r run F by (auto split: if_splits)
qed

lemma receive_segment_quiet:
  assumes "tcp_receive_stream_segment env w s = (alive, w')"
  shows "if alive then quiet w w' else aborted w w'"
  using assms
proof (cases rule: receive_segment_cases)
  case 1
  then show ?thesis using quiet_io by auto
next
  case (2 w1)
  then show ?thesis using receive_range_quiet [OF 2(1)] quiet_trans by (auto split: if_splits)
qed

subsection \<open>Segments in every state\<close>

definition tx_ok :: "byte list \<Rightarrow> u32 \<Rightarrow> 'p tcp_world \<Rightarrow> bool" where
  "tx_ok A b w \<longleftrightarrow> tx_live A b w \<and> status (w_tp w) \<in> live_states"

lemma tx_okE:
  assumes "tx_ok A b w"
  obtains q n fin ufin where "tx_core A b q n fin ufin (w_tp w)" "\<forall>f \<in> set (tx_queue (w_tp w)). ctl_ok A b fin f"
    "\<forall>f \<in> emitted w. ctl_ok A b fin f \<or> data_ok A b f" "fin_legal fin (w_tp w)"
    "status (w_tp w) \<in> live_states"
  using assms unfolding tx_ok_def tx_live_def by blast

lemma tx_okI:
  assumes "tx_core A b q n fin ufin (w_tp w)" "\<forall>f \<in> set (tx_queue (w_tp w)). ctl_ok A b fin f"
    "\<forall>f \<in> emitted w. ctl_ok A b fin f \<or> data_ok A b f" "fin_legal fin (w_tp w)"
    "status (w_tp w) \<in> live_states"
  shows "tx_ok A b w"
  using assms unfolding tx_ok_def tx_live_def by blast

text \<open>No segment left, and the invariant holds or the connection is closed.\<close>

definition held :: "byte list \<Rightarrow> u32 \<Rightarrow> 'p tcp_world \<Rightarrow> 'p tcp_world \<Rightarrow> bool" where
  "held A b w w' \<longleftrightarrow> emitted w' = emitted w \<and> (tx_ok A b w' \<or> status (w_tp w') = TCP_STATUS_CLOSED)"

lemma held_refl: "tx_ok A b w \<Longrightarrow> held A b w w"
  by (simp add: held_def)

lemma held_trans: "emitted w1 = emitted w \<Longrightarrow> held A b w1 w2 \<Longrightarrow> held A b w w2"
  by (simp add: held_def)

lemma ended_held: "ended w w' \<Longrightarrow> held A b w w'"
  by (simp add: held_def ended_def)

lemmas aborted_held = ended_held [OF aborted_ended]

lemma quiet_ok: "quiet w w' \<Longrightarrow> tx_ok A b w \<Longrightarrow> tx_ok A b w'"
  using quiet_live quietD(4) eof_move_live unfolding tx_ok_def by blast

lemma quiet_held: "quiet w w' \<Longrightarrow> tx_ok A b w \<Longrightarrow> held A b w w'"
  using quiet_ok quietD(1) unfolding held_def by blast

lemma io_held: "io_w w' = io_w w \<Longrightarrow> tx_ok A b w \<Longrightarrow> held A b w w'"
  by (rule quiet_held [OF quiet_io])

lemma ack_ok:
  assumes "tx_ok A b w" "tcp_process_peer_ack_ex env w ack dup aw sq wn sc = (alive, w')"
  shows "held A b w w'" "alive \<Longrightarrow> tx_ok A b w' \<and> acked_only w w'"
proof -
  note p = process_ack_ok [OF assms(2)]
  have al: "tx_ok A b w' \<and> acked_only w w'" if up: "alive"
  proof -
    have a: "acked_only w w'" using p(1) up by simp
    note f = acked_onlyD [OF a]
    from assms(1) show ?thesis
    proof (rule tx_okE)
      fix q n fin ufin
      assume l: "tx_core A b q n fin ufin (w_tp w)" "\<forall>f \<in> set (tx_queue (w_tp w)). ctl_ok A b fin f"
        "\<forall>f \<in> emitted w. ctl_ok A b fin f \<or> data_ok A b f" "fin_legal fin (w_tp w)"
        "status (w_tp w) \<in> live_states"
      obtain q' ufin' where c: "tx_core A b q' n fin ufin' (w_tp w')" using p(2) [OF l(1) up] by blast
      show ?thesis using tx_okI [OF c] l(2-5) a f by (simp add: fin_legal_def)
    qed
  qed
  then show "alive \<Longrightarrow> tx_ok A b w' \<and> acked_only w w'" .
  show "held A b w w'"
  proof (cases alive)
    case True
    then show ?thesis using al acked_onlyD(5) unfolding held_def by blast
  next
    case False
    then show ?thesis using p(1) by (simp add: aborted_held)
  qed
qed

lemmas ack_plain_ok = ack_ok [where dup = False and aw = False and sq = 0 and wn = 0 and sc = 0, folded tcp_process_peer_ack_def]

lemma segment_ok:
  assumes "tx_ok A b w" "tcp_receive_stream_segment env w s = (alive, w')"
  shows "held A b w w'" "alive \<Longrightarrow> tx_ok A b w' \<and> emitted w' = emitted w"
proof -
  note q = receive_segment_quiet [OF assms(2)]
  show "alive \<Longrightarrow> tx_ok A b w' \<and> emitted w' = emitted w" using q quiet_ok [OF _ assms(1)] quietD(1) [of w w'] by simp
  show "held A b w w'" using q quiet_held [OF _ assms(1)] aborted_held [of w w'] by (cases alive) auto
qed

text \<open>An acknowledgement, then the segment's data.\<close>

lemma ack_then_segment:
  assumes "tx_ok A b w" "(if c then tcp_process_peer_ack_ex env w ack dup aw sq wn sc else (True, w)) = (alive, w1)"
  shows "held A b w (if alive then snd (tcp_receive_stream_segment env w1 s) else w1)"
proof -
  have h: "held A b w w1" "alive \<Longrightarrow> tx_ok A b w1"
    using assms ack_ok [OF assms(1)] held_refl by (auto split: if_splits)
  obtain al w2 where r: "tcp_receive_stream_segment env w1 s = (al, w2)" by fastforce
  have "held A b w w2" if "alive"
    using segment_ok(1) [OF h(2) [OF that] r] held_trans [of w1 w A b w2] h(1) by (simp add: held_def)
  then show ?thesis using h(1) r by simp
qed

lemma set_status_ok:
  assumes "tx_ok A b w" "s \<in> live_states" "s \<notin> {TCP_STATUS_ESTABLISHED, TCP_STATUS_CLOSE_WAIT}"
  shows "tx_ok A b (w\<lparr>w_tp := (w_tp w)\<lparr>status := s\<rparr>\<rparr>)"
  using assms(1)
proof (rule tx_okE)
  fix q n fin ufin
  assume l: "tx_core A b q n fin ufin (w_tp w)" "\<forall>f \<in> set (tx_queue (w_tp w)). ctl_ok A b fin f"
    "\<forall>f \<in> emitted w. ctl_ok A b fin f \<or> data_ok A b f" "fin_legal fin (w_tp w)"
  have "tx_core A b q n fin ufin (w_tp (w\<lparr>w_tp := (w_tp w)\<lparr>status := s\<rparr>\<rparr>))"
    using l(1) tx_core_cong [of "(w_tp w)\<lparr>status := s\<rparr>" "w_tp w"] by simp
  then show ?thesis using l(2-4) assms(2,3) by (intro tx_okI) (auto simp: fin_legal_def)
qed

lemma arm_or_abort_held:
  assumes "tx_ok A b w" "sock_arm_at env w d = (ok, w1)"
  shows "held A b w (if ok then w1 else tcp_abort_stream env w1 e r)" "ok \<Longrightarrow> tx_ok A b w1 \<and> emitted w1 = emitted w"
proof -
  have i: "io_w w1 = io_w w" using arm_at_io [of env w d] assms(2) by simp
  then show "held A b w (if ok then w1 else tcp_abort_stream env w1 e r)"
    using io_held [OF i assms(1)] held_trans [OF io_wD(2) [OF i] aborted_held [OF abort_aborted]] by simp
  show "ok \<Longrightarrow> tx_ok A b w1 \<and> emitted w1 = emitted w"
    using quiet_ok [OF quiet_io [OF i] assms(1)] io_wD(2) [OF i] by auto
qed

lemma time_wait_held:
  assumes "tx_ok A b w"
  shows "held A b w (snd (tcp_enter_time_wait env w))"
proof -
  let ?w = "w\<lparr>w_tp := (w_tp w)\<lparr>status := TCP_STATUS_TIME_WAIT\<rparr>\<rparr>"
  have t: "tx_ok A b ?w" using assms by (rule set_status_ok) (simp_all add: live_states_def)
  obtain ok w' where r: "tcp_enter_time_wait env w = (ok, w')" by fastforce
  have "quiet ?w w' \<Longrightarrow> held A b w w'" using quiet_ok [OF _ t] quietD(1) [of ?w w'] by (simp add: held_def)
  then show ?thesis using time_wait_quiet [OF r] aborted_held r by (auto split: if_splits)
qed

lemma fin_wait_2_held:
  assumes "tx_ok A b w" "enter_fin_wait_2 env w = (ok, w')"
  shows "held A b w w'" "ok \<Longrightarrow> tx_ok A b w'"
proof -
  define w1 where "w1 = tcp_stream_set_status w TCP_STATUS_FIN_WAIT_2"
  define d where "d = deadline_after (env_now env) (owner_timer_ms_to_cycles (env_hz env) TCP_FIN_WAIT_2_TIMEOUT_MS)"
  define w2 where "w2 = (if close_deadline_cycles (w_tp w1) = 0 \<or> d < close_deadline_cycles (w_tp w1)
      then upd_tp (\<lambda>tp. tp\<lparr>close_deadline_cycles := d\<rparr>) w1 else w1)"
  let ?w = "w\<lparr>w_tp := (w_tp w)\<lparr>status := TCP_STATUS_FIN_WAIT_2\<rparr>\<rparr>"
  have t: "tx_ok A b ?w" using assms(1) by (rule set_status_ok) (simp_all add: live_states_def)
  have i: "io_w w2 = io_w ?w" by (simp add: w2_def w1_def io_w_def set_status_tp io_same)
  have t2: "tx_ok A b w2" by (rule quiet_ok [OF quiet_io [OF i] t])
  obtain k w3 where a: "sock_arm_at env w2 (close_deadline_cycles (w_tp w2)) = (k, w3)" by fastforce
  have run: "(ok, w') = (k, if k then w3 else tcp_abort_stream env w3 ENOBUFS True)"
    using assms(2) unfolding enter_fin_wait_2_def Let_def w1_def [symmetric] d_def [symmetric] w2_def [symmetric] a by (cases k) auto
  have e: "emitted w2 = emitted w" using io_wD(2) [OF i] by simp
  show "held A b w w'" "ok \<Longrightarrow> tx_ok A b w'"
    using arm_or_abort_held(1) [OF t2 a, where e = ENOBUFS and r = True] arm_or_abort_held(2) [OF t2 a] run held_trans [OF e] by auto
qed

end
