(* ===== verification/Tcp_Handlers.thy ===== *)
theory Tcp_Handlers
  imports Tcp_Steps
begin

text \<open>
  The handlers of \<^verbatim>\<open>tcp.c\<close> one by one: no segment leaves, and the sender's invariant holds afterwards or
  the connection is closed.
\<close>

subsection \<open>Inbound segments\<close>

lemma established_held:
  assumes "tx_ok A b w"
  shows "held A b w (tcp_state_established env w s)"
proof -
  define sc where "sc = (if wscale_ok (w_tp w) then snd_wscale (w_tp w) else 0)"
  define dup where "dup \<longleftrightarrow> in_payload s = [] \<and> \<not> has_flag s RTE_TCP_FIN_FLAG \<and> \<not> has_flag s RTE_TCP_SYN_FLAG \<and>
      snd_wnd_valid (w_tp w) \<and> push_bit (unat sc) (ucast (in_win s)) = snd_wnd (w_tp w)"
  obtain alive w1 where r: "(if has_flag s RTE_TCP_ACK_FLAG
      then tcp_process_peer_ack_ex env w (in_ack s) dup True (in_seq s) (in_win s) sc else (True, w)) = (alive, w1)" by fastforce
  have "tcp_state_established env w s = (if alive then snd (tcp_receive_stream_segment env w1 s) else w1)"
    unfolding tcp_state_established_def Let_def sc_def [symmetric] dup_def [symmetric] r by simp
  then show ?thesis using ack_then_segment [OF assms r] by simp
qed

lemma ack_then_receive_held:
  assumes "tx_ok A b w"
  shows "held A b w (ack_then_receive env w s)"
proof -
  obtain alive w1 where r: "(if has_flag s RTE_TCP_ACK_FLAG then tcp_process_peer_ack env w (in_ack s) else (True, w)) = (alive, w1)" by fastforce
  show ?thesis
    unfolding ack_then_receive_def r using ack_then_segment [OF assms r [unfolded tcp_process_peer_ack_def], of s] by simp
qed

text \<open>The segment's data, then its acknowledgement, then \<open>k\<close> when it covers everything we sent.\<close>

lemma segment_then_ack:
  assumes "tx_ok A b w" "\<And>w1. tx_ok A b w1 \<Longrightarrow> emitted w1 = emitted w \<Longrightarrow> held A b w1 (k w1)"
  shows "held A b w (case tcp_receive_stream_segment env w s of (False, w) \<Rightarrow> w
    | (True, w) \<Rightarrow> if \<not> c then w else case tcp_process_peer_ack env w ack of (False, w) \<Rightarrow> w
      | (True, w) \<Rightarrow> if ack \<noteq> sent_seq (w_tp w) then w else k w)"
proof -
  obtain al w1 where r: "tcp_receive_stream_segment env w s = (al, w1)" by fastforce
  note h1 = segment_ok [OF assms(1) r]
  obtain al2 w2 where p: "tcp_process_peer_ack env w1 ack = (al2, w2)" by fastforce
  have "held A b w w1" "al \<Longrightarrow> held A b w w2"
    using h1 ack_plain_ok(1) [OF _ p, of A b] held_trans [of w1 w A b w2] by auto
  moreover have "held A b w (k w2)" if "al" "al2"
  proof -
    have t: "tx_ok A b w2" "emitted w2 = emitted w"
      using h1(2) [OF that(1)] ack_plain_ok(2) [OF _ p that(2), of A b] acked_onlyD(5) [of w1 w2] by auto
    then show ?thesis using assms(2) [OF t] held_trans [OF t(2)] by blast
  qed
  ultimately show ?thesis by (cases al; cases al2) (simp_all add: r p)
qed

lemma last_ack_held:
  assumes "tx_ok A b w"
  shows "held A b w (tcp_state_last_ack env w s)"
proof -
  define k where "k w = (let w = tcp_drain_recv env (tcp_drain_send env (tcp_stream_set_status w TCP_STATUS_CLOSED))
    in if sk_app_closed w then nsock_free env w else w)" for w :: "'a tcp_world"
  have "status (w_tp (tcp_drain_recv env (tcp_drain_send env (tcp_stream_set_status w TCP_STATUS_CLOSED)))) = TCP_STATUS_CLOSED" for w
    by (simp add: drain_recv_fields(10) drain_send_tp set_status_tp tcp_sack_state_init_def)
  moreover have "status (w_tp (nsock_free env v)) = TCP_STATUS_CLOSED" if "status (w_tp v) = TCP_STATUS_CLOSED" for v
    using nsock_free_tp [of env v] that by (auto simp: tcp_sack_state_init_def)
  ultimately have "held A b w1 (k w1)" for w1 by (simp add: k_def Let_def held_def)
  note seg = segment_then_ack [where k = k and env = env and s = s and c = "has_flag s RTE_TCP_ACK_FLAG" and ack = "in_ack s", OF assms this]
  show ?thesis
  proof (cases "status (w_tp w) = TCP_STATUS_LAST_ACK")
    case True
    then have "tcp_state_last_ack env w s = (case tcp_receive_stream_segment env w s of (False, w) \<Rightarrow> w
      | (True, w) \<Rightarrow> if \<not> has_flag s RTE_TCP_ACK_FLAG then w else case tcp_process_peer_ack env w (in_ack s) of (False, w) \<Rightarrow> w
        | (True, w) \<Rightarrow> if in_ack s \<noteq> sent_seq (w_tp w) then w else k w)"
      unfolding tcp_state_last_ack_def k_def by simp
    then show ?thesis using seg by (simp only:)
  qed (use held_refl [OF assms] in \<open>simp add: tcp_state_last_ack_def\<close>)
qed

lemma closing_held:
  assumes "tx_ok A b w"
  shows "held A b w (tcp_state_closing env w s)"
proof (cases "status (w_tp w) = TCP_STATUS_CLOSING")
  case True
  then show ?thesis
    using segment_then_ack [where env = env and s = s and c = "has_flag s RTE_TCP_ACK_FLAG" and ack = "in_ack s", OF assms time_wait_held]
    unfolding tcp_state_closing_def by simp
qed (use held_refl [OF assms] in \<open>simp add: tcp_state_closing_def\<close>)

lemma time_wait_state_held: "tx_ok A b w \<Longrightarrow> held A b w (tcp_state_time_wait env w s)"
  using segment_ok(1) [of A b w env s] held_refl by (cases "tcp_receive_stream_segment env w s") (auto simp: tcp_state_time_wait_def)

lemma fin_wait_1_held:
  assumes "tx_ok A b w"
  shows "held A b w (tcp_state_fin_wait_1 env w s)"
proof -
  obtain al w1 where p: "(if has_flag s RTE_TCP_ACK_FLAG then tcp_process_peer_ack env w (in_ack s) else (True, w)) = (al, w1)" by fastforce
  have h1: "held A b w w1" "al \<Longrightarrow> tx_ok A b w1"
    using p held_refl [OF assms] ack_plain_ok [OF assms, of env "in_ack s" al w1] assms by (auto split: if_splits)
  obtain al2 w2 where f: "(if has_flag s RTE_TCP_ACK_FLAG \<and> in_ack s = sent_seq (w_tp w1) then enter_fin_wait_2 env w1 else (True, w1)) = (al2, w2)"
    by fastforce
  have h2: "held A b w1 w2" "al2 \<Longrightarrow> tx_ok A b w2" if "al"
    using f fin_wait_2_held [OF h1(2) [OF that], of env al2 w2] held_refl [OF h1(2) [OF that]] h1(2) [OF that] by (auto split: if_splits)
  obtain al3 w3 where r: "tcp_receive_stream_segment env w2 s = (al3, w3)" by fastforce
  have "held A b w w2" if "al" using held_trans [of w1 w A b w2] h1(1) h2(1) [OF that] by (simp add: held_def)
  moreover have "held A b w w3" if "al" "al2"
    using segment_ok(1) [OF h2(2) [OF that] r] held_trans [of w2 w A b w3] \<open>al \<Longrightarrow> held A b w w2\<close> that by (simp add: held_def)
  ultimately show ?thesis
    using h1(1) unfolding tcp_state_fin_wait_1_def Let_def p prod.case f by (cases al; cases al2) (simp_all add: r)
qed

lemma handler_held:
  assumes "tx_ok A b w"
  shows "held A b w (tcp_state_ops (status (w_tp w)) env w s)"
proof -
  have "status (w_tp w) \<in> live_states" using assms by (simp add: tx_ok_def)
  then show ?thesis
    using established_held [OF assms] ack_then_receive_held [OF assms] last_ack_held [OF assms] closing_held [OF assms]
      time_wait_state_held [OF assms] fin_wait_1_held [OF assms] held_refl [OF assms]
    by (auto simp: live_states_def tcp_state_fin_wait_2_def tcp_state_close_wait_def)
qed

lemma ingress_held:
  assumes "tx_ok A b w"
  shows "held A b w (ingress_existing env w s opts)"
proof (cases "has_flag s RTE_TCP_RST_FLAG")
  case True
  then show ?thesis
    using aborted_held [OF abort_aborted, of A b w env ECONNRESET False] held_refl [OF assms]
    by (simp add: ingress_existing_def tcp_abort_on_rst_def)
next
  case False
  define w1 where "w1 = ingress_negotiate env w s opts"
  define ok where "ok \<longleftrightarrow> status (w_tp w) = TCP_STATUS_ESTABLISHED \<and>
      tcp_segment_acceptable (w_tp w1) (in_seq s) (of_nat (length (in_payload s))) (has_flag s RTE_TCP_FIN_FLAG)"
  obtain ts tp where t: "tcp_options_process_inbound (w_tp w1) opts False (in_seq s) ok (env_ms env) = (ts, tp)" by fastforce
  define w2 where "w2 = w1\<lparr>w_tp := tp\<rparr>"
  define w3 where "w3 = upd_tp (\<lambda>tp. tcp_sack_note_duplicate tp (in_seq s) (of_nat (length (in_payload s)))) w2"
  obtain fo w4 where m: "tcp_make_fragment env w3 RTE_TCP_ACK_FLAG (sent_seq (w_tp w3)) (recv_ack (w_tp w3)) = (fo, w4)" by fastforce
  obtain k w5 where e: "tcp_enqueue_fragment env w4 fo = (k, w5)" by fastforce
  have i1: "io_w w1 = io_w w" by (simp add: w1_def ingress_negotiate_def io_w_def io_same)
  have "io_view tp = io_view (w_tp w1)" using process_inbound_io [of "w_tp w1" opts False "in_seq s" ok "env_ms env"] t by simp
  then have i2: "io_w w2 = io_w w" using i1 by (simp add: w2_def io_w_def)
  have i3: "io_w w3 = io_w w" using i2 note_io [OF note_duplicate_frame] by (simp add: w3_def io_w_def)
  have h: "tx_ok A b w2" "tx_ok A b w3" using quiet_ok [OF quiet_io assms] i2 i3 by auto
  have st: "status (w_tp w2) = status (w_tp w)" using io_viewD(6) [OF io_wD(1) [OF i2]] .
  have "held A b w (tcp_state_ops (status (w_tp w)) env w2 s)"
    using handler_held [OF h(1), of env s] held_trans [OF io_wD(2) [OF i2]] by (simp add: st)
  moreover have "held A b w w5"
    using quiet_held [OF quiet_ack(1) [OF m e] h(2)] held_trans [OF io_wD(2) [OF i3]] by blast
  moreover have "ingress_existing env w s opts = (if ts \<noteq> Inbound_Ok then
      if ts = Inbound_Paws_Drop \<and> status (w_tp w) = TCP_STATUS_ESTABLISHED then w5 else w2
      else tcp_state_ops (status (w_tp w)) env w2 s)"
    unfolding ingress_existing_def Let_def if_not_P [OF False] w1_def [symmetric] ok_def [symmetric] t prod.case
      w2_def [symmetric] w3_def [symmetric] m e snd_conv ..
  ultimately show ?thesis using io_held [OF i2 assms] by simp
qed

end
