(* ===== verification/Tcp_Calls.thy ===== *)
theory Tcp_Calls
  imports Tcp_Handlers
begin

text \<open>
  The sender's invariant under the timer and the application's calls: \<^const>\<open>tcp_send\<close> extends the
  stream by exactly the bytes it reports, \<^const>\<open>tcp_close_stream\<close> numbers the FIN after the last byte
  or leaves it to the flush, and nothing else touches the stream.
\<close>

lemma abort_held: "emitted w1 = emitted w \<Longrightarrow> held A b w (tcp_abort_stream env w1 e r)"
  using abort_aborted [of w1 env e r] by (simp add: held_def aborted_def torn_down_def)

lemma arm_rto_held:
  assumes "tx_ok A b w" "tcp_arm_data_rto env w d = (ok, w1)"
  shows "held A b w (if ok then w1 else tcp_abort_stream env w1 e r)" "tx_ok A b w1" "emitted w1 = emitted w"
proof -
  have i: "io_w w1 = io_w w" using arm_io(1) [of env w d] assms(2) by simp
  show "held A b w (if ok then w1 else tcp_abort_stream env w1 e r)" "tx_ok A b w1" "emitted w1 = emitted w"
    using io_held [OF i assms(1)] abort_held [OF io_wD(2) [OF i]] quiet_ok [OF quiet_io [OF i] assms(1)] io_wD(2) [OF i] by auto
qed

subsection \<open>The timer\<close>

lemma timer_data_held:
  assumes "tx_ok A b w"
  shows "held A b w (timer_data env w)"
proof (cases "snd_una (w_tp w) = sent_seq (w_tp w) \<or> retries (w_tp w) \<ge> TCP_DATA_MAX_RETRIES")
  case True
  then show ?thesis using held_refl [OF assms] abort_held [of w w] by (auto simp: timer_data_def)
next
  case False
  define w1 where "w1 = upd_tp (\<lambda>tp. rto_loss (tcp_rtt_on_timeout (tp\<lparr>retries := retries tp + 1\<rparr>))) w"
  have i: "io_w w1 = io_w w" by (simp add: w1_def io_w_def io_same)
  obtain ok w2 where a: "tcp_arm_data_rto env w1 (ucast (rto_ms (w_tp w1))) = (ok, w2)" by fastforce
  note h = arm_rto_held [OF quiet_ok [OF quiet_io [OF i] assms] a]
  have m: "held A b w2 (tcp_mark_tx_dirty w2)" by (rule io_held [OF _ h(2)]) (simp add: io_w_def)
  have e: "emitted w1 = emitted w" using io_wD(2) [OF i] .
  have "held A b w (tcp_mark_tx_dirty w2)" using held_trans [OF _ m] h(3) e by simp
  moreover have "timer_data env w = (if ok then tcp_mark_tx_dirty w2 else tcp_abort_stream env w2 ENOBUFS True)"
    using False unfolding timer_data_def Let_def w1_def [symmetric] a by (cases ok) auto
  ultimately show ?thesis using abort_held [of w2 w] h(3) e by simp
qed

text \<open>With nothing unacknowledged in the buffer, what is outstanding is the FIN.\<close>

lemma fin_outstanding:
  assumes "tx_core A b q n fin ufin tp" "snd_una tp \<noteq> sent_seq tp" "sb_len (sndbuf tp) = 0"
  shows "fin" "snd_una tp = b + of_nat (length A)"
proof -
  have "unat (sb_len (sndbuf tp)) = length (drop q A)" using assms(1) by (simp add: tx_core_def sndbuf_ok_def)
  then have "q = length A" "n = length A" using assms(1,3) by (auto simp: tx_core_def)
  then show "fin" "snd_una tp = b + of_nat (length A)" using assms(1,2) by (auto simp: tx_core_def split: if_splits)
qed

lemma fin_ctl:
  assumes "control (RTE_TCP_FIN_FLAG OR RTE_TCP_ACK_FLAG) seq f" "fin" "seq = b + of_nat (length A)"
  shows "ctl_ok A b fin f"
  using assms by (simp add: control_def ctl_ok_def)

lemma requeue_fin_ok:
  assumes "tx_ok A b w" "snd_una (w_tp w) \<noteq> sent_seq (w_tp w)" "sb_len (sndbuf (w_tp w)) = 0"
    and "tcp_make_fragment env w (RTE_TCP_FIN_FLAG OR RTE_TCP_ACK_FLAG) (snd_una (w_tp w)) a = (fo, w1)"
    and "tcp_enqueue_fragment env w1 fo = (k, w2)"
  shows "tx_ok A b w2" "emitted w2 = emitted w"
proof -
  from assms(1) obtain q n fin ufin where l: "tx_core A b q n fin ufin (w_tp w)" "\<forall>f \<in> set (tx_queue (w_tp w)). ctl_ok A b fin f"
    "\<forall>f \<in> emitted w. ctl_ok A b fin f \<or> data_ok A b f" "fin_legal fin (w_tp w)" "status (w_tp w) \<in> live_states" by (rule tx_okE)
  note fo = fin_outstanding [OF l(1) assms(2,3)]
  have "tx_ok A b w2 \<and> emitted w2 = emitted w"
  proof (cases k)
    case True
    then obtain f where f: "control (RTE_TCP_FIN_FLAG OR RTE_TCP_ACK_FLAG) (snd_una (w_tp w)) f"
        "io_w w2 = io_w (upd_tp (\<lambda>tp. tp\<lparr>tx_queue := tx_queue tp @ [f]\<rparr>) w)"
      using queue_control [OF assms(4,5)] by auto
    let ?w = "upd_tp (\<lambda>tp. tp\<lparr>tx_queue := tx_queue tp @ [f]\<rparr>) w"
    have "tx_ok A b ?w"
    proof (rule tx_okI)
      show "tx_core A b q n fin ufin (w_tp ?w)" using l(1) tx_core_cong [of "w_tp ?w" "w_tp w"] by simp
    qed (use l(2-5) fin_ctl [OF f(1) fo] in \<open>auto simp: fin_legal_def\<close>)
    then show ?thesis using quiet_ok [OF quiet_io [OF f(2)]] io_wD(2) [OF f(2)] by simp
  next
    case False
    then have "io_w w2 = io_w w" using queue_control [OF assms(4,5)] by simp
    then show ?thesis using quiet_ok [OF quiet_io assms(1)] io_wD(2) by blast
  qed
  then show "tx_ok A b w2" "emitted w2 = emitted w" by auto
qed

lemma timer_fin_held:
  assumes "tx_ok A b w"
  shows "held A b w (timer_fin env w)"
proof (cases "snd_una (w_tp w) = sent_seq (w_tp w) \<or> retries (w_tp w) \<ge> TCP_DATA_MAX_RETRIES")
  case True
  then show ?thesis using held_refl [OF assms] abort_held [of w w] by (auto simp: timer_fin_def)
next
  case False
  define w1 where "w1 = upd_tp (\<lambda>tp. tcp_rtt_on_timeout (tp\<lparr>retries := retries tp + 1\<rparr>)) w"
  have i: "io_w w1 = io_w w" by (simp add: w1_def io_w_def io_same)
  have t1: "tx_ok A b w1" by (rule quiet_ok [OF quiet_io [OF i] assms])
  define d where "d \<longleftrightarrow> sb_len (sndbuf (w_tp w1)) > 0"
  obtain f wf where m: "tcp_make_fragment env w1 (RTE_TCP_FIN_FLAG OR RTE_TCP_ACK_FLAG) (snd_una (w_tp w1)) (recv_ack (w_tp w1)) = (f, wf)"
    by fastforce
  obtain k we where e: "tcp_enqueue_fragment env wf f = (k, we)" by fastforce
  define w2 where "w2 = (if d then upd_tp rto_loss w1 else we)"
  have t2: "tx_ok A b w2 \<and> emitted w2 = emitted w"
  proof (cases d)
    case True
    then have "io_w w2 = io_w w1" by (simp add: w2_def io_w_def io_same)
    then show ?thesis using quiet_ok [OF quiet_io t1] io_wD(2) [OF i] io_wD(2) [of w2 w1] by simp
  next
    case no: False
    then have "sb_len (sndbuf (w_tp w1)) = 0" by (simp add: d_def word_gt_0)
    moreover have "snd_una (w_tp w1) \<noteq> sent_seq (w_tp w1)" using False io_viewD(1,2) [OF io_wD(1) [OF i]] by simp
    ultimately show ?thesis using requeue_fin_ok [OF t1 _ _ m e] io_wD(2) [OF i] no by (simp add: w2_def)
  qed
  obtain ok w3 where a: "tcp_arm_data_rto env w2 (ucast (rto_ms (w_tp w2))) = (ok, w3)" by fastforce
  note h = arm_rto_held [OF conjunct1 [OF t2] a]
  have em: "emitted w3 = emitted w" using h(3) t2 by simp
  have md: "held A b w3 (tcp_mark_tx_dirty w3)" by (rule io_held [OF _ h(2)]) (simp add: io_w_def)
  have "timer_fin env w = (if ok then if d then tcp_mark_tx_dirty w3 else w3 else tcp_abort_stream env w3 ENOBUFS True)"
    using False unfolding timer_fin_def Let_def w1_def [symmetric] m e prod.case snd_conv d_def [symmetric] w2_def [symmetric] a
    by (cases ok) auto
  then show ?thesis using held_trans [OF em md] held_trans [OF em held_refl [OF h(2)]] abort_held [OF em] by simp
qed

lemma timer_time_wait_held: "held A b w (timer_time_wait env w)"
proof -
  let ?w = "tcp_drain_send env (tcp_drain_recv env (tcp_stream_set_status w TCP_STATUS_CLOSED))"
  have "status (w_tp ?w) = TCP_STATUS_CLOSED" by (simp add: drain_recv_fields(10) drain_send_tp set_status_tp tcp_sack_state_init_def)
  moreover from this have "status (w_tp (nsock_free env ?w)) = TCP_STATUS_CLOSED"
    using nsock_free_tp [of env ?w] by (auto simp: tcp_sack_state_init_def)
  ultimately show ?thesis by (simp add: timer_time_wait_def Let_def held_def)
qed

lemma timer_held:
  assumes "tx_ok A b w"
  shows "\<exists>w'. tcp_timer_cb env w = Some w' \<and> held A b w w'"
proof -
  have "status (w_tp w) \<in> live_states" using assms by (simp add: tx_ok_def)
  then show ?thesis
    using timer_data_held [OF assms] timer_fin_held [OF assms] timer_time_wait_held held_refl [OF assms] abort_held [of w w]
    by (auto simp: tcp_timer_cb_def live_states_def)
qed

subsection \<open>Sending\<close>

lemma sndbuf_append_ok:
  assumes "sndbuf_ok sb" "unat (sb_len sb) + length data < HALF" "tcp_sndbuf_append mp memory sb data = (r, sb', memory')"
  shows "\<exists>n \<le> length data. r = (if n = 0 \<and> data \<noteq> [] then None else Some n) \<and> sndbuf_ok sb' \<and>
    sndbuf_bytes sb' = sndbuf_bytes sb @ take n data \<and> sb_head_seq sb' = sb_head_seq sb \<and> sb_unacked sb' = sb_unacked sb"
proof (cases "data = []")
  case True
  then show ?thesis using assms by (auto simp: tcp_sndbuf_append_def)
next
  case False
  obtain n sb1 m1 where l: "append_loop mp memory sb data 0 = (n, sb1, m1)" by (metis prod_cases3)
  have "r = (if n = 0 then None else Some n)" "sb' = sb1" using assms(3) l False by (simp_all add: tcp_sndbuf_append_def)
  then show ?thesis using append_loop_ok [OF assms(1,2) l] False by (intro exI [of _ n]) simp
qed

lemma data_ok_grow: "data_ok A b f \<Longrightarrow> data_ok (A @ B) b f"
proof -
  assume "data_ok A b f"
  moreover from this obtain k where "k + length (frag_payload f) \<le> length A" "frag_sent_seq f = b + of_nat k"
      "frag_payload f = take (length (frag_payload f)) (drop k A)" by (auto simp: data_ok_def)
  ultimately show ?thesis unfolding data_ok_def by (intro conjI exI [of _ k]) auto
qed

lemma unfinished_ctl: "ctl_ok A b False f \<Longrightarrow> ctl_ok A' b' fin f"
  by (simp add: ctl_ok_def)

lemma send_ok:
  assumes "tx_ok A b w" "tcp_send env w buf = (r, w')"
  shows "emitted w' = emitted w" "status (w_tp w') = status (w_tp w)" "rx_same (w_tp w) (w_tp w')"
    "sk_terminal_error w' = sk_terminal_error w" "sk_app_closed w' = sk_app_closed w"
    "case r of Inl _ \<Rightarrow> tx_ok A b w' | Inr n \<Rightarrow> n \<le> length buf \<and> tx_ok (A @ take n buf) b w'"
proof -
  let ?tp = "w_tp w"
  let ?P = "emitted w' = emitted w \<and> status (w_tp w') = status ?tp \<and> rx_same ?tp (w_tp w') \<and>
    sk_terminal_error w' = sk_terminal_error w \<and> sk_app_closed w' = sk_app_closed w \<and>
    (case r of Inl _ \<Rightarrow> tx_ok A b w' | Inr n \<Rightarrow> n \<le> length buf \<and> tx_ok (A @ take n buf) b w')"
  define space where "space = tcp_app_snd_space ?tp"
  have ?P
  proof (cases "buf = [] \<or> status ?tp \<notin> {TCP_STATUS_ESTABLISHED, TCP_STATUS_CLOSE_WAIT} \<or> space = 0")
    case True
    then have "w' = w" "r = Inr 0 \<or> (\<exists>e. r = Inl e)" using assms(2) by (auto simp: tcp_send_def Let_def space_def split: if_splits)
    then show ?thesis using assms(1) by (auto simp: rx_same_def queue_same_def)
  next
    case False
    from assms(1) obtain q n fin ufin where l: "tx_core A b q n fin ufin ?tp" "\<forall>f \<in> set (tx_queue ?tp). ctl_ok A b fin f"
      "\<forall>f \<in> emitted w. ctl_ok A b fin f \<or> data_ok A b f" "fin_legal fin ?tp" "status ?tp \<in> live_states" by (rule tx_okE)
    have fin: "\<not> fin" using l(4) False by (auto simp: fin_legal_def)
    note c = l(1) [unfolded tx_core_def]
    define k where "k = min (length buf) (unat space)"
    obtain r1 sb m where a: "tcp_sndbuf_append (env_mp env) (w_mem w) (sndbuf ?tp) (take k buf) = (r1, sb, m)" by (metis prod_cases3)
    have len: "unat (sb_len (sndbuf ?tp)) = length A - q" using c by (simp add: sndbuf_ok_def)
    have lim: "tcp_app_snd_limit ?tp \<le> 65536" by (auto simp: tcp_app_snd_limit_def word_le_nat_alt word_less_nat_alt)
    have ne: "sb_len (sndbuf ?tp) < tcp_app_snd_limit ?tp" 
      using False by (metis space_def tcp_app_snd_space_def not_le)
    then have "unat space = unat (tcp_app_snd_limit ?tp) - (length A - q)"
      using len by (auto simp: space_def tcp_app_snd_space_def Let_def unat_sub word_le_nat_alt word_less_nat_alt)
    then have sp: "k + (length A - q) \<le> 65536" using lim ne len by (auto simp: k_def word_le_nat_alt word_less_nat_alt)
    have "k + (length A - q) < HALF" using sp by simp
    then have pre: "unat (sb_len (sndbuf ?tp)) + length (take k buf) < HALF" using len by (simp add: k_def)
    obtain x where x: "x \<le> length (take k buf)" "r1 = (if x = 0 \<and> take k buf \<noteq> [] then None else Some x)"
        "sndbuf_ok sb" "sndbuf_bytes sb = sndbuf_bytes (sndbuf ?tp) @ take x (take k buf)"
        "sb_head_seq sb = sb_head_seq (sndbuf ?tp)" "sb_unacked sb = sb_unacked (sndbuf ?tp)"
      using sndbuf_append_ok [OF conjunct1 [OF c] pre a] by blast
    have "x \<le> k" using x(1) by simp
    then have bytes: "sndbuf_bytes sb = drop q (A @ take x buf)" using x(4) c by simp
    define w1 where "w1 = (upd_tp (\<lambda>tp. tp\<lparr>sndbuf := sb\<rparr>) w)\<lparr>w_mem := m\<rparr>"
    have tp1: "w_tp w1 = ?tp\<lparr>sndbuf := sb\<rparr>" "emitted w1 = emitted w" "sk_terminal_error w1 = sk_terminal_error w" "sk_app_closed w1 = sk_app_closed w"
      by (simp_all add: w1_def)
    have core: "tx_core (A @ take x buf) b q n fin ufin (w_tp w1)"
      using c fin x(3,5,6) bytes sp \<open>x \<le> k\<close> by (simp add: tx_core_def tp1 del: of_nat_diff)
    have t1: "tx_ok (A @ take x buf) b w1"
    proof (rule tx_okI [OF core])
      show "\<forall>f \<in> set (tx_queue (w_tp w1)). ctl_ok (A @ take x buf) b fin f" using l(2) fin unfinished_ctl by (auto simp: tp1)
      show "\<forall>f \<in> emitted w1. ctl_ok (A @ take x buf) b fin f \<or> data_ok (A @ take x buf) b f"
        using l(3) fin unfinished_ctl data_ok_grow by (auto simp: tp1)
    qed (use l(4,5) in \<open>auto simp: tp1 fin_legal_def\<close>)
    have run: "(r, w') = (case r1 of Some n \<Rightarrow> if n = 0 then (Inl ENOBUFS, w1) else (Inr n, tcp_mark_tx_dirty w1) | None \<Rightarrow> (Inl ENOBUFS, w1))"
      using assms(2) False unfolding tcp_send_def Let_def space_def [symmetric] k_def [symmetric] a prod.case w1_def [symmetric] by simp
    have i: "io_w w' = io_w w1" using run by (auto simp: io_w_def split: option.splits if_splits)
    have t': "tx_ok (A @ take x buf) b w'" by (rule quiet_ok [OF quiet_io [OF i] t1])
    have "r = (if x = 0 then Inl ENOBUFS else Inr x)" using run x(2) by (auto split: if_splits)
    moreover have "rx_same ?tp (w_tp w')" "status (w_tp w') = status ?tp"
      using io_wD(1) [OF i] by (auto simp: tp1 io_view_def rx_same_def queue_same_def)
    ultimately show ?thesis using t' io_wD(2-4) [OF i] tp1 x(1) by auto
  qed
  then show "emitted w' = emitted w" "status (w_tp w') = status (w_tp w)" "rx_same (w_tp w) (w_tp w')"
    "sk_terminal_error w' = sk_terminal_error w" "sk_app_closed w' = sk_app_closed w"
    "case r of Inl _ \<Rightarrow> tx_ok A b w' | Inr n \<Rightarrow> n \<le> length buf \<and> tx_ok (A @ take n buf) b w'" by auto
qed

subsection \<open>Receiving\<close>

text \<open>Reading never touches the sending side.\<close>

lemma recv_quiet:
  assumes "tcp_recv env w len = (r, w')"
  shows "quiet w w' \<or> aborted w w'"
proof (cases "len = 0 \<or> sk_terminal_error w \<noteq> None \<or>
    (case rx_current (w_tp w) of Some c \<Rightarrow> Some (c, w_tp w) | None \<Rightarrow> nsock_tcp_rx_dequeue (w_tp w)) = None")
  case True
  then have "w' = w" using assms by (auto simp: tcp_recv_def split: if_splits option.splits)
  then show ?thesis using quiet_io by blast
next
  case False
  then obtain c tp1 where d: "(case rx_current (w_tp w) of Some c \<Rightarrow> Some (c, w_tp w) | None \<Rightarrow> nsock_tcp_rx_dequeue (w_tp w)) = Some (c, tp1)"
    by auto
  define n where "n = min len (length (blob_data c) - blob_off c)"
  define c' where "c' = c\<lparr>blob_off := blob_off c + n\<rparr>"
  define w2 where "w2 = w\<lparr>w_tp := tp1\<lparr>rx_current := Some c', rcvbuf_used := (if of_nat n > rcvbuf_used tp1 then 0 else rcvbuf_used tp1 - of_nat n)\<rparr>\<rparr>"
  define w3 where "w3 = drain_ofo env w2"
  obtain alive w4 where ap: "tcp_apply_peer_eof env w3 = (alive, w4)" by fastforce
  define w5 where "w5 = tcp_mark_tx_dirty (upd_tp (\<lambda>tp. tp\<lparr>ack_pending := True\<rparr>) w4)"
  have tp1: "tp1 = w_tp w \<or> (\<exists>q. tp1 = (w_tp w)\<lparr>rx_queue := q\<rparr>)"
    using d by (auto simp: nsock_tcp_rx_dequeue_def split: option.splits list.splits)
  have "outer w2 = outer w" using tp1 by (auto simp: w2_def outer_def tx_part_def)
  then have q3: "quiet w w3" by (intro outer_quiet) (simp add: w3_def outer_same)
  have e: "sk_terminal_error w = None" "len \<noteq> 0" using False by auto
  have run: "snd (tcp_recv env w len) = (if \<not> alive then w4 else if blob_off c' < length (blob_data c') then w5
      else upd_tp (\<lambda>tp. tp\<lparr>rx_current := None\<rparr>) (tcp_rx_blob_release env w5))"
    unfolding tcp_recv_def e d option.case prod.case Let_def n_def [symmetric] c'_def [symmetric]
    using e(2) ap unfolding w3_def w2_def w5_def by (simp split del: if_split cong: if_cong) (simp split: if_split)
  have w': "w' = (if \<not> alive then w4 else if blob_off c' < length (blob_data c') then w5
      else upd_tp (\<lambda>tp. tp\<lparr>rx_current := None\<rparr>) (tcp_rx_blob_release env w5))"
    using run assms by simp
  have "quiet w4 w'" if alive
    using that w' by (auto simp: w5_def quiet_def eof_move_def tcp_rx_blob_release_def)
  moreover have "aborted w3 w4 \<Longrightarrow> aborted w w4" using quietD [OF q3] by (simp add: aborted_def)
  ultimately show ?thesis using apply_eof_quiet [OF ap] quiet_trans [OF quiet_trans [OF q3]] w' by (auto split: if_splits)
qed

lemma recv_held: "tx_ok A b w \<Longrightarrow> tcp_recv env w len = (r, w') \<Longrightarrow> held A b w w'"
  using recv_quiet quiet_held aborted_held by blast

subsection \<open>Closing\<close>

text \<open>A FIN takes the number after the last byte.\<close>

lemma core_fin:
  assumes "tx_core A b q n False ufin tp" "n = length A"
  shows "sent_seq tp = b + of_nat (length A)" "tx_core A b q n True ufin (tp\<lparr>sent_seq := sent_seq tp + 1, tx_queue := fs\<rparr>)"
  using assms by (auto simp: tx_core_def)

lemma nothing_unsent:
  assumes "tx_core A b q n False ufin tp" "\<not> tcp_seq_lt (sent_seq tp) (sb_head_seq (sndbuf tp) + sb_len (sndbuf tp))"
  shows "n = length A"
proof (rule ccontr)
  assume "n \<noteq> length A"
  then have n: "n < length A" "q \<le> n" "length A - q \<le> 65536" using assms(1) by (auto simp: tx_core_def)
  have "sb_len (sndbuf tp) = of_nat (unat (sb_len (sndbuf tp)))" by simp
  also have "\<dots> = of_nat (length A - q)" using assms(1) by (simp add: tx_core_def sndbuf_ok_def del: of_nat_diff)
  finally have "sb_head_seq (sndbuf tp) + sb_len (sndbuf tp) = b + of_nat (length A)"
    using assms(1) n by (simp add: tx_core_def)
  then have "sent_seq tp - (sb_head_seq (sndbuf tp) + sb_len (sndbuf tp)) = of_nat n - of_nat (length A)"
    using assms(1) by (simp only: tx_core_def) simp
  also have "\<dots> = - of_nat (length A - n)" using n by simp
  finally have e: "sent_seq tp - (sb_head_seq (sndbuf tp) + sb_len (sndbuf tp)) = - of_nat (length A - n)" .
  have "unat (of_nat (length A - n) :: u32) = length A - n" using n by (simp add: unat_of_nat del: of_nat_diff)
  then have "unat (- of_nat (length A - n) :: u32) \<ge> HALF" using n by (subst unat_neg_u32) (auto simp del: of_nat_diff)
  then show False using assms(2) by (simp add: tcp_seq_lt_def sint_neg_iff e del: of_nat_diff)
qed

lemma fin_queued_ok:
  fixes w w' :: "'p tcp_world"
  assumes "tx_core A b q n False ufin (w_tp w)" "n = length A" "\<forall>f \<in> set (tx_queue (w_tp w)). ctl_ok A b False f"
    and "\<forall>f \<in> emitted w. ctl_ok A b False f \<or> data_ok A b f" "s \<in> live_states - {TCP_STATUS_ESTABLISHED, TCP_STATUS_CLOSE_WAIT}"
    and "control (RTE_TCP_FIN_FLAG OR RTE_TCP_ACK_FLAG) (sent_seq (w_tp w)) f"
    and "io_w w' = io_w (upd_tp (\<lambda>tp. tp\<lparr>sent_seq := sent_seq tp + 1, tx_queue := tx_queue tp @ [f], fin_deferred := False, status := s\<rparr>) w)"
  shows "tx_ok A b w'" "emitted w' = emitted w"
proof -
  let ?w = "upd_tp (\<lambda>tp. tp\<lparr>sent_seq := sent_seq tp + 1, tx_queue := tx_queue tp @ [f], fin_deferred := False, status := s\<rparr>) w"
  note c = core_fin [OF assms(1,2)]
  have "tx_ok A b ?w"
  proof (rule tx_okI)
    show "tx_core A b q n True ufin (w_tp ?w)" using c(2) by (simp add: tx_core_def)
    show "\<forall>f \<in> set (tx_queue (w_tp ?w)). ctl_ok A b True f" using assms(3) unfinished_ctl fin_ctl [OF assms(6) _ c(1)] by auto
    show "\<forall>f \<in> emitted ?w. ctl_ok A b True f \<or> data_ok A b f" using assms(4) unfinished_ctl by auto
  qed (use assms(5) in \<open>auto simp: fin_legal_def\<close>)
  then show "tx_ok A b w'" by (rule quiet_ok [OF quiet_io [OF assms(7)]])
  show "emitted w' = emitted w" using io_wD(2) [OF assms(7)] by simp
qed

lemma fin_waits_ok:
  fixes w w' :: "'p tcp_world"
  assumes "tx_ok A b w" "status (w_tp w) \<in> {TCP_STATUS_ESTABLISHED, TCP_STATUS_CLOSE_WAIT}"
    and "s \<in> live_states - {TCP_STATUS_ESTABLISHED, TCP_STATUS_CLOSE_WAIT}"
    and "io_w w' = io_w (upd_tp (\<lambda>tp. tp\<lparr>fin_deferred := True, status := s\<rparr>) w)"
  shows "tx_ok A b w'" "emitted w' = emitted w"
proof -
  let ?w = "upd_tp (\<lambda>tp. tp\<lparr>fin_deferred := True, status := s\<rparr>) w"
  from assms(1) obtain q n fin ufin where l: "tx_core A b q n fin ufin (w_tp w)" "\<forall>f \<in> set (tx_queue (w_tp w)). ctl_ok A b fin f"
    "\<forall>f \<in> emitted w. ctl_ok A b fin f \<or> data_ok A b f" "fin_legal fin (w_tp w)" "status (w_tp w) \<in> live_states" by (rule tx_okE)
  have "tx_ok A b ?w"
  proof (rule tx_okI)
    show "tx_core A b q n fin ufin (w_tp ?w)" using l(1) tx_core_cong [of "w_tp ?w" "w_tp w"] by simp
  qed (use l(2-4) assms(2,3) in \<open>auto simp: fin_legal_def\<close>)
  then show "tx_ok A b w'" by (rule quiet_ok [OF quiet_io [OF assms(4)]])
  show "emitted w' = emitted w" using io_wD(2) [OF assms(4)] by simp
qed

lemma close_queue_fin_ok:
  assumes "tx_ok A b w" "status (w_tp w) \<in> {TCP_STATUS_ESTABLISHED, TCP_STATUS_CLOSE_WAIT}"
    and "s \<in> live_states - {TCP_STATUS_ESTABLISHED, TCP_STATUS_CLOSE_WAIT}" "close_queue_fin env w = (ok, w')"
  shows "emitted w' = emitted w"
    "ok \<Longrightarrow> tx_ok A b (tcp_stream_set_status (upd_tp (\<lambda>tp. tp\<lparr>retries := 0\<rparr>) w') s)"
proof -
  let ?fin = "\<lambda>w'. tcp_stream_set_status (upd_tp (\<lambda>tp. tp\<lparr>retries := 0\<rparr>) w') s"
  have st: "io_w (?fin v) = io_w (upd_tp (\<lambda>tp. tp\<lparr>status := s\<rparr>) v)" for v
    by (simp add: io_w_def set_status_tp io_view_def)
  let ?lt = "tcp_seq_lt (sent_seq (w_tp w)) (sb_head_seq (sndbuf (w_tp w)) + sb_len (sndbuf (w_tp w)))"
  have "emitted w' = emitted w \<and> (ok \<longrightarrow> tx_ok A b (?fin w'))"
  proof (cases ?lt)
    case True
    then have w': "w' = upd_tp (\<lambda>tp. tp\<lparr>fin_deferred := True\<rparr>) w" using assms(4) by (auto simp: close_queue_fin_def)
    have "io_w (?fin w') = io_w (upd_tp (\<lambda>tp. tp\<lparr>fin_deferred := True, status := s\<rparr>) w)"
      unfolding st by (simp add: w' io_w_def io_view_def)
    from fin_waits_ok [OF assms(1-3) this] show ?thesis by (simp add: w')
  next
    case False
    obtain fo w1 where m: "tcp_make_fragment env w (RTE_TCP_FIN_FLAG OR RTE_TCP_ACK_FLAG) (sent_seq (w_tp w)) (recv_ack (w_tp w)) = (fo, w1)"
      by fastforce
    obtain k w2 where e: "tcp_enqueue_fragment env w1 fo = (k, w2)" by fastforce
    have run: "(ok, w') = (if k then (True, upd_tp (\<lambda>tp. tp\<lparr>sent_seq := sent_seq tp + 1\<rparr>) w2) else (False, w2))"
      using assms(4) False unfolding close_queue_fin_def Let_def m prod.case e by (cases k) auto
    from assms(1) obtain q n fin ufin where l: "tx_core A b q n fin ufin (w_tp w)" "\<forall>f \<in> set (tx_queue (w_tp w)). ctl_ok A b fin f"
      "\<forall>f \<in> emitted w. ctl_ok A b fin f \<or> data_ok A b f" "fin_legal fin (w_tp w)" "status (w_tp w) \<in> live_states" by (rule tx_okE)
    have nf: "\<not> fin" "\<not> fin_deferred (w_tp w)" using l(4) assms(2) by (auto simp: fin_legal_def)
    note l' = l(1-3) [simplified nf(1) simp_thms]
    show ?thesis
    proof (cases k)
      case True
      then obtain f where f: "control (RTE_TCP_FIN_FLAG OR RTE_TCP_ACK_FLAG) (sent_seq (w_tp w)) f"
          "io_w w2 = io_w (upd_tp (\<lambda>tp. tp\<lparr>tx_queue := tx_queue tp @ [f]\<rparr>) w)"
        using queue_control [OF m e] by auto
      have "io_w (?fin w') = io_w (upd_tp (\<lambda>tp. tp\<lparr>sent_seq := sent_seq tp + 1, tx_queue := tx_queue tp @ [f], fin_deferred := False, status := s\<rparr>) w)"
        unfolding st using f(2) run True nf(2) by (simp add: io_w_def io_view_def)
      from fin_queued_ok [OF l'(1) nothing_unsent [OF l'(1) False] l'(2,3) assms(3) f(1) this] show ?thesis by simp
    next
      case False
      then show ?thesis using queue_control [OF m e] run io_wD(2) [of w2 w] by simp
    qed
  qed
  then show "emitted w' = emitted w" "ok \<Longrightarrow> tx_ok A b (?fin w')" by auto
qed

lemma close_arm_held:
  assumes "tx_ok A b w" "close_arm env w = (ok, w')"
  shows "held A b w w'" "ok \<Longrightarrow> tx_ok A b w'"
proof -
  obtain k1 w1 where a: "(if snd_una (w_tp w) \<noteq> sent_seq (w_tp w) then tcp_arm_data_rto env w (ucast (rto_ms (w_tp w))) else (True, w)) = (k1, w1)"
    by fastforce
  obtain k2 w2 where c: "(if snd_una (w_tp w1) = sent_seq (w_tp w1) \<and> close_deadline_cycles (w_tp w1) \<noteq> 0
      then sock_arm_at env w1 (close_deadline_cycles (w_tp w1)) else (True, w1)) = (k2, w2)" by fastforce
  have i1: "io_w w1 = io_w w" using a arm_io(1) [of env w] by (metis snd_conv)
  have "io_w w2 = io_w w1" using c arm_at_io [of env w1] by (metis snd_conv)
  then have i2: "io_w w2 = io_w w" using i1 by simp
  have run: "(ok, w') = (if \<not> k1 then (False, tcp_abort_stream env w1 ENOBUFS True)
      else if \<not> k2 then (False, tcp_abort_stream env w2 ENOBUFS True) else (True, w2))"
    using assms(2) unfolding close_arm_def Let_def a prod.case c by simp
  show "held A b w w'" "ok \<Longrightarrow> tx_ok A b w'"
    using run abort_held [OF io_wD(2) [OF i1]] abort_held [OF io_wD(2) [OF i2]] io_held [OF i2 assms(1)]
      quiet_ok [OF quiet_io [OF i2] assms(1)] by (auto split: if_splits)
qed

lemma drain_blobs_outer [outer_same]: "outer (drain_blobs env w bs) = outer w"
  by (induction bs arbitrary: w) (simp_all add: tcp_rx_blob_release_def upd_tp_def outer_def)

lemma drain_recv_outer [outer_same]: "outer (tcp_drain_recv env w) = outer w"
proof -
  have "outer (upd_tp (\<lambda>tp. tp\<lparr>rcvbuf_used := 0\<rparr>) v) = outer v" "outer (upd_tp (\<lambda>tp. tp\<lparr>rx_current := None\<rparr>) (tcp_rx_blob_release env v)) = outer v" for v
    by (simp_all add: outer_def upd_tp_def tcp_rx_blob_release_def)
  then show ?thesis by (simp add: tcp_drain_recv_def Let_def outer_same split: option.split)
qed

lemma close_start_held:
  assumes "tx_ok A b w" "status (w_tp w) \<in> {TCP_STATUS_ESTABLISHED, TCP_STATUS_CLOSE_WAIT}"
    and "s \<in> live_states - {TCP_STATUS_ESTABLISHED, TCP_STATUS_CLOSE_WAIT}"
  shows "held A b w (snd (close_start env w s drain))"
proof -
  obtain ok w1 where q: "close_queue_fin env w = (ok, w1)" by fastforce
  note h = close_queue_fin_ok [OF assms q]
  define w2 where "w2 = tcp_stream_set_status (upd_tp (\<lambda>tp. tp\<lparr>retries := 0\<rparr>) w1) s"
  obtain k w3 where a: "close_arm env w2 = (k, w3)" by fastforce
  define w4 where "w4 = (if drain then tcp_drain_recv env w3 else w3)"
  define w5 where "w5 = (if fin_deferred (w_tp w4) then tcp_mark_tx_dirty w4 else w4)"
  have "outer w4 = outer w3" by (simp add: w4_def outer_same)
  moreover have "io_w w5 = io_w w4" by (simp add: w5_def io_w_def)
  ultimately have q5: "quiet w3 w5" using quiet_trans [OF outer_quiet quiet_io] by blast
  have run: "snd (close_start env w s drain) = (if \<not> ok then tcp_abort_stream env w1 ENOBUFS True else if k then w5 else w3)"
    unfolding close_start_def q prod.case Let_def w2_def [symmetric] a w4_def [symmetric] w5_def [symmetric] by (cases ok; cases k) auto
  have e2: "emitted w2 = emitted w" using h(1) by (simp add: w2_def)
  have t2: "tx_ok A b w2" if ok using h(2) that by (simp add: w2_def)
  have "held A b w w3" if ok using held_trans [OF e2 close_arm_held(1) [OF t2 a]] that by simp
  moreover have "held A b w w5" if ok k
    using quiet_held [OF q5 close_arm_held(2) [OF t2 a]] close_arm_held(1) [OF t2 a] that e2 by (simp add: held_def)
  ultimately show ?thesis using run abort_held [OF h(1)] by simp
qed

lemma close_held:
  assumes "tx_ok A b w"
  shows "held A b w (snd (tcp_close_stream env w))"
proof -
  let ?st = "status (w_tp w)"
  have live: "?st \<in> live_states" using assms by (simp add: tx_ok_def)
  define w1 where "w1 = close_linger env w"
  have i: "io_w w1 = io_w w" by (simp add: w1_def close_linger_def io_w_def io_same)
  have t1: "tx_ok A b w1" "status (w_tp w1) = ?st" using quiet_ok [OF quiet_io [OF i] assms] io_viewD(6) [OF io_wD(1) [OF i]] .
  note e = held_trans [OF io_wD(2) [OF i]]
  have "snd (tcp_close_stream env w) = (if linger_enabled (w_tp w) \<and> linger_seconds (w_tp w) = 0 then tcp_abort_stream env w ECONNRESET True
      else if ?st = TCP_STATUS_ESTABLISHED then snd (close_start env w1 TCP_STATUS_FIN_WAIT_1 False)
      else if ?st = TCP_STATUS_CLOSE_WAIT then snd (close_start env w1 TCP_STATUS_LAST_ACK True) else w1)"
    using live unfolding tcp_close_stream_def Let_def w1_def [symmetric] live_states_def by auto
  moreover have "held A b w (snd (close_start env w1 TCP_STATUS_FIN_WAIT_1 False))" if "?st = TCP_STATUS_ESTABLISHED"
    by (rule e, rule close_start_held [OF t1(1)]) (use that t1(2) in \<open>auto simp: live_states_def\<close>)
  moreover have "held A b w (snd (close_start env w1 TCP_STATUS_LAST_ACK True))" if "?st = TCP_STATUS_CLOSE_WAIT"
    by (rule e, rule close_start_held [OF t1(1)]) (use that t1(2) in \<open>auto simp: live_states_def\<close>)
  ultimately show ?thesis using abort_held [of w w] e [OF held_refl [OF t1(1)]] by simp
qed

end
