(* ===== verification/Tcp_Flush_Cases.thy ===== *)
theory Tcp_Flush_Cases
  imports Tcp_Calls
begin

text \<open>
  What one attempt to transmit does, whatever the state of the connection: it changes nothing the
  two users see, or it puts one segment on the wire.
\<close>

subsection \<open>Packets on the ring\<close>

fun is_tx :: "tcp_effect \<Rightarrow> bool" where
  "is_tx (Fx_tx _) = True"
| "is_tx _ = False"

definition wire_count :: "tcp_effect list \<Rightarrow> nat" where
  "wire_count l = length (filter is_tx l)"

abbreviation wire :: "'p tcp_world \<Rightarrow> nat" where
  "wire w \<equiv> wire_count (sk_log w)"

lemma wire_log [simp]: "wire (log_fx e w) = (if is_tx e then Suc (wire w) else wire w)"
  by (simp add: log_fx_def wire_count_def)

lemma log_same [simp]:
  "sk_log (tcp_fragment_free env w) = sk_log w" "sk_log (snd (sock_arm_at env w d)) = sk_log w"
  by (simp_all add: tcp_fragment_free_def sock_arm_at_def)

lemma arm_log [simp]: "sk_log (snd (tcp_arm_data_rto env w d)) = sk_log w"
  by (simp add: tcp_arm_data_rto_def Let_def)

lemma make_fragment_log: "sk_log (snd (tcp_make_fragment env w fl s a)) = sk_log w"
  by (simp add: tcp_make_fragment_def tcp_fragment_alloc_def Let_def split: prod.split option.split)

lemma enqueue_wire: "wire (snd (tcp_enqueue_fragment env w fo)) = wire w"
  by (simp add: tcp_enqueue_fragment_def Let_def tcp_mark_tx_dirty_def split: option.split)

subsection \<open>Building a segment\<close>

lemma build_same [dest]: "tcp_build_pkt m f = Some p \<Longrightarrow> p = f"
  by (auto simp: tcp_build_pkt_def split: if_splits)

lemma accepted_by_ring: "tcp_build_pkt (tx l \<noteq> Tx_no_mbuf) f = Some p \<Longrightarrow> tx l \<noteq> Tx_no_arp \<Longrightarrow> tx l \<noteq> Tx_ring_full \<Longrightarrow> tx l = Tx_ok"
  by (cases "tx l") (auto simp: tcp_build_pkt_def split: if_splits)

text \<open>The packet leaves, or one of the three resources is missing.\<close>

lemma build_or_fail:
  "(case tcp_build_pkt (tx l \<noteq> Tx_no_mbuf) g of None \<Rightarrow> x | Some f \<Rightarrow> if tx l = Tx_ring_full then x else y f) = z \<Longrightarrow>
   tx l \<noteq> Tx_no_arp \<Longrightarrow> z = x \<or> z = y g \<and> tx l = Tx_ok"
  using accepted_by_ring [of tx l g] by (auto dest!: build_same split: option.splits if_splits)

lemma data_fragment_ok:
  assumes "tcp_data_fragment env w seq = (r, f, w')"
  shows "io_w w' = io_w w" "sk_log w' = sk_log w" "frag_tcp_flags f = RTE_TCP_ACK_FLAG OR RTE_TCP_PSH_FLAG" "frag_sent_seq f = seq"
proof -
  define flags where "flags = RTE_TCP_ACK_FLAG OR RTE_TCP_PSH_FLAG"
  define g where "g = tcp_fragment_zero\<lparr>frag_src_port := sk_local_port w, frag_dst_port := remote_port (w_tp w),
                frag_sent_seq := seq, frag_recv_ack := recv_ack (w_tp w), frag_tcp_flags := flags, frag_data_off := 80,
                frag_rx_win := tcp_wire_rcv_wnd (w_tp w) flags\<rparr>"
  obtain ro tp where e: "tcp_options_apply_established (w_tp w) g (env_ms env) = (ro, tp)" by fastforce
  have run: "(r, f, w') = (ro, case ro of None \<Rightarrow> g | Some f \<Rightarrow> f, w\<lparr>w_tp := tp\<rparr>)"
    using assms unfolding tcp_data_fragment_def Let_def flags_def [symmetric] g_def [symmetric] e by auto
  have "io_view tp = io_view (w_tp w)" using apply_established_io [of "w_tp w" g "env_ms env"] e by simp
  then show "io_w w' = io_w w" "sk_log w' = sk_log w" using run by (simp_all add: io_w_def)
  have g: "frag_tcp_flags g = flags" "frag_sent_seq g = seq" by (simp_all add: g_def)
  show "frag_tcp_flags f = RTE_TCP_ACK_FLAG OR RTE_TCP_PSH_FLAG" "frag_sent_seq f = seq"
    using run g established_keeps [of "w_tp w" g "env_ms env" _ tp] e by (auto simp: frag_same_def flags_def split: option.splits)
qed

lemma data_mss_le: "unat (ucast (m :: u16) :: u32) < 65536"
  using unsigned_less [of m, where 'a = nat] by (simp add: unsigned_ucast_eq take_bit_nat_eq_self)

subsection \<open>Retransmissions\<close>

lemma retransmit_cases:
  assumes "tcp_tx_flush_recovery_retransmit env tx w = (r, w')"
  obtains (kept) "r \<notin> {TCP_SNDBUF_SENT, TCP_SNDBUF_DESTROYED}" "io_w w' = io_w w" "wire w' = wire w"
  | (sent) g chunk m where "r = TCP_SNDBUF_SENT" "io_w w' = io_w (log_fx (Fx_tx g) w)" "wire w' = Suc (wire w)" "tx (sk_log w) = Tx_ok"
      "tcp_sndbuf_peek (sndbuf (w_tp w)) (frag_sent_seq g) = Some chunk" "frag_tcp_flags g = RTE_TCP_ACK_FLAG OR RTE_TCP_PSH_FLAG"
      "frag_payload g = take m chunk" "m < 65536"
proof -
  define w1 where "w1 = upd_tp recovery_candidate w"
  define cand where "cand = pending (sack (w_tp w1))"
  let ?seq = "cand_seq cand" and ?stop = "cand_end cand"
  have i1: "io_w w1 = io_w w" and l1: "sk_log w1 = sk_log w" by (simp_all add: w1_def io_w_def io_same)
  have ic: "io_w (upd_tp tcp_sack_cancel_candidate v) = io_w v" for v by (simp add: io_w_def io_same)
  have ia: "io_w (log_fx (Fx_arp_wait x) v) = io_w v" for x v by (simp add: io_w_def)
  show ?thesis
  proof (cases "kind cand \<noteq> TCP_RECOVERY_TX_RETRANSMIT \<or> (sb_len (sndbuf (w_tp w1)) = 0 \<or> tcp_seq_lt ?seq (sb_head_seq (sndbuf (w_tp w1))) \<or>
      \<not> tcp_seq_lt ?seq ?stop \<or> tcp_seq_gt ?stop (tcp_sack_payload_flight_end (w_tp w1))) \<or> tcp_sndbuf_peek (sndbuf (w_tp w1)) ?seq = None \<or>
      tx (sk_log w1) = Tx_no_arp")
    case True
    then have "io_w w' = io_w w1 \<and> wire w' = wire w1 \<and> r \<notin> {TCP_SNDBUF_SENT, TCP_SNDBUF_DESTROYED}"
      using assms ic ia unfolding tcp_tx_flush_recovery_retransmit_def Let_def w1_def [symmetric] cand_def [symmetric]
      by (auto split: if_splits option.splits)
    then show ?thesis using i1 l1 by (intro kept) simp_all
  next
    case False
    then obtain chunk where pk: "tcp_sndbuf_peek (sndbuf (w_tp w1)) ?seq = Some chunk" by auto
    obtain ro f w2 where d: "tcp_data_fragment env w1 ?seq = (ro, f, w2)" by (metis prod_cases3)
    note df = data_fragment_ok [OF d]
    define mss :: u32 where "mss = ucast (tcp_options_data_mss (w_tp w2) (Some f))"
    define k1 where "k1 = (if ?stop - ?seq > mss then mss else ?stop - ?seq)"
    define k where "k = (if unat k1 > length chunk then of_nat (length chunk) else k1)"
    define g where "g = f\<lparr>frag_payload := take (unat k) chunk\<rparr>"
    have run: "(r, w') = (if ro = None then (TCP_SNDBUF_RETRY, w2)
        else if k = 0 then (TCP_SNDBUF_IDLE, upd_tp tcp_sack_cancel_candidate w2)
        else case tcp_build_pkt (tx (sk_log w2) \<noteq> Tx_no_mbuf) g of None \<Rightarrow> (TCP_SNDBUF_RETRY, w2)
          | Some f \<Rightarrow> if tx (sk_log w2) = Tx_ring_full then (TCP_SNDBUF_RETRY, w2) else (TCP_SNDBUF_SENT, recovery_sent env w2 f (?seq + k)))"
      using assms False unfolding tcp_tx_flush_recovery_retransmit_def Let_def w1_def [symmetric] cand_def [symmetric] pk d
        option.case prod.case mss_def [symmetric] k1_def [symmetric] k_def [symmetric] g_def [symmetric] by simp
    have "unat k1 < 65536" using data_mss_le [of "tcp_options_data_mss (w_tp w2) (Some f)"] by (auto simp: k1_def mss_def word_less_nat_alt)
    then have km: "unat k < 65536" by (auto simp: k_def unat_of_nat)
    have l2: "sk_log w2 = sk_log w" and i2: "io_w w2 = io_w w" using df(1,2) i1 l1 by simp_all
    have sb: "sndbuf (w_tp w1) = sndbuf (w_tp w)" using io_viewD(3) [OF io_wD(1) [OF i1]] .
    have i3: "io_w (recovery_sent env w2 g e) = io_w (log_fx (Fx_tx g) w)" "wire (recovery_sent env w2 g e) = Suc (wire w)" for e
      using i2 by (simp_all add: recovery_sent_def io_w_def io_same Let_def l2)
    have na: "tx (sk_log w2) \<noteq> Tx_no_arp" using False l1 l2 by simp
    from run build_or_fail [where tx = tx and l = "sk_log w2" and g = g and x = "(TCP_SNDBUF_RETRY, w2)" and y = "\<lambda>f. (TCP_SNDBUF_SENT, recovery_sent env w2 f (?seq + k))", OF refl na]
    have "io_w w' = io_w w \<and> wire w' = wire w \<and> r \<notin> {TCP_SNDBUF_SENT, TCP_SNDBUF_DESTROYED} \<or>
        (r, w') = (TCP_SNDBUF_SENT, recovery_sent env w2 g (?seq + k)) \<and> tx (sk_log w) = Tx_ok"
      using i2 l2 ic [of w2] by (cases "ro = None"; cases "k = 0") auto
    then show ?thesis
    proof
      assume "(r, w') = (TCP_SNDBUF_SENT, recovery_sent env w2 g (?seq + k)) \<and> tx (sk_log w) = Tx_ok"
      then show ?thesis using i3 pk sb df(3,4) km by (intro sent [of g chunk "unat k"]) (simp_all add: g_def)
    qed (intro kept, auto)
  qed
qed

subsection \<open>New data\<close>

lemma data_sent_cases:
  assumes "data_sent env w f k cif idle = (r, w')"
  obtains w1 where "io_w w1 = io_w (log_fx (Fx_tx f) (upd_tp (\<lambda>tp. tp\<lparr>sent_seq := sent_seq tp + k,
      sndbuf := (sndbuf tp)\<lparr>sb_unacked := sb_unacked (sndbuf tp) + k\<rparr>\<rparr>) w))" "wire w1 = Suc (wire w)"
    "(r, w') = (TCP_SNDBUF_SENT, w1) \<or> (r, w') = (TCP_SNDBUF_DESTROYED, tcp_abort_stream env w1 ENOBUFS True)"
proof -
  let ?w = "log_fx (Fx_tx f) (upd_tp (\<lambda>tp. tp\<lparr>sent_seq := sent_seq tp + k, sndbuf := (sndbuf tp)\<lparr>sb_unacked := sb_unacked (sndbuf tp) + k\<rparr>\<rparr>) w)"
  define buf_end where "buf_end = sb_head_seq (sndbuf (w_tp w)) + sb_len (sndbuf (w_tp w))"
  define cwnd where "cwnd = tcp_cc_send_window (w_tp w)"
  define w1 where "w1 = log_fx (Fx_tx f) (upd_tp (\<lambda>tp. tp\<lparr>ack_pending := False\<rparr>) w)"
  define w2 where "w2 = (if idle
               then upd_tp (\<lambda>tp. let tp = tcp_cc_on_idle_restart tp (env_ms env) (rto_ms tp)
                                  in tcp_rtt_note_xmit tp (frag_sent_seq f + k) (ts_last_val tp)) w1
               else w1)"
  define w3 where "w3 = upd_tp (\<lambda>tp. tp\<lparr>sent_seq := sent_seq tp + k,
                             sndbuf := (sndbuf tp)\<lparr>sb_unacked := sb_unacked (sndbuf tp) + k\<rparr>\<rparr>) w2"
  define w4 where "w4 = w3\<lparr>w_mem := (w_mem w3)\<lparr>mem_unacked_bytes := resource_acquire (mem_unacked_bytes (w_mem w3)) (ucast k)\<rparr>\<rparr>"
  define w5 where "w5 = upd_tp (\<lambda>tp. if kind (pending (sack tp)) = TCP_RECOVERY_TX_NEW_DATA
                             then tcp_sack_commit_candidate (env_range_pool env 0) tp (sent_seq tp)
                             else tcp_sack_note_new_data tp (sent_seq tp)) w4"
  define w6 where "w6 = upd_tp (\<lambda>tp. tp\<lparr>sack := (sack tp)\<lparr>limited_transmit := False\<rparr>\<rparr>) w5"
  define ca where "ca = (if UINT32_MAX - cif < k then UINT32_MAX else cif + k)"
  define w7 where "w7 = upd_tp (\<lambda>tp. tcp_cc_on_packet_sent tp \<lparr>tx_bytes = k, tx_now_ms = env_ms env, tx_retransmission = False,
                tx_cwnd_limited = (tcp_seq_lt (sent_seq tp) buf_end \<and> cwnd \<le> snd_wnd tp \<and> ca \<ge> cwnd)\<rparr>) w6"
  have "io_w w2 = io_w (log_fx (Fx_tx f) w)" by (simp add: w2_def w1_def io_w_def io_same Let_def)
  then have "io_w w3 = io_w ?w" by (simp add: w3_def io_w_def io_view_def)
  then have i7: "io_w w7 = io_w ?w" by (simp add: w7_def w6_def w5_def w4_def io_w_def io_same)
  have g7: "wire w7 = Suc (wire w)" by (simp add: w7_def w6_def w5_def w4_def w3_def w2_def w1_def)
  let ?w8 = "upd_tp (\<lambda>tp. tp\<lparr>retries := 0\<rparr>) w7"
  have i8: "io_w ?w8 = io_w ?w" using i7 by (simp add: io_w_def io_same)
  obtain ok w9 where a: "tcp_arm_data_rto env ?w8 (ucast (rto_ms (w_tp w7))) = (ok, w9)" by fastforce
  have i9: "io_w w9 = io_w ?w" "wire w9 = Suc (wire w)"
    using arm_io(1) [of env ?w8 "ucast (rto_ms (w_tp w7))"] arm_log [of env ?w8 "ucast (rto_ms (w_tp w7))"] a i8 g7 by simp_all
  have "(r, w') = (if idle then if ok then (TCP_SNDBUF_SENT, w9) else (TCP_SNDBUF_DESTROYED, tcp_abort_stream env w9 ENOBUFS True)
      else (TCP_SNDBUF_SENT, w7))"
    using assms unfolding data_sent_def Let_def buf_end_def [symmetric] cwnd_def [symmetric] w1_def [symmetric]
      w2_def [unfolded Let_def, symmetric] w3_def [symmetric] w4_def [symmetric] w5_def [symmetric] w6_def [symmetric] ca_def [symmetric]
      w7_def [symmetric] a by (cases ok) auto
  then show ?thesis using that [OF i7 g7] that [OF i9] by (auto split: if_splits)
qed

lemma credit_le: "unat (data_credit tp cif unsent avail) \<le> unat avail"
proof -
  have le: "(if c \<and> x > y then y else x) \<le> x" "(if z > avail then avail else z) \<le> avail" for c and x y z :: u32 by auto
  then have "data_credit tp cif unsent avail \<le> avail"
    unfolding data_credit_def Let_def by (auto intro: order_trans [OF le(1) le(2)] order_trans less_imp_le)
  then show ?thesis by (simp add: word_le_nat_alt)
qed

lemma sndbuf_cases:
  assumes "tcp_tx_flush_sndbuf env tx w = (r, w')"
  obtains (kept) "r \<notin> {TCP_SNDBUF_SENT, TCP_SNDBUF_DESTROYED}" "io_w w' = io_w w" "wire w' = wire w"
  | (sent) g k chunk cif tp1 idle w2 where "data_sent env w2 g k cif idle = (r, w')" "io_w w2 = io_w w" "sk_log w2 = sk_log w"
      "tx (sk_log w) = Tx_ok" "tcp_seq_lt (sent_seq (w_tp w)) (sb_head_seq (sndbuf (w_tp w)) + sb_len (sndbuf (w_tp w)))"
      "tcp_sndbuf_peek (sndbuf (w_tp w)) (sent_seq (w_tp w)) = Some chunk" "frag_sent_seq g = sent_seq (w_tp w)"
      "frag_tcp_flags g = RTE_TCP_ACK_FLAG OR RTE_TCP_PSH_FLAG" "frag_payload g = take (unat k) chunk" "unat k < 65536"
      "k \<le> data_credit tp1 cif (sb_head_seq (sndbuf (w_tp w)) + sb_len (sndbuf (w_tp w)) - sent_seq (w_tp w)) (of_nat (length chunk))"
      "(if mode (sack (w_tp w)) = TCP_RECOVERY_SACK \<or> limited_transmit (sack (w_tp w))
        then tcp_sack_set_pipe (w_tp w) (tcp_sack_payload_flight_end (w_tp w)) else (sent_seq (w_tp w) - snd_una (w_tp w), w_tp w)) = (cif, tp1)"
      "k \<noteq> 0"
proof -
  define tp where "tp = w_tp w"
  define buf_end where "buf_end = sb_head_seq (sndbuf tp) + sb_len (sndbuf tp)"
  show ?thesis
  proof (cases "status tp \<notin> {TCP_STATUS_ESTABLISHED, TCP_STATUS_CLOSE_WAIT, TCP_STATUS_FIN_WAIT_1, TCP_STATUS_CLOSING, TCP_STATUS_LAST_ACK} \<or>
      sb_chunks (sndbuf tp) = [] \<or> sb_len (sndbuf tp) = 0 \<or> \<not> tcp_seq_lt (sent_seq tp) buf_end \<or> tcp_sndbuf_peek (sndbuf tp) (sent_seq tp) = None")
    case True
    then have "w' = w \<and> r = TCP_SNDBUF_IDLE" using assms unfolding tcp_tx_flush_sndbuf_def Let_def tp_def [symmetric] buf_end_def [symmetric]
      by (auto split: if_splits)
    then show ?thesis by (intro kept) simp_all
  next
    case False
    then obtain chunk where pk: "tcp_sndbuf_peek (sndbuf tp) (sent_seq tp) = Some chunk" and lt: "tcp_seq_lt (sent_seq tp) buf_end" by auto
    have F: "\<not> status tp \<notin> {TCP_STATUS_ESTABLISHED, TCP_STATUS_CLOSE_WAIT, TCP_STATUS_FIN_WAIT_1, TCP_STATUS_CLOSING, TCP_STATUS_LAST_ACK}"
      "\<not> (sb_chunks (sndbuf tp) = [] \<or> sb_len (sndbuf tp) = 0 \<or> \<not> tcp_seq_lt (sent_seq tp) buf_end)" using False by blast+
    define unsent where "unsent = buf_end - sent_seq tp"
    define in_flight where "in_flight = sent_seq tp - snd_una tp"
    define idle where "idle \<longleftrightarrow> snd_una tp = sent_seq tp"
    obtain cif tp1 where sp: "(if mode (sack tp) = TCP_RECOVERY_SACK \<or> limited_transmit (sack tp)
               then tcp_sack_set_pipe tp (tcp_sack_payload_flight_end tp) else (in_flight, tp)) = (cif, tp1)" by fastforce
    define w1 where "w1 = w\<lparr>w_tp := tp1\<rparr>"
    define k1 where "k1 = data_credit tp1 cif unsent (of_nat (length chunk))"
    obtain ro f w2 where d: "tcp_data_fragment env w1 (sent_seq tp1) = (ro, f, w2)" by (metis prod_cases3)
    define mss :: u32 where "mss = ucast (tcp_options_data_mss (w_tp w2) (Some f))"
    define nagle where "nagle \<longleftrightarrow> \<not> sk_nodelay w2 \<and> in_flight \<noteq> 0 \<and> unsent < mss \<and> \<not> sk_app_closed w2 \<and>
        kind (pending (sack (w_tp w2))) \<noteq> TCP_RECOVERY_TX_NEW_DATA"
    define k where "k = (if k1 > mss then mss else k1)"
    define g where "g = f\<lparr>frag_payload := take (unat k) chunk\<rparr>"
    have io1: "io_view tp1 = io_view tp" using sp sack_ops_io(3) [of tp "tcp_sack_payload_flight_end tp"] by (metis snd_conv)
    have i1: "io_w w1 = io_w w" "sk_log w1 = sk_log w" using io1 by (simp_all add: w1_def io_w_def tp_def)
    note df = data_fragment_ok [OF d]
    have i2: "io_w w2 = io_w w" "sk_log w2 = sk_log w" using df(1,2) i1 by simp_all
    have run: "(r, w') = (if k1 = 0 then (TCP_SNDBUF_IDLE, w1)
        else if tx (sk_log w1) = Tx_no_arp then (TCP_SNDBUF_ARP_WAIT, log_fx (Fx_arp_wait (remote_ip tp1)) w1)
        else if nagle then (TCP_SNDBUF_IDLE, w2)
        else if k = 0 then (TCP_SNDBUF_IDLE, w2)
        else case tcp_build_pkt (tx (sk_log w2) \<noteq> Tx_no_mbuf) g of None \<Rightarrow> (TCP_SNDBUF_RETRY, w2)
              | Some f \<Rightarrow> if tx (sk_log w2) = Tx_ring_full then (TCP_SNDBUF_RETRY, w2) else data_sent env w2 f k cif idle)"
      using assms unfolding tcp_tx_flush_sndbuf_def Let_def tp_def [symmetric] buf_end_def [symmetric] if_not_P [OF F(1)] if_not_P [OF F(2)]
        pk option.case prod.case unsent_def [symmetric] in_flight_def [symmetric] idle_def [symmetric] sp w1_def [symmetric] k1_def [symmetric] d
        mss_def [symmetric] nagle_def [symmetric] k_def [symmetric] g_def [symmetric] by (rule sym)
    have ia: "io_w (log_fx (Fx_arp_wait x) w1) = io_w w" for x using i1 by (simp add: io_w_def)
    have "io_w w' = io_w w \<and> wire w' = wire w \<and> r \<notin> {TCP_SNDBUF_SENT, TCP_SNDBUF_DESTROYED} \<or>
        (r, w') = data_sent env w2 g k cif idle \<and> tx (sk_log w) = Tx_ok \<and> k \<noteq> 0"
    proof (cases "tx (sk_log w1) = Tx_no_arp")
      case True
      then show ?thesis using run i1 ia by (auto split: if_splits)
    next
      case False
      then have na: "tx (sk_log w2) \<noteq> Tx_no_arp" using i1(2) i2(2) by simp
      from run build_or_fail [where tx = tx and l = "sk_log w2" and g = g and x = "(TCP_SNDBUF_RETRY, w2)" and y = "\<lambda>f. data_sent env w2 f k cif idle",
          OF refl na] False
      show ?thesis using i1 i2 by (cases "k1 = 0"; cases nagle; cases "k = 0") auto
    qed
    then show ?thesis
    proof
      assume ds: "(r, w') = data_sent env w2 g k cif idle \<and> tx (sk_log w) = Tx_ok \<and> k \<noteq> 0"
      have "unat k \<le> unat mss" "k \<le> k1" by (auto simp: k_def word_less_nat_alt word_le_nat_alt)
      moreover have "unat mss < 65536" unfolding mss_def by (rule data_mss_le)
      moreover have "frag_sent_seq g = sent_seq (w_tp w)" using df(4) io_viewD(1) [OF io1] by (simp add: g_def tp_def)
      ultimately show ?thesis
        using ds i2 pk lt df(3) by (intro sent [OF _ _ _ _ _ _ _ _ _ _ _ sp [unfolded in_flight_def tp_def], of w2 g k idle chunk])
          (simp_all add: g_def k1_def unsent_def buf_end_def tp_def)
    qed (intro kept, auto)
  qed
qed

end
