(* ===== verification/Tcp_Flush.thy ===== *)
theory Tcp_Flush
  imports Tcp_Flush_Cases
begin

text \<open>
  Transmission and the sender's invariant: whatever \<^const>\<open>tcp_tx_flush\<close> puts on the wire is a queued control
  segment or bytes of the stream at their own position, for every answer of the ARP table, the packet
  pool and the NIC.
\<close>

text \<open>The receive side, the state and the error are as before.\<close>

definition rx_kept :: "'p tcp_world \<Rightarrow> 'p tcp_world \<Rightarrow> bool" where
  "rx_kept w w' \<longleftrightarrow> rx_same (w_tp w) (w_tp w') \<and> status (w_tp w') = status (w_tp w) \<and>
     sk_terminal_error w' = sk_terminal_error w \<and> sk_app_closed w' = sk_app_closed w"

lemma rx_kept_io: "io_w w' = io_w w \<Longrightarrow> rx_kept w w'"
  by (auto simp: rx_kept_def io_w_def io_view_def rx_same_def queue_same_def)

lemma rx_kept_trans: "rx_kept w w1 \<Longrightarrow> rx_kept w1 w2 \<Longrightarrow> rx_kept w w2"
  by (auto simp: rx_kept_def intro: rx_same_trans)

text \<open>Changing only the fields of the sending side keeps the receive side.\<close>

lemma rx_kept_tx:
  fixes w w' :: "'p tcp_world"
  assumes "io_w w' = io_w (upd_tp (\<lambda>tp. tp\<lparr>sent_seq := sq tp, sndbuf := sb tp, tx_queue := fs tp, fin_deferred := d tp\<rparr>) w)"
  shows "rx_kept w w'"
  using assms by (auto simp: rx_kept_def io_w_def io_view_def rx_same_def queue_same_def)

subsection \<open>One segment on the wire\<close>

lemma emit_ok:
  fixes w w' :: "'p tcp_world"
  assumes "tx_core A b q n fin ufin (w_tp w')" "\<forall>f \<in> set (tx_queue (w_tp w)). ctl_ok A b fin f"
    and "\<forall>f \<in> emitted w. ctl_ok A b fin f \<or> data_ok A b f" "fin_legal fin (w_tp w)" "status (w_tp w) \<in> live_states"
    and "emitted w' = insert f (emitted w)" "ctl_ok A b fin f \<or> data_ok A b f"
    and "tx_queue (w_tp w') = tx_queue (w_tp w)" "status (w_tp w') = status (w_tp w)" "fin_deferred (w_tp w') = fin_deferred (w_tp w)"
  shows "tx_ok A b w'"
  by (rule tx_okI [OF assms(1)]) (use assms in \<open>auto simp: fin_legal_def\<close>)

text \<open>The bytes at a position of the send buffer, cut to a segment, are a data segment of the stream.\<close>

lemma peeked_ok:
  assumes "tx_core A b q n fin ufin tp" "tcp_sndbuf_peek (sndbuf tp) seq = Some chunk"
    and "frag_tcp_flags f = RTE_TCP_ACK_FLAG OR RTE_TCP_PSH_FLAG" "frag_sent_seq f = seq" "frag_payload f = take m chunk" "m < 65536"
  shows "data_ok A b f"
proof -
  note c = assms(1) [unfolded tx_core_def]
  obtain k where k: "k < length (drop q A)" "seq = b + of_nat q + of_nat k" "chunk = take (length chunk) (drop k (drop q A))"
      "k + length chunk \<le> length (drop q A)"
    using peek_found [OF conjunct1 [OF c] assms(2)] c by auto
  have "frag_payload f = take (length (frag_payload f)) (drop (q + k) A)"
    using assms(5) k(3) by (metis drop_drop add.commute length_take min.commute take_take take_all_iff nle_le)
  moreover have "length (frag_payload f) \<le> length chunk" "length (frag_payload f) < 65536" using assms(5,6) by auto
  ultimately show ?thesis
    unfolding data_ok_def using assms(3,4) k by (intro conjI exI [of _ "q + k"]) auto
qed

subsection \<open>Queued control segments\<close>

lemma requeue_io:
  assumes "requeue_or_free env w f res = (r, w')"
  shows "io_w w' = io_w w \<or> io_w w' = io_w (upd_tp (\<lambda>tp. tp\<lparr>tx_queue := f # tx_queue tp\<rparr>) w)"
  using assms by (auto simp: requeue_or_free_def nsock_tcp_tx_requeue_head_def tcp_fragment_free_def upd_tp_def io_w_def Let_def split: if_splits)

lemma flush_control_one_cases:
  assumes "flush_control_one env tx w f = (r, w')"
  shows "case r of
      Some _ \<Rightarrow> io_w w' = io_w w \<or> io_w w' = io_w (upd_tp (\<lambda>tp. tp\<lparr>tx_queue := f # tx_queue tp\<rparr>) w)
    | None \<Rightarrow> io_w w' = io_w (log_fx (Fx_tx f) w)"
proof -
  have rq: "\<exists>r1. r = Some r1 \<and> requeue_or_free env w f res = (r1, w')" if "apfst Some (requeue_or_free env w f res) = (r, w')" for res
    using that by (cases "requeue_or_free env w f res") auto
  have "io_w w' = io_w (log_fx (Fx_tx f) w) \<and> r = None \<or> (\<exists>res. apfst Some (requeue_or_free env w f res) = (r, w'))"
    using assms by (auto dest!: build_same simp: flush_control_one_def Let_def tcp_fragment_free_def io_w_def io_same split: if_splits option.splits)
  then show ?thesis using rq requeue_io by fastforce
qed

lemma flush_control_ok:
  assumes "tx_ok A b w" "tx_queue (w_tp w) = fs" "flush_control env tx w fs = (r, w')"
  shows "tx_ok A b w'" "emitted w \<subseteq> emitted w'" "rx_kept w w'" "r = None \<Longrightarrow> tx_queue (w_tp w') = []"
proof -
  have "tx_ok A b w' \<and> emitted w \<subseteq> emitted w' \<and> rx_kept w w' \<and> (r = None \<longrightarrow> tx_queue (w_tp w') = [])"
    using assms
  proof (induction env tx w fs rule: flush_control.induct)
    case (2 env tx w f fs)
    from 2(2) obtain q n fin ufin where l: "tx_core A b q n fin ufin (w_tp w)" "\<forall>f \<in> set (tx_queue (w_tp w)). ctl_ok A b fin f"
      "\<forall>f \<in> emitted w. ctl_ok A b fin f \<or> data_ok A b f" "fin_legal fin (w_tp w)" "status (w_tp w) \<in> live_states" by (rule tx_okE)
    define w1 where "w1 = upd_tp (\<lambda>tp. tp\<lparr>tx_queue := fs\<rparr>) w"
    obtain r1 w2 where o: "flush_control_one env tx w1 f = (r1, w2)" by fastforce
    have cf: "ctl_ok A b fin f" using l(2) 2(3) by simp
    have emitted_w1: "emitted w1 = emitted w" by (simp add: w1_def)
    have c1: "tx_core A b q n fin ufin (w_tp w1)" using l(1) tx_core_cong [of "w_tp w1" "w_tp w"] by (simp add: w1_def)
    have t1: "tx_ok A b w1" by (rule tx_okI [OF c1]) (use l 2(3) in \<open>auto simp: w1_def fin_legal_def\<close>)
    have "tx_ok A b (upd_tp (\<lambda>tp. tp\<lparr>tx_queue := f # tx_queue tp\<rparr>) w1)" (is "tx_ok A b ?w")
    proof (rule tx_okI)
      show "tx_core A b q n fin ufin (w_tp ?w)" using c1 tx_core_cong [of "w_tp ?w" "w_tp w1"] by simp
    qed (use l 2(3) cf in \<open>auto simp: w1_def fin_legal_def\<close>)
    then have S: "tx_ok A b w2 \<and> emitted w2 = emitted w" if "r1 = Some x" for x
      using flush_control_one_cases [OF o] that t1 quiet_ok [OF quiet_io] io_wD(2) [of w2 w1]
        io_wD(2) [of w2 "upd_tp (\<lambda>tp. tp\<lparr>tx_queue := f # tx_queue tp\<rparr>) w1"] emitted_w1 by auto
    have "tx_ok A b w2 \<and> tx_queue (w_tp w2) = fs \<and> emitted w \<subseteq> emitted w2" if "r1 = None"
    proof -
      have i: "io_w w2 = io_w (log_fx (Fx_tx f) w1)" using flush_control_one_cases [OF o] that by simp
      have "tx_ok A b (log_fx (Fx_tx f) w1)"
        by (rule tx_okI [OF c1 [folded log_fx_fields(1) [of "Fx_tx f" w1]]]) (use l 2(3) cf in \<open>auto simp: w1_def fin_legal_def\<close>)
      then show ?thesis using quiet_ok [OF quiet_io [OF i]] io_viewD(5) [OF io_wD(1) [OF i]] io_wD(2) [OF i] by (auto simp: w1_def)
    qed
    moreover have "rx_kept w w2"
    proof -
      have "rx_kept w w1" by (rule rx_kept_tx [where sq = sent_seq and sb = sndbuf and d = fin_deferred and fs = "\<lambda>_. fs"]) (simp add: w1_def)
      moreover have "rx_kept w1 w2"
        using flush_control_one_cases [OF o] by (auto simp: rx_kept_def io_w_def io_view_def rx_same_def queue_same_def split: option.splits)
      ultimately show ?thesis by (rule rx_kept_trans)
    qed
    ultimately show ?case using 2(1) 2(4) S o rx_kept_trans [of w w2 w'] by (cases r1) (auto simp: w1_def)
  qed (simp add: rx_kept_io)
  then show "tx_ok A b w'" "emitted w \<subseteq> emitted w'" "rx_kept w w'" "r = None \<Longrightarrow> tx_queue (w_tp w') = []" by auto
qed

subsection \<open>Retransmissions\<close>

lemma retransmit_ok:
  assumes "tx_ok A b w" "tcp_tx_flush_recovery_retransmit env tx w = (r, w')"
  shows "tx_ok A b w'" "tx_queue (w_tp w') = tx_queue (w_tp w)" "emitted w \<subseteq> emitted w'" "rx_kept w w'" "r \<noteq> TCP_SNDBUF_DESTROYED"
proof -
  have "tx_ok A b w' \<and> tx_queue (w_tp w') = tx_queue (w_tp w) \<and> emitted w \<subseteq> emitted w' \<and> rx_kept w w' \<and> r \<noteq> TCP_SNDBUF_DESTROYED"
    using assms(2)
  proof (cases rule: retransmit_cases)
    case kept
    then show ?thesis using quiet_ok [OF quiet_io [OF kept(2)] assms(1)] io_viewD(5) [OF io_wD(1) [OF kept(2)]] io_wD(2) [OF kept(2)] rx_kept_io [OF kept(2)] by simp
  next
    case (sent g chunk m)
    from assms(1) obtain q n fin ufin where l: "tx_core A b q n fin ufin (w_tp w)" "\<forall>f \<in> set (tx_queue (w_tp w)). ctl_ok A b fin f"
      "\<forall>f \<in> emitted w. ctl_ok A b fin f \<or> data_ok A b f" "fin_legal fin (w_tp w)" "status (w_tp w) \<in> live_states" by (rule tx_okE)
    have "data_ok A b g" by (rule peeked_ok [OF l(1) sent(5,6) refl sent(7,8)])
    then have "tx_ok A b (log_fx (Fx_tx g) w)" by (intro emit_ok [OF _ l(2-5), where f = g]) (use l(1) in auto)
    then have "tx_ok A b w'" by (rule quiet_ok [OF quiet_io [OF sent(2)]])
    moreover have "rx_kept w w'" using sent(2) by (auto simp: rx_kept_def io_w_def io_view_def rx_same_def queue_same_def)
    ultimately show ?thesis using io_viewD(5) [OF io_wD(1) [OF sent(2)]] io_wD(2) [OF sent(2)] sent(1) by auto
  qed
  then show "tx_ok A b w'" "tx_queue (w_tp w') = tx_queue (w_tp w)" "emitted w \<subseteq> emitted w'" "rx_kept w w'" "r \<noteq> TCP_SNDBUF_DESTROYED" by auto
qed

lemma flush_recovery_ok:
  assumes "flush_recovery env tx w = Some y" "tx_ok A b w"
  shows "tx_ok A b (snd y) \<and> tx_queue (w_tp (snd y)) = tx_queue (w_tp w) \<and> emitted w \<subseteq> emitted (snd y) \<and> rx_kept w (snd y) \<and> fst y \<notin> {TCP_SNDBUF_SENT, TCP_SNDBUF_DESTROYED}"
    (is "?P w y")
proof -
  have "tx_ok A b w \<longrightarrow> ?P w y"
  proof (rule flush_recovery.raw_induct [OF _ assms(1), where P = "\<lambda>env tx w y. tx_ok A b w \<longrightarrow> ?P w y"], rule impI)
    fix rec env tx w y
    assume IH: "\<And>env tx w y. rec env tx w = Some y \<Longrightarrow> tx_ok A b w \<longrightarrow> ?P w y" and t: "tx_ok A b w"
      and run: "(case tcp_tx_flush_recovery_retransmit env tx w of (r, w) \<Rightarrow> if r = TCP_SNDBUF_SENT then rec env tx w else Some (r, w)) = Some y"
    obtain r w1 where s: "tcp_tx_flush_recovery_retransmit env tx w = (r, w1)" by fastforce
    note h = retransmit_ok [OF t s]
    show "?P w y"
    proof (cases "r = TCP_SNDBUF_SENT")
      case True
      then show ?thesis using IH [of env tx w1 y] run s h rx_kept_trans [of w w1 "snd y"] by auto
    next
      case False
      then show ?thesis using run s h by auto
    qed
  qed
  then show ?thesis using assms(2) by blast
qed

subsection \<open>New data\<close>

text \<open>The invariant, or what is left of it once the connection is closed.\<close>

definition tx_inv :: "byte list \<Rightarrow> u32 \<Rightarrow> 'p tcp_world \<Rightarrow> bool" where
  "tx_inv A b w \<longleftrightarrow> tx_ok A b w \<or>
     status (w_tp w) = TCP_STATUS_CLOSED \<and> (\<exists>fin. \<forall>f \<in> emitted w. ctl_ok A b fin f \<or> data_ok A b f)"

lemma abort_emitted [simp]: "emitted (tcp_abort_stream env w e r) = emitted w"
  using abort_aborted [of w env e r] by (simp add: aborted_def)

lemma tx_ok_emitted: "tx_ok A b w \<Longrightarrow> \<exists>fin. \<forall>f \<in> emitted w. ctl_ok A b fin f \<or> data_ok A b f"
  by (elim tx_okE) blast

lemma held_inv: "tx_ok A b w \<Longrightarrow> held A b w w' \<Longrightarrow> tx_inv A b w'"
  using tx_ok_emitted by (auto simp: tx_inv_def held_def)

lemma core_sent:
  assumes "tx_core A b q n False ufin tp" "n + unat k \<le> length A"
  shows "tx_core A b q (n + unat k) False ufin
    (tp\<lparr>sent_seq := sent_seq tp + k, sndbuf := (sndbuf tp)\<lparr>sb_unacked := sb_unacked (sndbuf tp) + k\<rparr>\<rparr>)"
proof -
  note c = assms(1) [unfolded tx_core_def]
  have u: "of_nat (n - q) + k = of_nat (n + unat k - q)" using c by simp
  have "n + unat k - q \<le> 65536" using c assms(2) by auto
  then have "unat (of_nat (n + unat k - q) :: u32) = n + unat k - q" by (simp add: unat_of_nat del: of_nat_diff)
  then have "of_nat (n + unat k - q) \<le> sb_len (sndbuf tp)"
    using c assms(2) by (auto simp: word_le_nat_alt sndbuf_ok_def simp del: of_nat_diff)
  then have "sndbuf_ok ((sndbuf tp)\<lparr>sb_unacked := of_nat (n + unat k - q)\<rparr>)"
    using conjunct1 [OF c] by (simp add: sndbuf_ok_def sndbuf_bytes_def del: of_nat_diff)
  moreover have "sndbuf_bytes ((sndbuf tp)\<lparr>sb_unacked := x\<rparr>) = sndbuf_bytes (sndbuf tp)" for x by (simp add: sndbuf_bytes_def)
  moreover have "b + of_nat n + k = b + of_nat (n + unat k)" by simp
  ultimately show ?thesis using c assms(2) u by (auto simp add: tx_core_def simp del: of_nat_diff of_nat_add)
qed

lemma data_sent_ok:
  assumes "tx_core A b q n False ufin (w_tp w)" "\<forall>f \<in> set (tx_queue (w_tp w)). ctl_ok A b False f"
    and "\<forall>f \<in> emitted w. ctl_ok A b False f \<or> data_ok A b f" "fin_legal False (w_tp w)" "status (w_tp w) \<in> live_states"
    and "n + unat k \<le> length A" "data_ok A b f" "data_sent env w f k cif idle = (r, w')"
  shows "tx_inv A b w'" "emitted w \<subseteq> emitted w'" "r = TCP_SNDBUF_SENT \<Longrightarrow> rx_kept w w'" "r \<noteq> TCP_SNDBUF_SENT \<Longrightarrow> torn_down w'"
    "r = TCP_SNDBUF_SENT \<Longrightarrow> tx_ok A b w' \<and> tx_queue (w_tp w') = tx_queue (w_tp w)"
    "r = TCP_SNDBUF_SENT \<or> r = TCP_SNDBUF_DESTROYED"
proof -
  let ?w = "log_fx (Fx_tx f) (upd_tp (\<lambda>tp. tp\<lparr>sent_seq := sent_seq tp + k, sndbuf := (sndbuf tp)\<lparr>sb_unacked := sb_unacked (sndbuf tp) + k\<rparr>\<rparr>) w)"
  have t: "tx_ok A b ?w" by (rule emit_ok [OF _ assms(2-5), where f = f]) (use core_sent [OF assms(1,6)] assms(7) in auto)
  from assms(8) obtain w1 where i: "io_w w1 = io_w ?w" and "wire w1 = Suc (wire w)" and run: "(r, w') = (TCP_SNDBUF_SENT, w1) \<or> (r, w') = (TCP_SNDBUF_DESTROYED, tcp_abort_stream env w1 ENOBUFS True)"
    by (rule data_sent_cases)
  have "rx_kept w ?w" by (simp add: rx_kept_def rx_same_def queue_same_def)
  then have k1: "rx_kept w w1" by (rule rx_kept_trans [OF _ rx_kept_io [OF i]])
  have t1: "tx_ok A b w1" by (rule quiet_ok [OF quiet_io [OF i] t])
  have td: "torn_down (tcp_abort_stream env w1 ENOBUFS True)" using abort_aborted [of w1 env ENOBUFS True] by (simp add: aborted_def)
  have "tx_inv A b (tcp_abort_stream env w1 ENOBUFS True)" "tx_inv A b w1"
    by (rule held_inv [OF t1 abort_held [OF refl]]) (rule held_inv [OF t1 held_refl [OF t1]])
  then show "tx_inv A b w'" "emitted w \<subseteq> emitted w'" "r = TCP_SNDBUF_SENT \<Longrightarrow> rx_kept w w'" "r \<noteq> TCP_SNDBUF_SENT \<Longrightarrow> torn_down w'"
    "r = TCP_SNDBUF_SENT \<Longrightarrow> tx_ok A b w' \<and> tx_queue (w_tp w') = tx_queue (w_tp w)"
    "r = TCP_SNDBUF_SENT \<or> r = TCP_SNDBUF_DESTROYED"
    using run t1 k1 td io_wD(2) [OF i] io_viewD(5) [OF io_wD(1) [OF i]] by auto
qed

text \<open>Unsent bytes remain only before the FIN is numbered, and the next of them is at \<open>sent_seq\<close>.\<close>

lemma unsent_no_fin:
  assumes "tx_core A b q n fin ufin tp" "tcp_seq_lt (sent_seq tp) (sb_head_seq (sndbuf tp) + sb_len (sndbuf tp))"
  shows "\<not> fin"
proof
  assume "fin"
  note c = assms(1) [unfolded tx_core_def]
  have "sb_len (sndbuf tp) = of_nat (unat (sb_len (sndbuf tp)))" by simp
  also have "\<dots> = of_nat (length A - q)" using c by (simp add: sndbuf_ok_def del: of_nat_diff)
  finally have "sb_head_seq (sndbuf tp) + sb_len (sndbuf tp) = b + of_nat (length A)" using c by auto
  then have "sent_seq tp - (sb_head_seq (sndbuf tp) + sb_len (sndbuf tp)) = 1" using c \<open>fin\<close> by (simp only:) simp
  then show False using assms(2) by (simp add: tcp_seq_lt_def)
qed

lemma unat_small_u32: "m < 4294967296 \<Longrightarrow> unat (of_nat m :: u32) = m"
  by (simp add: unat_of_nat)

lemma unsent_bound:
  assumes "tx_core A b q n False ufin tp" "tcp_sndbuf_peek (sndbuf tp) (sent_seq tp) = Some chunk"
  shows "n + length chunk \<le> length A"
proof -
  note c = assms(1) [unfolded tx_core_def]
  obtain k where k: "k < length (drop q A)" "sent_seq tp = b + of_nat q + of_nat k" "k + length chunk \<le> length (drop q A)"
    using peek_found [OF conjunct1 [OF c] assms(2)] c by auto
  have "of_nat (n - q) = (of_nat k :: u32)" using k(2) c by simp
  moreover have "k < 4294967296" "n - q < 4294967296" using k(1) c by auto
  ultimately have "n - q = k" by (metis unat_small_u32)
  then show ?thesis using k(3) c by auto
qed

lemma flush_sndbuf_ok:
  assumes "tx_ok A b w" "tcp_tx_flush_sndbuf env tx w = (r, w')"
  shows "tx_inv A b w'" "emitted w \<subseteq> emitted w'"
    "r \<noteq> TCP_SNDBUF_DESTROYED \<Longrightarrow> tx_ok A b w' \<and> tx_queue (w_tp w') = tx_queue (w_tp w) \<and> rx_kept w w'" "r = TCP_SNDBUF_DESTROYED \<Longrightarrow> torn_down w'"
proof -
  have "tx_inv A b w' \<and> emitted w \<subseteq> emitted w' \<and>
    (r \<noteq> TCP_SNDBUF_DESTROYED \<longrightarrow> tx_ok A b w' \<and> tx_queue (w_tp w') = tx_queue (w_tp w) \<and> rx_kept w w') \<and>
    (r = TCP_SNDBUF_DESTROYED \<longrightarrow> torn_down w')"
    using assms(2)
  proof (cases rule: sndbuf_cases)
    case kept
    then show ?thesis
      using quiet_ok [OF quiet_io [OF kept(2)] assms(1)] io_viewD(5) [OF io_wD(1) [OF kept(2)]] io_wD(2) [OF kept(2)] rx_kept_io [OF kept(2)]
      by (simp add: tx_inv_def)
  next
    case (sent g k chunk cif tp1 idle w2)
    note io = io_viewD [OF io_wD(1) [OF sent(2)]] and em = io_wD(2) [OF sent(2)]
    have "tx_ok A b w2" by (rule quiet_ok [OF quiet_io [OF sent(2)] assms(1)])
    then obtain q n fin ufin where l: "tx_core A b q n fin ufin (w_tp w2)" "\<forall>f \<in> set (tx_queue (w_tp w2)). ctl_ok A b fin f"
      "\<forall>f \<in> emitted w2. ctl_ok A b fin f \<or> data_ok A b f" "fin_legal fin (w_tp w2)" "status (w_tp w2) \<in> live_states" by (rule tx_okE)
    have nf: "fin = False" using unsent_no_fin [OF l(1)] sent(5) by (simp add: io)
    have lc: "n + length chunk \<le> length A" using unsent_bound [OF l(1) [unfolded nf], of chunk] sent(6) by (simp add: io)
    have cl: "length chunk \<le> 65536"
      using peek_found [of "sndbuf (w_tp w)", OF _ sent(6)] l(1) by (auto simp: tx_core_def io)
    have "unat k \<le> unat (of_nat (length chunk) :: u32)" using sent(11) credit_le [of tp1 cif _ "of_nat (length chunk)"]
      by (meson order_trans word_le_nat_alt)
    then have ks: "n + unat k \<le> length A" using lc cl by (simp add: unat_small_u32)
    have dg: "data_ok A b g" by (rule peeked_ok [OF l(1), of "sent_seq (w_tp w)" chunk g "unat k"]) (use sent io in simp_all)
    note ds = data_sent_ok [OF l [unfolded nf] ks dg sent(1)]
    have "rx_kept w w'" if "r = TCP_SNDBUF_SENT" by (rule rx_kept_trans [OF rx_kept_io [OF sent(2)] ds(3) [OF that]])
    then show ?thesis using ds em io by (auto simp: tx_inv_def)
  qed
  then show "tx_inv A b w'" "emitted w \<subseteq> emitted w'"
    "r \<noteq> TCP_SNDBUF_DESTROYED \<Longrightarrow> tx_ok A b w' \<and> tx_queue (w_tp w') = tx_queue (w_tp w) \<and> rx_kept w w'"
    "r = TCP_SNDBUF_DESTROYED \<Longrightarrow> torn_down w'" by auto
qed

subsection \<open>The flush\<close>

text \<open>The deferred FIN goes out when every byte has been sent.\<close>

lemma all_sent:
  assumes "tx_core A b q n False ufin tp" "sent_seq tp = snd_una tp + sb_len (sndbuf tp)"
  shows "n = length A"
proof -
  note c = assms(1) [unfolded tx_core_def]
  have "sb_len (sndbuf tp) = of_nat (unat (sb_len (sndbuf tp)))" by simp
  also have "\<dots> = of_nat (length A - q)" using c by (simp add: sndbuf_ok_def del: of_nat_diff)
  finally have "(of_nat n :: u32) = of_nat (length A)" using c assms(2) by auto
  then have "of_nat (n - q) = (of_nat (length A - q) :: u32)" using c by simp
  moreover have "n - q < 4294967296" "length A - q < 4294967296" using c by auto
  ultimately have "n - q = length A - q" by (metis unat_small_u32)
  then show ?thesis using c by auto
qed

lemma flush_tail_ok:
  assumes "tx_ok A b w" "flush_tail env w = (r, w')"
  shows "tx_inv A b w'" "emitted w' = emitted w" "rx_kept w w' \<or> torn_down w'" "r = None \<Longrightarrow> tx_ok A b w' \<and> rx_kept w w'"
proof -
  let ?tp = "w_tp w"
  have "tx_inv A b w' \<and> emitted w' = emitted w \<and> (rx_kept w w' \<or> torn_down w') \<and> (r = None \<longrightarrow> tx_ok A b w' \<and> rx_kept w w')"
  proof (cases "ack_pending ?tp")
    case True
    obtain fo w1 where m: "tcp_make_fragment env w RTE_TCP_ACK_FLAG (sent_seq ?tp) (recv_ack ?tp) = (fo, w1)" by fastforce
    obtain k w2 where e: "tcp_enqueue_fragment env w1 fo = (k, w2)" by fastforce
    have t2: "tx_ok A b w2" by (rule quiet_ok [OF quiet_ack(1) [OF m e] assms(1)])
    have "io_w (upd_tp (\<lambda>tp. tp\<lparr>ack_pending := False\<rparr>) w2) = io_w w2" by (simp add: io_w_def io_same)
    then have "tx_ok A b (upd_tp (\<lambda>tp. tp\<lparr>ack_pending := False\<rparr>) w2)" by (rule quiet_ok [OF quiet_io t2])
    moreover have "(r, w') = (if k then (None, upd_tp (\<lambda>tp. tp\<lparr>ack_pending := False\<rparr>) w2) else (Some SOCK_TX_FLUSH_RETRY, w2))"
      using assms(2) True unfolding flush_tail_def Let_def m prod.case e by (cases k) simp_all
    moreover have "rx_kept w w2" using quietD(2,3) [OF quiet_ack(1) [OF m e]] quiet_ack(2,3) [OF m e] by (simp add: rx_kept_def)
    moreover have "rx_kept w (upd_tp (\<lambda>tp. tp\<lparr>ack_pending := False\<rparr>) w2)"
      by (rule rx_kept_trans [OF \<open>rx_kept w w2\<close> rx_kept_io]) (simp add: io_w_def io_same)
    ultimately show ?thesis using t2 quietD(1) [OF quiet_ack(1) [OF m e]] by (cases k) (simp_all add: tx_inv_def)
  next
    case nack: False
    show ?thesis
    proof (cases "status ?tp \<in> {TCP_STATUS_FIN_WAIT_1, TCP_STATUS_LAST_ACK, TCP_STATUS_CLOSING} \<and> fin_deferred ?tp \<and>
        sent_seq ?tp = snd_una ?tp + sb_len (sndbuf ?tp)")
      case True
      obtain fo w1 where m: "tcp_make_fragment env w (RTE_TCP_FIN_FLAG OR RTE_TCP_ACK_FLAG) (sent_seq ?tp) (recv_ack ?tp) = (fo, w1)" by fastforce
      obtain k w2 where e: "tcp_enqueue_fragment env w1 fo = (k, w2)" by fastforce
      define w3 where "w3 = upd_tp (\<lambda>tp. tp\<lparr>sent_seq := sent_seq tp + 1, fin_deferred := False\<rparr>) w2"
      obtain ok w4 where a: "tcp_arm_data_rto env w3 (ucast (rto_ms (w_tp w3))) = (ok, w4)" by fastforce
      have run: "(r, w') = (if \<not> k then (Some SOCK_TX_FLUSH_DESTROYED, tcp_abort_stream env w2 ENOBUFS True)
          else if ok then (None, w4) else (Some SOCK_TX_FLUSH_DESTROYED, tcp_abort_stream env w4 ENOBUFS True))"
        using assms(2) unfolding flush_tail_def Let_def if_not_P [OF nack] if_P [OF True] m prod.case e w3_def [symmetric] a
        by (cases k; cases ok) simp_all
      from assms(1) obtain q n fin ufin where l: "tx_core A b q n fin ufin ?tp" "\<forall>f \<in> set (tx_queue ?tp). ctl_ok A b fin f"
        "\<forall>f \<in> emitted w. ctl_ok A b fin f \<or> data_ok A b f" "fin_legal fin ?tp" "status ?tp \<in> live_states" by (rule tx_okE)
      have nf: "fin = False" using l(4) True by (simp add: fin_legal_def)
      note l' = l [unfolded nf]
      have k3: "tx_ok A b w3 \<and> emitted w3 = emitted w \<and> rx_kept w w3" if up: "k"
      proof -
        obtain f where f: "control (RTE_TCP_FIN_FLAG OR RTE_TCP_ACK_FLAG) (sent_seq ?tp) f"
            "io_w w2 = io_w (upd_tp (\<lambda>tp. tp\<lparr>tx_queue := tx_queue tp @ [f]\<rparr>) w)"
          using queue_control [OF m e] up by auto
        have i: "io_w w3 = io_w (upd_tp (\<lambda>tp. tp\<lparr>sent_seq := sent_seq tp + 1, tx_queue := tx_queue tp @ [f], fin_deferred := False, status := status ?tp\<rparr>) w)"
          using f(2) by (simp add: w3_def io_w_def io_view_def)
        have st: "status ?tp \<in> live_states - {TCP_STATUS_ESTABLISHED, TCP_STATUS_CLOSE_WAIT}" using True l(5) by auto
        show ?thesis
          using fin_queued_ok [OF l'(1) all_sent [OF l'(1)] l'(2,3) st f(1) i] True i
          by (auto simp: rx_kept_def io_w_def io_view_def rx_same_def queue_same_def)
      qed
      have e2: "emitted w2 = emitted w" if "\<not> k" using queue_control [OF m e] that io_wD(2) [of w2 w] by simp
      have "tx_inv A b (tcp_abort_stream env w2 ENOBUFS True)" if "\<not> k" by (rule held_inv [OF assms(1) abort_held [OF e2 [OF that]]])
      moreover have "rx_kept w w4" if "k"
        using rx_kept_trans [of w w3 w4] k3 [OF that] rx_kept_io [of w4 w3] arm_io(1) [of env w3 "ucast (rto_ms (w_tp w3))"] a by simp
      moreover have "torn_down (tcp_abort_stream env v ENOBUFS True)" for v using abort_aborted [of v env ENOBUFS True] by (simp add: aborted_def)
      moreover have "tx_ok A b w4" "emitted w4 = emitted w" "tx_inv A b (tcp_abort_stream env w4 ENOBUFS True)" if "k"
        using arm_rto_held(2,3) [OF conjunct1 [OF k3 [OF that]] a] k3 [OF that] held_inv [OF _ abort_held [of w4 w4]] by auto
      ultimately show ?thesis using run e2 by (cases k; cases ok) (simp_all add: tx_inv_def)
    next
      case False
      then have "(r, w') = (Some SOCK_TX_FLUSH_IDLE, w)"
        using assms(2) unfolding flush_tail_def Let_def if_not_P [OF nack] if_not_P [OF False] by simp
      then show ?thesis using assms(1) by (simp add: tx_inv_def rx_kept_io)
    qed
  qed
  then show "tx_inv A b w'" "emitted w' = emitted w" "rx_kept w w' \<or> torn_down w'" "r = None \<Longrightarrow> tx_ok A b w' \<and> rx_kept w w'" by auto
qed

lemma flush_rounds_inv:
  assumes "flush_rounds env tx w = Some y" "tx_ok A b w"
  shows "tx_inv A b (snd y) \<and> emitted w \<subseteq> emitted (snd y) \<and> (rx_kept w (snd y) \<or> torn_down (snd y))"
proof -
  have "tx_ok A b w \<longrightarrow> tx_inv A b (snd y) \<and> emitted w \<subseteq> emitted (snd y) \<and> (rx_kept w (snd y) \<or> torn_down (snd y))"
  proof (rule flush_rounds.raw_induct [OF _ assms(1), where P = "\<lambda>env tx w y. tx_ok A b w \<longrightarrow> tx_inv A b (snd y) \<and> emitted w \<subseteq> emitted (snd y) \<and> (rx_kept w (snd y) \<or> torn_down (snd y))"], rule impI)
    fix rec env tx w y
    assume IH: "\<And>env tx w y. rec env tx w = Some y \<Longrightarrow> tx_ok A b w \<longrightarrow> tx_inv A b (snd y) \<and> emitted w \<subseteq> emitted (snd y) \<and> (rx_kept w (snd y) \<or> torn_down (snd y))" and t: "tx_ok A b w"
      and run: "(case flush_control env tx w (tx_queue (w_tp w)) of
        (None, w) \<Rightarrow>
         (case flush_recovery env tx w of None \<Rightarrow> None
          | Some (r, w) \<Rightarrow>
             (case flush_result r of
                None \<Rightarrow>
                (case tcp_tx_flush_sndbuf env tx w of
                   (r, w) \<Rightarrow>
                     (case flush_result r of
                        None \<Rightarrow>
                        if r = TCP_SNDBUF_SENT then rec env tx w
                        else (case flush_tail env w of
                                (None, w) \<Rightarrow> rec env tx w
                              | (Some r, w) \<Rightarrow> Some (r, w))
                      | Some r \<Rightarrow> Some (r, w)))
              | Some r \<Rightarrow> Some (r, w)))
      | (Some r, w) \<Rightarrow> Some (r, w)) = Some y"
    obtain r1 w1 where c: "flush_control env tx w (tx_queue (w_tp w)) = (r1, w1)" by fastforce
    note t1 = flush_control_ok(1) [OF t refl c]
    have e1: "emitted w \<subseteq> emitted w1" "rx_kept w w1" by (rule flush_control_ok(2,3) [OF t refl c])+
    show "tx_inv A b (snd y) \<and> emitted w \<subseteq> emitted (snd y) \<and> (rx_kept w (snd y) \<or> torn_down (snd y))"
    proof (cases r1)
      case (Some r)
      then show ?thesis using run c t1 e1 by (auto simp: tx_inv_def)
    next
      case None
      then obtain r2 w2 where rv: "flush_recovery env tx w1 = Some (r2, w2)" using run c by (auto split: option.splits)
      have t2: "tx_ok A b w2" "emitted w \<subseteq> emitted w2" "rx_kept w w2"
        using flush_recovery_ok [OF rv t1] e1 rx_kept_trans [of w w1 w2] by auto
      obtain r3 w3 where s: "tcp_tx_flush_sndbuf env tx w2 = (r3, w3)" by fastforce
      note t3 = flush_sndbuf_ok [OF t2(1) s]
      obtain r4 w4 where ft: "flush_tail env w3 = (r4, w4)" by fastforce
      show ?thesis
      proof (cases "flush_result r2")
        case (Some r)
        then show ?thesis using run c None rv t2 by (simp add: tx_inv_def) auto
      next
        case none2: None
        show ?thesis
        proof (cases "flush_result r3")
          case (Some r)
          have "rx_kept w w3 \<or> torn_down w3" using t3(3,4) rx_kept_trans [OF t2(3), of w3] by (cases "r3 = TCP_SNDBUF_DESTROYED") auto
          then show ?thesis using Some run c None rv none2 s t3(1,2) t2(2) by auto
        next
          case none3: None
          then have ok3: "tx_ok A b w3" "rx_kept w w3"
            using t3(3) rx_kept_trans [OF t2(3), of w3] by (cases r3; auto simp: flush_result_def)+
          note t4 = flush_tail_ok [OF ok3(1) ft]
          have k: "rx_kept w v" if "rx_kept w3 v" for v by (rule rx_kept_trans [OF ok3(2) that])
          show ?thesis
            using run c None rv none2 s none3 IH [of env tx w3 y] IH [of env tx w4 y] ok3 t4 ft t3(2) t2(2) k rx_kept_trans [of w w4 "snd y"]
            by (cases "r3 = TCP_SNDBUF_SENT"; cases r4) auto
        qed
      qed
    qed
  qed
  then show ?thesis using assms(2) by blast
qed

lemma flush_inv:
  assumes "tx_inv A b w" "tcp_tx_flush env tx w = Some (r, w')"
  shows "tx_inv A b w'" "emitted w \<subseteq> emitted w'" "rx_kept w w' \<or> torn_down w'"
proof -
  have "tx_inv A b w' \<and> emitted w \<subseteq> emitted w' \<and> (rx_kept w w' \<or> torn_down w')"
  proof (cases "tx_ok A b w")
    case True
    then show ?thesis using assms flush_rounds_inv [of env tx w "(r, w')"] by (auto simp: tcp_tx_flush_def rx_kept_io split: if_splits)
  next
    case False
    then have "status (w_tp w) = TCP_STATUS_CLOSED" using assms(1) by (simp add: tx_inv_def)
    then show ?thesis using assms by (simp add: tcp_tx_flush_def rx_kept_io)
  qed
  then show "tx_inv A b w'" "emitted w \<subseteq> emitted w'" "rx_kept w w' \<or> torn_down w'" by auto
qed

end
