(* ===== verification/Tcp_Connection.thy ===== *)
theory Tcp_Connection
  imports Tcp_Flush
begin

text \<open>
  Two endpoints: what the application of one hands to \<^const>\<open>tcp_send\<close> and what the application of the
  other gets from \<^const>\<open>tcp_recv\<close>, over a network that loses, duplicates, reorders and delays segments.
\<close>

subsection \<open>A closed connection stays closed\<close>

definition closed_keep :: "'p tcp_world \<Rightarrow> 'p tcp_world \<Rightarrow> bool" where
  "closed_keep w w' \<longleftrightarrow> status (w_tp w') = TCP_STATUS_CLOSED \<and> emitted w' = emitted w \<and>
     (sk_terminal_error w \<noteq> None \<longrightarrow> sk_terminal_error w' \<noteq> None)"

lemma closed_refl: "status (w_tp w) = TCP_STATUS_CLOSED \<Longrightarrow> closed_keep w w"
  by (simp add: closed_keep_def)

lemma closed_io: "status (w_tp w) = TCP_STATUS_CLOSED \<Longrightarrow> io_w w' = io_w w \<Longrightarrow> closed_keep w w'"
  by (auto simp: closed_keep_def io_w_def io_view_def)

lemma closed_abort: "closed_keep w (tcp_abort_stream env w e r)"
  using abort_aborted [of w env e r] by (simp add: closed_keep_def aborted_def torn_down_def)

lemma closed_ingress:
  assumes "status (w_tp w) = TCP_STATUS_CLOSED"
  shows "closed_keep w (ingress_existing env w s opts)"
proof (cases "has_flag s RTE_TCP_RST_FLAG")
  case True
  then show ?thesis using closed_abort [of w env ECONNRESET False] closed_refl [OF assms] by (simp add: ingress_existing_def tcp_abort_on_rst_def)
next
  case False
  define w1 where "w1 = ingress_negotiate env w s opts"
  obtain ts tp where t: "tcp_options_process_inbound (w_tp w1) opts False (in_seq s) False (env_ms env) = (ts, tp)" by fastforce
  have i1: "io_w w1 = io_w w" by (simp add: w1_def ingress_negotiate_def io_w_def io_same)
  have "io_view tp = io_view (w_tp w1)" using process_inbound_io [of "w_tp w1" opts False "in_seq s" False "env_ms env"] t by simp
  then have i2: "io_w (w1\<lparr>w_tp := tp\<rparr>) = io_w w" using i1 by (simp add: io_w_def)
  have "ingress_existing env w s opts = w1\<lparr>w_tp := tp\<rparr>"
    unfolding ingress_existing_def Let_def if_not_P [OF False] w1_def [symmetric] assms by (simp add: t tcp_state_drop_def)
  then show ?thesis using closed_io [OF assms i2] by simp
qed

lemma closed_timer:
  assumes "status (w_tp w) = TCP_STATUS_CLOSED" "tcp_timer_cb env w = Some w'"
  shows "closed_keep w w'"
  using assms closed_abort [of w env ETIMEDOUT True] closed_refl [OF assms(1)] by (auto simp: tcp_timer_cb_def split: if_splits)

lemma closed_recv:
  assumes "status (w_tp w) = TCP_STATUS_CLOSED" "tcp_recv env w len = (r, w')"
  shows "closed_keep w w'"
  using recv_quiet [OF assms(2)] quietD [of w w'] assms(1) by (auto simp: closed_keep_def aborted_def torn_down_def eof_move_def)

lemma closed_close:
  assumes "status (w_tp w) = TCP_STATUS_CLOSED"
  shows "status (w_tp (snd (tcp_close_stream env w))) = TCP_STATUS_CLOSED" "emitted (snd (tcp_close_stream env w)) = emitted w"
proof -
  let ?w = "tcp_drain_recv env (tcp_drain_send env w)"
  have "status (w_tp ?w) = TCP_STATUS_CLOSED" using assms by (simp add: drain_recv_fields(10) drain_send_tp tcp_sack_state_init_def)
  then show "status (w_tp (snd (tcp_close_stream env w))) = TCP_STATUS_CLOSED" "emitted (snd (tcp_close_stream env w)) = emitted w"
    using assms nsock_free_tp [of env ?w] by (auto simp: tcp_close_stream_def Let_def tcp_sack_state_init_def)
qed

lemma closed_inv:
  assumes "status (w_tp w) = TCP_STATUS_CLOSED" "tx_inv A b w" "closed_keep w w'"
  shows "tx_inv A b w'"
  using assms tx_ok_emitted by (auto simp: tx_inv_def closed_keep_def)

subsection \<open>The sender\<close>

lemma inv_ingress: "tx_inv A b w \<Longrightarrow> tx_inv A b (ingress_existing env w s opts) \<and> emitted w \<subseteq> emitted (ingress_existing env w s opts)"
  using held_inv [OF _ ingress_held, of A b w env s opts] ingress_held [of A b w env s opts] closed_ingress [of w env s opts] closed_inv
  by (cases "tx_ok A b w") (auto simp: held_def closed_keep_def tx_inv_def)

lemma inv_timer:
  assumes "tx_inv A b w" "tcp_timer_cb env w = Some w'"
  shows "tx_inv A b w'" "emitted w \<subseteq> emitted w'"
proof -
  have "tx_inv A b w' \<and> emitted w \<subseteq> emitted w'"
  proof (cases "tx_ok A b w")
    case True
    then show ?thesis using timer_held [OF True, of env] assms(2) held_inv [OF True, of w'] by (auto simp: held_def)
  next
    case False
    then have "status (w_tp w) = TCP_STATUS_CLOSED" using assms(1) by (simp add: tx_inv_def)
    then show ?thesis using closed_timer [OF _ assms(2)] closed_inv [OF _ assms(1), of w'] by (simp add: closed_keep_def)
  qed
  then show "tx_inv A b w'" "emitted w \<subseteq> emitted w'" by auto
qed

lemma inv_recv:
  assumes "tx_inv A b w" "tcp_recv env w len = (r, w')"
  shows "tx_inv A b w'" "emitted w \<subseteq> emitted w'"
proof -
  have "tx_inv A b w' \<and> emitted w \<subseteq> emitted w'"
  proof (cases "tx_ok A b w")
    case True
    then show ?thesis using recv_held [OF True assms(2)] held_inv [OF True, of w'] by (auto simp: held_def)
  next
    case False
    then have "status (w_tp w) = TCP_STATUS_CLOSED" using assms(1) by (simp add: tx_inv_def)
    then show ?thesis using closed_recv [OF _ assms(2)] closed_inv [OF _ assms(1), of w'] by (simp add: closed_keep_def)
  qed
  then show "tx_inv A b w'" "emitted w \<subseteq> emitted w'" by auto
qed

lemma inv_close:
  assumes "tx_inv A b w"
  shows "tx_inv A b (snd (tcp_close_stream env (w\<lparr>sk_app_closed := True\<rparr>)))"
    "emitted w \<subseteq> emitted (snd (tcp_close_stream env (w\<lparr>sk_app_closed := True\<rparr>)))"
proof -
  let ?w = "w\<lparr>sk_app_closed := True\<rparr>"
  let ?c = "snd (tcp_close_stream env ?w)"
  have "tx_inv A b ?c \<and> emitted w \<subseteq> emitted ?c"
  proof (cases "tx_ok A b w")
    case True
    then have t: "tx_ok A b ?w" by (simp add: tx_ok_def tx_live_def)
    show ?thesis using close_held [OF t, of env] held_inv [OF t close_held [OF t, of env]] by (auto simp: held_def)
  next
    case False
    then have "status (w_tp ?w) = TCP_STATUS_CLOSED" using assms by (simp add: tx_inv_def)
    from closed_close [OF this, of env] show ?thesis using assms False by (simp add: tx_inv_def)
  qed
  then show "tx_inv A b ?c" "emitted w \<subseteq> emitted ?c" by auto
qed

text \<open>A FIN on the wire means that the application can hand over nothing more.\<close>

definition fin_sent :: "'p tcp_world \<Rightarrow> bool" where
  "fin_sent w \<longleftrightarrow> (\<exists>f \<in> emitted w. frag_tcp_flags f AND RTE_TCP_FIN_FLAG \<noteq> 0)"

lemma fin_sent_closed:
  assumes "tx_inv A b w" "fin_sent w"
  shows "status (w_tp w) \<notin> {TCP_STATUS_ESTABLISHED, TCP_STATUS_CLOSE_WAIT}"
proof (cases "tx_ok A b w")
  case True
  then show ?thesis
  proof (rule tx_okE)
    fix q n fin ufin
    assume l: "\<forall>f \<in> emitted w. ctl_ok A b fin f \<or> data_ok A b f" "fin_legal fin (w_tp w)"
    then have "fin" using assms(2) by (auto simp: fin_sent_def ctl_ok_def data_ok_def)
    then show ?thesis using l(2) by (simp add: fin_legal_def)
  qed
next
  case False
  then show ?thesis using assms(1) by (auto simp: tx_inv_def)
qed

lemma inv_send:
  assumes "tx_inv A b w" "tcp_send env w buf = (r, w')"
  shows "emitted w' = emitted w" "case r of Inl _ \<Rightarrow> tx_inv A b w' | Inr n \<Rightarrow> tx_inv (A @ take n buf) b w' \<and> (fin_sent w \<longrightarrow> take n buf = [])"
proof -
  let ?P = "emitted w' = emitted w \<and> (case r of Inl _ \<Rightarrow> tx_inv A b w' | Inr n \<Rightarrow> tx_inv (A @ take n buf) b w' \<and> (fin_sent w \<longrightarrow> take n buf = []))"
  have ?P
  proof (cases "status (w_tp w) \<in> {TCP_STATUS_ESTABLISHED, TCP_STATUS_CLOSE_WAIT}")
    case True
    then have t: "tx_ok A b w" using assms(1) by (auto simp: tx_inv_def)
    show ?thesis using send_ok(1,6) [OF t assms(2)] fin_sent_closed [OF assms(1)] True by (auto simp: tx_inv_def split: sum.splits)
  next
    case False
    then have "w' = w" "r = Inr 0 \<or> (\<exists>e. r = Inl e)" using assms(2) by (auto simp: tcp_send_def split: if_splits)
    then show ?thesis using assms(1) by auto
  qed
  then show "emitted w' = emitted w"
    "case r of Inl _ \<Rightarrow> tx_inv A b w' | Inr n \<Rightarrow> tx_inv (A @ take n buf) b w' \<and> (fin_sent w \<longrightarrow> take n buf = [])" by auto
qed

subsection \<open>The receiver\<close>

text \<open>
  The application of the receiver has read \<open>C\<close>.  Without an error its connection is open and holds the
  bytes of the stream \<open>S\<close> that follow \<open>C\<close>; with one it is closed.
\<close>

definition rx_side :: "byte list \<Rightarrow> u32 \<Rightarrow> byte list \<Rightarrow> 'p tcp_world \<Rightarrow> bool" where
  "rx_side S b C w \<longleftrightarrow> rx_inv S b C w \<and>
     (if sk_terminal_error w = None then status (w_tp w) \<in> {TCP_STATUS_ESTABLISHED, TCP_STATUS_CLOSE_WAIT}
      else status (w_tp w) = TCP_STATUS_CLOSED)"

lemma side_kept:
  assumes "rx_side S b C w" "rx_kept w w'"
  shows "rx_side S b C w'"
proof -
  have k: "rx_same (w_tp w) (w_tp w')" "status (w_tp w') = status (w_tp w)" "sk_terminal_error w' = sk_terminal_error w"
    using assms(2) by (auto simp: rx_kept_def)
  have "eof_status (w_tp w') = eof_status (w_tp w)" using k(1,2) by (simp add: eof_status_def rx_same_def)
  then show ?thesis using assms(1) k rx_same_ok [OF k(1)] rx_same_queued [OF k(1)] unfolding rx_side_def rx_inv_def by auto
qed

lemma side_torn: "rx_side S b C w \<Longrightarrow> torn_down w' \<Longrightarrow> rx_side S b C w'"
  by (auto simp: rx_side_def rx_inv_def torn_down_def)

lemma side_closed: "rx_side S b C w \<Longrightarrow> sk_terminal_error w \<noteq> None \<Longrightarrow> closed_keep w w' \<Longrightarrow> rx_side S b C w'"
  by (auto simp: rx_side_def rx_inv_def closed_keep_def)

lemma acked_kept: "acked_only w w' \<Longrightarrow> rx_kept w w'"
  using acked_onlyD [of w w'] by (simp add: rx_kept_def)

lemma side_segment:
  assumes "rx_side S b C w" "sk_terminal_error w = None" "tcp_receive_stream_segment env w s = (alive, w')"
    and "\<not> has_flag s RTE_TCP_SYN_FLAG \<Longrightarrow> in_payload s \<noteq> [] \<or> has_flag s RTE_TCP_FIN_FLAG \<Longrightarrow>
      peer_segment S b (length C + length (queued (w_tp w))) (in_seq s) (in_payload s) (has_flag s RTE_TCP_FIN_FLAG)"
  shows "rx_side S b C w'"
  using assms(3)
proof (cases rule: receive_segment_cases)
  case 1
  then show ?thesis using assms(1) by simp
next
  case (2 w1)
  have inv: "rx_inv S b C w1"
    using segment_inv [OF _ assms(2) assms(4) [OF 2(2,3)] 2(1)] assms(1) by (simp add: rx_side_def)
  note q = receive_range_quiet [OF 2(1)]
  have side1: "rx_side S b C w1"
  proof (cases alive)
    case True
    then have "quiet w w1" using q by simp
    then show ?thesis using inv quietD [of w w1] assms(1,2) by (auto simp: rx_side_def eof_move_def)
  next
    case False
    then show ?thesis using q side_torn [OF assms(1), of w1] by (simp add: aborted_def)
  qed
  show ?thesis
  proof (cases alive)
    case True
    then have "quiet w1 w' \<and> rx_same (w_tp w1) (w_tp w') \<and> status (w_tp w') = status (w_tp w1)" using 2(4) by simp
    then have "rx_kept w1 w'" using quietD(2,3) [of w1 w'] by (simp add: rx_kept_def)
    then show ?thesis by (rule side_kept [OF side1])
  next
    case False
    then show ?thesis using 2(4) side1 by simp
  qed
qed

text \<open>An acknowledgement does not move the receive side, so the segment that follows is still the peer's.\<close>

lemma side_ack_segment:
  assumes "rx_side S b C w" "sk_terminal_error w = None"
    and "(if c then tcp_process_peer_ack_ex env w ack dup aw sq wn sc else (True, w)) = (alive, w1)"
    and "\<not> has_flag s RTE_TCP_SYN_FLAG \<Longrightarrow> in_payload s \<noteq> [] \<or> has_flag s RTE_TCP_FIN_FLAG \<Longrightarrow>
      peer_segment S b (length C + length (queued (w_tp w))) (in_seq s) (in_payload s) (has_flag s RTE_TCP_FIN_FLAG)"
  shows "rx_side S b C (if alive then snd (tcp_receive_stream_segment env w1 s) else w1)"
proof (cases alive)
  case True
  have k: "rx_kept w w1" using assms(3) True process_ack_ok(1) [of env w ack dup aw sq wn sc] acked_kept rx_kept_io [of w1 w]
    by (auto split: if_splits)
  then have "queued (w_tp w1) = queued (w_tp w)" "sk_terminal_error w1 = None"
    using rx_same_queued assms(2) by (auto simp: rx_kept_def)
  then show ?thesis
    using True side_segment [OF side_kept [OF assms(1) k], of env s] assms(4) by (cases "tcp_receive_stream_segment env w1 s") auto
next
  case False
  then have "aborted w w1" using assms(3) process_ack_ok(1) [of env w ack dup aw sq wn sc] by (auto split: if_splits)
  then show ?thesis using False side_torn [OF assms(1), of w1] by (simp add: aborted_def)
qed

lemma side_handler:
  assumes "rx_side S b C w" "sk_terminal_error w = None"
    and "\<not> has_flag s RTE_TCP_SYN_FLAG \<Longrightarrow> in_payload s \<noteq> [] \<or> has_flag s RTE_TCP_FIN_FLAG \<Longrightarrow>
      peer_segment S b (length C + length (queued (w_tp w))) (in_seq s) (in_payload s) (has_flag s RTE_TCP_FIN_FLAG)"
  shows "rx_side S b C (tcp_state_ops (status (w_tp w)) env w s)"
proof (cases "status (w_tp w) = TCP_STATUS_ESTABLISHED")
  case True
  define sc where "sc = (if wscale_ok (w_tp w) then snd_wscale (w_tp w) else 0)"
  define dup where "dup \<longleftrightarrow> in_payload s = [] \<and> \<not> has_flag s RTE_TCP_FIN_FLAG \<and> \<not> has_flag s RTE_TCP_SYN_FLAG \<and>
      snd_wnd_valid (w_tp w) \<and> push_bit (unat sc) (ucast (in_win s)) = snd_wnd (w_tp w)"
  obtain alive w1 where r: "(if has_flag s RTE_TCP_ACK_FLAG
      then tcp_process_peer_ack_ex env w (in_ack s) dup True (in_seq s) (in_win s) sc else (True, w)) = (alive, w1)" by fastforce
  have "tcp_state_established env w s = (if alive then snd (tcp_receive_stream_segment env w1 s) else w1)"
    unfolding tcp_state_established_def Let_def sc_def [symmetric] dup_def [symmetric] r by simp
  then show ?thesis using side_ack_segment [OF assms(1,2) r assms(3)] True by simp
next
  case False
  then have cw: "status (w_tp w) = TCP_STATUS_CLOSE_WAIT" using assms(1,2) by (simp add: rx_side_def)
  obtain alive w1 where r: "(if has_flag s RTE_TCP_ACK_FLAG then tcp_process_peer_ack env w (in_ack s) else (True, w)) = (alive, w1)" by fastforce
  have "ack_then_receive env w s = (if alive then snd (tcp_receive_stream_segment env w1 s) else w1)"
    unfolding ack_then_receive_def r by simp
  then show ?thesis
    using side_ack_segment [OF assms(1,2) r [unfolded tcp_process_peer_ack_def] assms(3)] cw by (simp add: tcp_state_close_wait_def)
qed

lemma side_ingress:
  assumes "rx_side S b C w"
    and "\<not> has_flag s RTE_TCP_SYN_FLAG \<Longrightarrow> in_payload s \<noteq> [] \<or> has_flag s RTE_TCP_FIN_FLAG \<Longrightarrow> sk_terminal_error w = None \<Longrightarrow>
      peer_segment S b (length C + length (queued (w_tp w))) (in_seq s) (in_payload s) (has_flag s RTE_TCP_FIN_FLAG)"
  shows "rx_side S b C (ingress_existing env w s opts)"
proof (cases "sk_terminal_error w = None")
  case False
  then have "status (w_tp w) = TCP_STATUS_CLOSED" using assms(1) by (auto simp: rx_side_def)
  from side_closed [OF assms(1) False closed_ingress [OF this]] show ?thesis .
next
  case te: True
  show ?thesis
  proof (cases "has_flag s RTE_TCP_RST_FLAG")
    case True
    then show ?thesis
      using assms(1) side_torn [OF assms(1)] abort_aborted [of w env ECONNRESET False]
      by (auto simp: ingress_existing_def tcp_abort_on_rst_def aborted_def)
  next
    case False
    define w1 where "w1 = ingress_negotiate env w s opts"
    define ok where "ok \<longleftrightarrow> status (w_tp w) = TCP_STATUS_ESTABLISHED \<and>
        tcp_segment_acceptable (w_tp w1) (in_seq s) (of_nat (length (in_payload s))) (has_flag s RTE_TCP_FIN_FLAG)"
    obtain ts tp where t: "tcp_options_process_inbound (w_tp w1) opts False (in_seq s) ok (env_ms env) = (ts, tp)" by fastforce
    define w2 where "w2 = w1\<lparr>w_tp := tp\<rparr>"
    define w3 where "w3 = upd_tp (\<lambda>tp. tcp_sack_note_duplicate tp (in_seq s) (of_nat (length (in_payload s)))) w2"
    obtain fo w4 where m: "tcp_make_fragment env w3 RTE_TCP_ACK_FLAG (sent_seq (w_tp w3)) (recv_ack (w_tp w3)) = (fo, w4)" by fastforce
    obtain k w5 where e: "tcp_enqueue_fragment env w4 fo = (k, w5)" by fastforce
    have i1: "io_w w1 = io_w w" by (simp add: w1_def ingress_negotiate_def io_w_def io_same)
    have "io_view tp = io_view (w_tp w1)" using process_inbound_io [of "w_tp w1" opts False "in_seq s" ok "env_ms env"] t by simp
    then have i2: "io_w w2 = io_w w" using i1 by (simp add: w2_def io_w_def)
    have i3: "io_w w3 = io_w w" using i2 note_io [OF note_duplicate_frame] by (simp add: w3_def io_w_def)
    have s2: "rx_side S b C w2" by (rule side_kept [OF assms(1) rx_kept_io [OF i2]])
    have same: "status (w_tp w2) = status (w_tp w)" "sk_terminal_error w2 = None" "queued (w_tp w2) = queued (w_tp w)"
      using io_viewD [OF io_wD(1) [OF i2]] io_wD(3) [OF i2] te rx_same_queued [OF io_view_rx_same [OF io_wD(1) [OF i2]]] by simp_all
    have h: "rx_side S b C (tcp_state_ops (status (w_tp w2)) env w2 s)"
      by (rule side_handler [OF s2 same(2)]) (use assms(2) te same(3) in simp)
    have "rx_kept w3 w5" using quietD(2,3) [OF quiet_ack(1) [OF m e]] quiet_ack(2,3) [OF m e] by (simp add: rx_kept_def)
    then have s5: "rx_side S b C w5" by (rule side_kept [OF side_kept [OF assms(1) rx_kept_io [OF i3]]])
    have "ingress_existing env w s opts = (if ts \<noteq> Inbound_Ok then
        if ts = Inbound_Paws_Drop \<and> status (w_tp w) = TCP_STATUS_ESTABLISHED then w5 else w2
        else tcp_state_ops (status (w_tp w)) env w2 s)"
      unfolding ingress_existing_def Let_def if_not_P [OF False] w1_def [symmetric] ok_def [symmetric] t prod.case
        w2_def [symmetric] w3_def [symmetric] m e snd_conv ..
    then show ?thesis using s2 s5 h by (simp add: same(1))
  qed
qed

lemma timer_data_kept: "rx_kept w (timer_data env w) \<or> torn_down (timer_data env w)"
proof (cases "snd_una (w_tp w) = sent_seq (w_tp w) \<or> retries (w_tp w) \<ge> TCP_DATA_MAX_RETRIES")
  case True
  then show ?thesis using rx_kept_io [of w w] abort_aborted [of w env ETIMEDOUT True] by (auto simp: timer_data_def aborted_def)
next
  case False
  define w1 where "w1 = upd_tp (\<lambda>tp. rto_loss (tcp_rtt_on_timeout (tp\<lparr>retries := retries tp + 1\<rparr>))) w"
  have i: "io_w w1 = io_w w" by (simp add: w1_def io_w_def io_same)
  obtain ok w2 where a: "tcp_arm_data_rto env w1 (ucast (rto_ms (w_tp w1))) = (ok, w2)" by fastforce
  have "io_w w2 = io_w w1" using arm_io(1) [of env w1 "ucast (rto_ms (w_tp w1))"] a by simp
  then have "io_w (tcp_mark_tx_dirty w2) = io_w w" using i by (simp add: io_w_def)
  moreover have "timer_data env w = (if ok then tcp_mark_tx_dirty w2 else tcp_abort_stream env w2 ENOBUFS True)"
    using False unfolding timer_data_def Let_def w1_def [symmetric] a by (cases ok) auto
  ultimately show ?thesis using rx_kept_io [of "tcp_mark_tx_dirty w2" w] abort_aborted [of w2 env ENOBUFS True] by (simp add: aborted_def)
qed

lemma side_timer:
  assumes "rx_side S b C w" "tcp_timer_cb env w = Some w'"
  shows "rx_side S b C w'"
proof (cases "sk_terminal_error w = None")
  case True
  then have "status (w_tp w) \<in> {TCP_STATUS_ESTABLISHED, TCP_STATUS_CLOSE_WAIT}" using assms(1) by (simp add: rx_side_def)
  then have "w' = timer_data env w \<or> w' = tcp_abort_stream env w ETIMEDOUT True" using assms(2) by (auto simp: tcp_timer_cb_def split: if_splits)
  then show ?thesis
    using timer_data_kept [of w env] side_kept [OF assms(1)] side_torn [OF assms(1)] abort_aborted [of w env ETIMEDOUT True]
    by (auto simp: aborted_def)
next
  case False
  then have "status (w_tp w) = TCP_STATUS_CLOSED" using assms(1) by (auto simp: rx_side_def)
  from side_closed [OF assms(1) False closed_timer [OF this assms(2)]] show ?thesis .
qed

lemma side_send:
  assumes "rx_side S b C w" "tx_inv D d w" "tcp_send env w buf = (r, w')"
  shows "rx_side S b C w'"
proof (cases "tx_ok D d w")
  case True
  note f = send_ok(2-5) [OF True assms(3)]
  have "rx_kept w w'" using f by (simp add: rx_kept_def)
  then show ?thesis by (rule side_kept [OF assms(1)])
next
  case False
  then have "w' = w" using assms(2,3) by (auto simp: tx_inv_def tcp_send_def split: if_splits)
  then show ?thesis using assms(1) by simp
qed

lemma side_flush:
  assumes "rx_side S b C w" "tx_inv D d w" "tcp_tx_flush env tx w = Some (r, w')"
  shows "rx_side S b C w'"
  using flush_inv(3) [OF assms(2,3)] side_kept [OF assms(1)] side_torn [OF assms(1)] by blast

lemma side_read:
  assumes "rx_side S b C w" "tcp_recv env w len = (Inr out, w')"
  shows "rx_side S b (C @ out) w'" "out = [] \<Longrightarrow> 0 < len \<Longrightarrow> C = S \<and> peer_eof (w_tp w)"
proof -
  note r = read_inv [OF conjunct1 [OF assms(1) [unfolded rx_side_def]] assms(2)]
  have te: "sk_terminal_error w = None" if "0 < len" using assms(2) that by (auto simp: tcp_recv_def split: option.splits)
  have st: "status (w_tp w) \<in> {TCP_STATUS_ESTABLISHED, TCP_STATUS_CLOSE_WAIT}" if "0 < len" using assms(1) te [OF that] by (simp add: rx_side_def)
  show "rx_side S b (C @ out) w'"
  proof (cases "len = 0")
    case True
    then show ?thesis using assms by (simp add: tcp_recv_def)
  next
    case False
    have "quiet w w' \<or> torn_down w'" using recv_quiet [OF assms(2)] by (auto simp: aborted_def)
    then show ?thesis using r(1) quietD [of w w'] te st False by (auto simp: rx_side_def torn_down_def eof_move_def)
  qed
  show "C = S \<and> peer_eof (w_tp w)" if e: "out = []" "0 < len"
  proof -
    obtain p where p: "rx_ok S b p (w_tp w)" "eof_status (w_tp w)" using assms(1) te [OF e(2)] by (auto simp: rx_side_def rx_inv_def)
    show ?thesis using r(2) [OF e] recv_ok [OF p te [OF e(2)] e(2) assms(2)] e(1) st [OF e(2)] by auto
  qed
qed

subsection \<open>Runs of the two endpoints\<close>

text \<open>
  The sending side when the handshake is done: nothing accepted, nothing in flight, and only
  segments without data have been queued or sent.  \<open>b\<close> is the number of the first byte.
\<close>

definition tx_fresh :: "u32 \<Rightarrow> 'p tcp_world \<Rightarrow> bool" where
  "tx_fresh b w \<longleftrightarrow> status (w_tp w) = TCP_STATUS_ESTABLISHED \<and> sndbuf (w_tp w) = tcp_sndbuf_init b \<and> sent_seq (w_tp w) = b \<and>
     snd_una (w_tp w) = b \<and> \<not> fin_deferred (w_tp w) \<and>
     (\<forall>f \<in> set (tx_queue (w_tp w)) \<union> emitted w. frag_payload f = [] \<and> frag_tcp_flags f AND RTE_TCP_FIN_FLAG = 0)"

text \<open>
  What the network delivers: a segment with data or a FIN is one the peer put on the wire, any
  number of times, in any order, whenever.  Its other fields, and segments without data, are
  arbitrary.
\<close>

definition carried :: "tcp_fragment set \<Rightarrow> tcp_seg \<Rightarrow> bool" where
  "carried N s \<longleftrightarrow> in_payload s = [] \<and> \<not> has_flag s RTE_TCP_FIN_FLAG \<or> has_flag s RTE_TCP_SYN_FLAG \<or>
     (\<exists>f \<in> N. in_payload s = frag_payload f \<and> in_seq s = frag_sent_seq f \<and>
        (has_flag s RTE_TCP_FIN_FLAG \<longrightarrow> frag_tcp_flags f AND RTE_TCP_FIN_FLAG \<noteq> 0))"

text \<open>
  \<open>session b d A D C X Y\<close>: the application of \<open>X\<close> has handed over \<open>A\<close>, that of \<open>Y\<close> has handed over \<open>D\<close> and
  read \<open>C\<close>.  \<open>X\<close> receives anything whatever, may close at any time, and keeps running after it has closed.
  Every call is free in its environment: clocks, pools, timer wheel, NIC.  The application of \<open>Y\<close>
  reads no more once it closes, so its close is not a step.
\<close>

inductive session :: "u32 \<Rightarrow> u32 \<Rightarrow> byte list \<Rightarrow> byte list \<Rightarrow> byte list \<Rightarrow> 'p tcp_world \<Rightarrow> 'p tcp_world \<Rightarrow> bool" for b d where
  start: "tx_fresh b X \<Longrightarrow> tx_fresh d Y \<Longrightarrow> rx_fresh b Y \<Longrightarrow> session b d [] [] [] X Y"
| x_send: "session b d A D C X Y \<Longrightarrow> tcp_send env X buf = (Inr n, X') \<Longrightarrow> session b d (A @ take n buf) D C X' Y"
| x_send_fails: "session b d A D C X Y \<Longrightarrow> tcp_send env X buf = (Inl e, X') \<Longrightarrow> session b d A D C X' Y"
| x_recv: "session b d A D C X Y \<Longrightarrow> tcp_recv env X len = (r, X') \<Longrightarrow> session b d A D C X' Y"
| x_close: "session b d A D C X Y \<Longrightarrow> tcp_close_stream env (X\<lparr>sk_app_closed := True\<rparr>) = (r, X') \<Longrightarrow> session b d A D C X' Y"
| x_segment: "session b d A D C X Y \<Longrightarrow> session b d A D C (ingress_existing env X s opts) Y"
| x_timer: "session b d A D C X Y \<Longrightarrow> tcp_timer_cb env X = Some X' \<Longrightarrow> session b d A D C X' Y"
| x_flush: "session b d A D C X Y \<Longrightarrow> tcp_tx_flush env tx X = Some (r, X') \<Longrightarrow> session b d A D C X' Y"
| y_segment: "session b d A D C X Y \<Longrightarrow> carried (emitted X) s \<Longrightarrow> session b d A D C X (ingress_existing env Y s opts)"
| y_read: "session b d A D C X Y \<Longrightarrow> tcp_recv env Y len = (Inr out, Y') \<Longrightarrow> session b d A D (C @ out) X Y'"
| y_read_fails: "session b d A D C X Y \<Longrightarrow> tcp_recv env Y len = (Inl e, Y') \<Longrightarrow> session b d A D C X Y'"
| y_send: "session b d A D C X Y \<Longrightarrow> tcp_send env Y buf = (Inr n, Y') \<Longrightarrow> session b d A (D @ take n buf) C X Y'"
| y_send_fails: "session b d A D C X Y \<Longrightarrow> tcp_send env Y buf = (Inl e, Y') \<Longrightarrow> session b d A D C X Y'"
| y_timer: "session b d A D C X Y \<Longrightarrow> tcp_timer_cb env Y = Some Y' \<Longrightarrow> session b d A D C X Y'"
| y_flush: "session b d A D C X Y \<Longrightarrow> tcp_tx_flush env tx Y = Some (r, Y') \<Longrightarrow> session b d A D C X Y'"

definition session_inv :: "u32 \<Rightarrow> u32 \<Rightarrow> byte list \<Rightarrow> byte list \<Rightarrow> byte list \<Rightarrow> 'p tcp_world \<Rightarrow> 'p tcp_world \<Rightarrow> bool" where
  "session_inv b d A D C X Y \<longleftrightarrow> tx_inv A b X \<and> tx_inv D d Y \<and>
     (\<forall>S. prefix A S \<and> length S < HALF \<and> (fin_sent X \<longrightarrow> S = A) \<longrightarrow> rx_side S b C Y)"

lemma session_invD:
  assumes "session_inv b d A D C X Y"
  shows "tx_inv A b X" "tx_inv D d Y" "prefix A S \<Longrightarrow> length S < HALF \<Longrightarrow> (fin_sent X \<Longrightarrow> S = A) \<Longrightarrow> rx_side S b C Y"
  using assms by (auto simp: session_inv_def)

lemma session_invI:
  assumes "tx_inv A b X" "tx_inv D d Y" "\<And>S. prefix A S \<Longrightarrow> length S < HALF \<Longrightarrow> (fin_sent X \<Longrightarrow> S = A) \<Longrightarrow> rx_side S b C Y"
  shows "session_inv b d A D C X Y"
  using assms by (auto simp: session_inv_def)

lemma tx_fresh_inv:
  assumes "tx_fresh b w"
  shows "tx_inv [] b w"
proof -
  have c: "tx_core [] b 0 0 False False (w_tp w)"
    using assms by (simp add: tx_fresh_def tx_core_def tcp_sndbuf_init_def sndbuf_ok_def sndbuf_bytes_def)
  have "tx_ok [] b w"
    by (rule tx_okI [OF c]) (use assms in \<open>auto simp: tx_fresh_def ctl_ok_def fin_legal_def live_states_def\<close>)
  then show ?thesis by (simp add: tx_inv_def)
qed

text \<open>A delivered segment is one a correct peer with the stream \<open>S\<close> can send.\<close>

lemma carried_segment:
  assumes "tx_inv A b X" "carried (emitted X) s" "prefix A S" "length S < HALF" "fin_sent X \<Longrightarrow> S = A" "r \<le> length S"
    and "\<not> has_flag s RTE_TCP_SYN_FLAG" "in_payload s \<noteq> [] \<or> has_flag s RTE_TCP_FIN_FLAG"
  shows "peer_segment S b r (in_seq s) (in_payload s) (has_flag s RTE_TCP_FIN_FLAG)"
proof -
  obtain f where f: "f \<in> emitted X" "in_payload s = frag_payload f" "in_seq s = frag_sent_seq f"
      "has_flag s RTE_TCP_FIN_FLAG \<longrightarrow> frag_tcp_flags f AND RTE_TCP_FIN_FLAG \<noteq> 0"
    using assms(2,7,8) by (auto simp: carried_def)
  obtain fin where ok: "ctl_ok A b fin f \<or> data_ok A b f"
    using assms(1) tx_ok_emitted f(1) unfolding tx_inv_def by blast
  have al: "length A \<le> length S" using assms(3) by (rule prefix_length_le)
  show ?thesis
  proof (cases "has_flag s RTE_TCP_FIN_FLAG")
    case True
    then have "ctl_ok A b fin f" "S = A" using ok f(1,4) assms(5) by (auto simp: data_ok_def fin_sent_def)
    then show ?thesis
      unfolding peer_segment_def using f True assms(4,6) by (intro conjI exI [of _ "length A"]) (auto simp: ctl_ok_def)
  next
    case False
    then have d: "data_ok A b f" using ok f(2) assms(8) by (auto simp: ctl_ok_def)
    then obtain k where k: "k + length (frag_payload f) \<le> length A" "frag_sent_seq f = b + of_nat k"
        "frag_payload f = take (length (frag_payload f)) (drop k A)" by (auto simp: data_ok_def)
    have "frag_payload f = take (length (frag_payload f)) (drop k S)"
      using k assms(3) by (auto simp: prefix_def)
    then show ?thesis
      unfolding peer_segment_def using d k f(2,3) False al assms(4,6) by (intro conjI exI [of _ k]) (auto simp: data_ok_def)
  qed
qed

lemma side_bound: "rx_side S b C w \<Longrightarrow> sk_terminal_error w = None \<Longrightarrow> length C + length (queued (w_tp w)) \<le> length S"
  by (auto simp: rx_side_def rx_inv_def dest!: arg_cong [where f = length])

lemma x_step_inv:
  assumes "session_inv b d A D C X Y" "tx_inv A b X'" "emitted X \<subseteq> emitted X'"
  shows "session_inv b d A D C X' Y"
proof (rule session_invI [OF assms(2) session_invD(2) [OF assms(1)]])
  fix S assume "prefix A S" "length S < HALF" "fin_sent X' \<Longrightarrow> S = A"
  moreover have "fin_sent X \<Longrightarrow> fin_sent X'" using assms(3) by (auto simp: fin_sent_def)
  ultimately show "rx_side S b C Y" by (intro session_invD(3) [OF assms(1)]) auto
qed

lemma y_step_inv:
  assumes "session_inv b d A D C X Y" "tx_inv D' d Y'"
    and "\<And>S. rx_side S b C Y \<Longrightarrow> prefix A S \<Longrightarrow> length S < HALF \<Longrightarrow> (fin_sent X \<Longrightarrow> S = A) \<Longrightarrow> rx_side S b C' Y'"
  shows "session_inv b d A D' C' X Y'"
  using session_invI [OF session_invD(1) [OF assms(1)] assms(2)] session_invD(3) [OF assms(1)] assms(3) by blast

lemma session_ok: "session b d A D C X Y \<Longrightarrow> session_inv b d A D C X Y"
proof (induction rule: session.induct)
  case (start X Y)
  have "rx_side S b [] Y" for S
    using fresh_inv [OF start(3)] start(3) by (simp add: rx_side_def rx_fresh_def)
  then show ?case using tx_fresh_inv start(1,2) by (intro session_invI) auto
next
  case (x_send A D C X Y env buf n X')
  note i = inv_send [OF session_invD(1) [OF x_send.IH] x_send.hyps(2)]
  show ?case
  proof (rule session_invI)
    show "tx_inv (A @ take n buf) b X'" "tx_inv D d Y" using i session_invD(2) [OF x_send.IH] by auto
    fix S assume S: "prefix (A @ take n buf) S" "length S < HALF" "fin_sent X' \<Longrightarrow> S = A @ take n buf"
    show "rx_side S b C Y"
      by (rule session_invD(3) [OF x_send.IH]) (use S i in \<open>auto simp: fin_sent_def prefix_def\<close>)
  qed
next
  case (x_send_fails A D C X Y env buf e X')
  from inv_send [OF session_invD(1) [OF x_send_fails.IH] x_send_fails.hyps(2)] show ?case by (intro x_step_inv [OF x_send_fails.IH]) auto
next
  case (x_recv A D C X Y env len r X')
  from inv_recv [OF session_invD(1) [OF x_recv.IH] x_recv.hyps(2)] show ?case by (rule x_step_inv [OF x_recv.IH])
next
  case (x_close A D C X Y env r X')
  from inv_close [OF session_invD(1) [OF x_close.IH], of env] x_close.hyps(2) show ?case by (intro x_step_inv [OF x_close.IH]) auto
next
  case (x_segment A D C X Y env s opts)
  from inv_ingress [OF session_invD(1) [OF x_segment.IH], of env s opts] show ?case by (intro x_step_inv [OF x_segment.IH]) auto
next
  case (x_timer A D C X Y env X')
  from inv_timer [OF session_invD(1) [OF x_timer.IH] x_timer.hyps(2)] show ?case by (rule x_step_inv [OF x_timer.IH])
next
  case (x_flush A D C X Y env tx r X')
  from flush_inv(1,2) [OF session_invD(1) [OF x_flush.IH] x_flush.hyps(2)] show ?case by (rule x_step_inv [OF x_flush.IH])
next
  case (y_segment A D C X Y s env opts)
  show ?case
  proof (rule y_step_inv [OF y_segment.IH])
    show "tx_inv D d (ingress_existing env Y s opts)" using inv_ingress [OF session_invD(2) [OF y_segment.IH]] by blast
    fix S assume S: "rx_side S b C Y" "prefix A S" "length S < HALF" "fin_sent X \<Longrightarrow> S = A"
    show "rx_side S b C (ingress_existing env Y s opts)"
      by (rule side_ingress [OF S(1)], rule carried_segment [OF session_invD(1) [OF y_segment.IH] y_segment.hyps(2) S(2-4)])
        (use side_bound [OF S(1)] in auto)
  qed
next
  case (y_read A D C X Y env len out Y')
  from inv_recv(1) [OF session_invD(2) [OF y_read.IH] y_read.hyps(2)] show ?case
    by (rule y_step_inv [OF y_read.IH]) (rule side_read(1) [OF _ y_read.hyps(2)])
next
  case (y_read_fails A D C X Y env len e Y')
  from inv_recv(1) [OF session_invD(2) [OF y_read_fails.IH] y_read_fails.hyps(2)] show ?case
    by (rule y_step_inv [OF y_read_fails.IH]) (use read_fails_same [OF y_read_fails.hyps(2)] in simp)
next
  case (y_send A D C X Y env buf n Y')
  from inv_send(2) [OF session_invD(2) [OF y_send.IH] y_send.hyps(2)] show ?case
    by (intro y_step_inv [OF y_send.IH] side_send [OF _ session_invD(2) [OF y_send.IH] y_send.hyps(2)]) auto
next
  case (y_send_fails A D C X Y env buf e Y')
  from inv_send(2) [OF session_invD(2) [OF y_send_fails.IH] y_send_fails.hyps(2)] show ?case
    by (intro y_step_inv [OF y_send_fails.IH] side_send [OF _ session_invD(2) [OF y_send_fails.IH] y_send_fails.hyps(2)]) auto
next
  case (y_timer A D C X Y env Y')
  from inv_timer(1) [OF session_invD(2) [OF y_timer.IH] y_timer.hyps(2)] show ?case
    by (rule y_step_inv [OF y_timer.IH]) (rule side_timer [OF _ y_timer.hyps(2)])
next
  case (y_flush A D C X Y env tx r Y')
  from flush_inv(1) [OF session_invD(2) [OF y_flush.IH] y_flush.hyps(2)] show ?case
    by (rule y_step_inv [OF y_flush.IH]) (rule side_flush [OF _ session_invD(2) [OF y_flush.IH] y_flush.hyps(2)])
qed

end
