(* ===== verification/Spec2Isabelle.thy ===== *)
theory Spec2Isabelle
  imports Tcp_Rtt Tcp_Cc Tcp_Sack_Next Tcp_Connection
begin

text \<open>
  SnowTG: a user-space TCP/IP stack and the traffic generator on top of it.
\<close>

end
